(* ===== verification/Prelude.thy ===== *)
theory Prelude
  imports Main "HOL-Library.AList" "HOL-Library.Char_ord" "HOL-Library.List_Lexorder"
    "HOL-Library.Multiset" "HOL-Library.Sublist"
begin

text \<open>
  What the dashboard's TypeScript takes from the language, shared by every component
  theory: truthiness and the \<open>||\<close> and \<open>??\<close> operators on optional values, string
  searching and splitting, insertion-ordered \<open>Map\<close> objects (association lists with
  \<open>AList.update\<close> and \<open>AList.delete\<close>, which update in place and append at the end
  exactly as \<open>Map.set\<close> does), \<open>Array.prototype.sort\<close> with a comparator (stable), and
  decimal printing and reading of integers.

  A JavaScript string is represented by its UTF-8 bytes, one \<open>char\<close> per byte.  The
  operations the modelled modules use on strings (equality, concatenation, prefix,
  suffix and substring tests, splitting at an ASCII character, slicing at a position
  found by one of those) commute with that representation.
\<close>

named_theorems js_simps "evaluation rules of the shared JavaScript operations"

section \<open>Optional values and truthiness\<close>

type_synonym 'v dict = "(string \<times> 'v) list"

text \<open>\<open>!!s\<close> for a string that may be undefined.\<close>

definition truthy :: "string option \<Rightarrow> bool" where
  "truthy v = (case v of None \<Rightarrow> False | Some s \<Rightarrow> s \<noteq> [])"

text \<open>\<open>s || d\<close> for a string that may be undefined.\<close>

definition or_else :: "string option \<Rightarrow> string \<Rightarrow> string" where
  "or_else v d = (case v of None \<Rightarrow> d | Some s \<Rightarrow> if s = [] then d else s)"

text \<open>\<open>v ?? d\<close>.\<close>

definition nullish :: "'a option \<Rightarrow> 'a \<Rightarrow> 'a" where
  "nullish v d = (case v of None \<Rightarrow> d | Some x \<Rightarrow> x)"

lemma truthy_simps [simp, js_simps]:
  "truthy None = False" "truthy (Some s) = (s \<noteq> [])"
  by (simp_all add: truthy_def)

lemma or_else_simps [simp, js_simps]:
  "or_else None d = d" "or_else (Some []) d = d" "or_else (Some (c # s)) d = c # s"
  by (simp_all add: or_else_def)

lemma nullish_simps [simp, js_simps]:
  "nullish None d = d" "nullish (Some x) d = x"
  by (simp_all add: nullish_def)

lemma or_else_truthy: "truthy v \<Longrightarrow> or_else v d = the v"
  by (cases v) (auto simp: or_else_def)

lemma or_else_falsy: "\<not> truthy v \<Longrightarrow> or_else v d = d"
  by (cases v) (auto simp: or_else_def)

section \<open>Strings\<close>

definition startsWith :: "string \<Rightarrow> string \<Rightarrow> bool" where
  "startsWith s p = prefix p s"

definition endsWith :: "string \<Rightarrow> string \<Rightarrow> bool" where
  "endsWith s p = suffix p s"

text \<open>\<open>s.includes(p)\<close>.\<close>

fun str_includes :: "string \<Rightarrow> string \<Rightarrow> bool" where
  "str_includes [] p = (p = [])"
| "str_includes (c # s) p = (startsWith (c # s) p \<or> str_includes s p)"

text \<open>What follows the prefix \<open>p\<close>, when \<open>p\<close> is one.\<close>

fun strip_prefix :: "string \<Rightarrow> string \<Rightarrow> string option" where
  "strip_prefix [] s = Some s"
| "strip_prefix (p # ps) [] = None"
| "strip_prefix (p # ps) (c # cs) = (if p = c then strip_prefix ps cs else None)"

text \<open>The text before the first \<open>c\<close>, and the text after it if there is one.\<close>

fun cut_at :: "'a \<Rightarrow> 'a list \<Rightarrow> 'a list \<times> 'a list option" where
  "cut_at c [] = ([], None)"
| "cut_at c (x # xs) =
     (if x = c then ([], Some xs) else (case cut_at c xs of (a, r) \<Rightarrow> (x # a, r)))"

text \<open>\<open>s.split(c)\<close> for a one-character separator.\<close>

fun split_on :: "'a \<Rightarrow> 'a list \<Rightarrow> 'a list list" where
  "split_on c [] = [[]]"
| "split_on c (x # xs) =
     (if x = c then [] # split_on c xs
      else (case split_on c xs of [] \<Rightarrow> [[x]] | y # ys \<Rightarrow> (x # y) # ys))"

text \<open>\<open>xs.join(sep)\<close>.\<close>

fun join :: "'a list \<Rightarrow> 'a list list \<Rightarrow> 'a list" where
  "join sep [] = []"
| "join sep [x] = x"
| "join sep (x # y # ys) = x @ sep @ join sep (y # ys)"

text \<open>The whitespace \<open>String.prototype.trim\<close> removes, ASCII part.\<close>

definition is_space :: "char \<Rightarrow> bool" where
  "is_space c = (c \<in> {CHR 0x09, CHR 0x0A, CHR 0x0B, CHR 0x0C, CHR 0x0D, CHR '' ''})"

definition trim :: "string \<Rightarrow> string" where
  "trim s = rev (dropWhile is_space (rev (dropWhile is_space s)))"

lemma startsWith_append [simp]: "startsWith (p @ s) p"
  by (simp add: startsWith_def)

lemma startsWith_strip: "startsWith s p = (strip_prefix p s \<noteq> None)"
  unfolding startsWith_def by (induction p s rule: strip_prefix.induct) auto

lemma strip_prefix_append [simp]: "strip_prefix p (p @ s) = Some s"
  by (induction p) auto

lemma strip_prefix_Some: "strip_prefix p s = Some r \<longleftrightarrow> s = p @ r"
  by (induction p s rule: strip_prefix.induct) auto

lemma startsWith_simps [js_simps]:
  "startsWith s [] = True" "startsWith [] (p # ps) = False"
  "startsWith (c # cs) (p # ps) = (p = c \<and> startsWith cs ps)"
  by (auto simp: startsWith_def)

lemma endsWith_simps [js_simps]:
  "endsWith s p = startsWith (rev s) (rev p)"
  by (simp add: endsWith_def startsWith_def suffix_to_prefix)

lemma str_includes_iff: "str_includes s p \<longleftrightarrow> (\<exists>a b. s = a @ p @ b)"
proof (induction s)
  case Nil
  then show ?case by auto
next
  case (Cons c s)
  have "(\<exists>a b. c # s = a @ p @ b) \<longleftrightarrow> prefix p (c # s) \<or> (\<exists>a b. s = a @ p @ b)"
  proof
    assume "\<exists>a b. c # s = a @ p @ b"
    then obtain a b where "c # s = a @ p @ b" by blast
    then show "prefix p (c # s) \<or> (\<exists>a b. s = a @ p @ b)"
      by (cases a) (auto simp: prefix_def)
  next
    assume "prefix p (c # s) \<or> (\<exists>a b. s = a @ p @ b)"
    then show "\<exists>a b. c # s = a @ p @ b"
    proof
      assume "prefix p (c # s)"
      then show ?thesis by (metis append_Nil prefix_def)
    next
      assume "\<exists>a b. s = a @ p @ b"
      then show ?thesis by (metis append_Cons)
    qed
  qed
  then show ?case using Cons.IH by (simp add: startsWith_def)
qed

lemma str_includes_char: "str_includes s [c] \<longleftrightarrow> c \<in> set s"
  by (induction s) (auto simp: startsWith_def)

lemma cut_at_absent [simp]: "c \<notin> set s \<Longrightarrow> cut_at c s = (s, None)"
  by (induction s) auto

lemma cut_at_append [simp]: "c \<notin> set s \<Longrightarrow> cut_at c (s @ c # r) = (s, Some r)"
  by (induction s) auto

lemma cut_at_None: "cut_at c s = (a, None) \<Longrightarrow> c \<notin> set s \<and> a = s"
proof (induction s arbitrary: a)
  case (Cons x s)
  from Cons.prems have "x \<noteq> c" by auto
  with Cons.prems obtain a' where "cut_at c s = (a', None)" "a = x # a'"
    by (auto split: prod.splits)
  with Cons.IH \<open>x \<noteq> c\<close> show ?case by auto
qed simp

lemma cut_at_Some: "cut_at c s = (a, Some r) \<Longrightarrow> c \<notin> set a \<and> s = a @ c # r"
proof (induction s arbitrary: a)
  case (Cons x s)
  show ?case
  proof (cases "x = c")
    case True
    with Cons.prems show ?thesis by auto
  next
    case False
    with Cons.prems obtain a' where "cut_at c s = (a', Some r)" "a = x # a'"
      by (auto split: prod.splits)
    with Cons.IH False show ?thesis by auto
  qed
qed simp

lemma split_on_nonempty [simp]: "split_on c s \<noteq> []"
  by (induction s) (auto split: list.splits)

lemma split_on_absent [simp]: "c \<notin> set s \<Longrightarrow> split_on c s = [s]"
  by (induction s) auto

lemma split_on_append [simp]: "c \<notin> set s \<Longrightarrow> split_on c (s @ c # r) = s # split_on c r"
  by (induction s) auto

lemma split_on_join:
  "xs \<noteq> [] \<Longrightarrow> \<forall>x \<in> set xs. c \<notin> set x \<Longrightarrow> split_on c (join [c] xs) = xs"
proof (induction xs rule: induct_list012)
  case (3 x y zs)
  then show ?case by simp
qed auto

lemma join_split_on: "join [c] (split_on c s) = s"
proof (induction s)
  case Nil
  then show ?case by simp
next
  case (Cons x s)
  obtain y ys where y: "split_on c s = y # ys"
    by (cases "split_on c s") auto
  with Cons show ?case by (cases ys) auto
qed

lemma split_on_parts: "x \<in> set (split_on c s) \<Longrightarrow> c \<notin> set x"
proof (induction s arbitrary: x)
  case Nil
  then show ?case by simp
next
  case (Cons a s)
  obtain y ys where y: "split_on c s = y # ys"
    by (cases "split_on c s") auto
  with Cons.IH have IH: "\<forall>z \<in> set (y # ys). c \<notin> set z" by simp
  from Cons.prems y show ?case
    by (cases "a = c") (use IH in auto)
qed

section \<open>Decimal integers\<close>

text \<open>\<open>String(n)\<close> for a non-negative integer (JavaScript switches to exponent notation
  at \<open>10^21\<close>, far above any count or offset the application handles).\<close>

definition digit_char :: "nat \<Rightarrow> char" where
  "digit_char d = char_of (48 + d)"

fun show_nat :: "nat \<Rightarrow> string" where
  "show_nat n = (if n < 10 then [digit_char n] else show_nat (n div 10) @ [digit_char (n mod 10)])"

declare show_nat.simps [simp del]

definition show_int :: "int \<Rightarrow> string" where
  "show_int i = (if i < 0 then ''-'' @ show_nat (nat (- i)) else show_nat (nat i))"

definition is_digit :: "char \<Rightarrow> bool" where
  "is_digit c = ((48 :: nat) \<le> of_char c \<and> of_char c \<le> (57 :: nat))"

definition digit_val :: "char \<Rightarrow> nat" where
  "digit_val c = of_char c - 48"

definition read_digits :: "string \<Rightarrow> nat" where
  "read_digits s = foldl (\<lambda>acc c. 10 * acc + digit_val c) 0 s"

lemma digit_char_facts [simp]:
  assumes "d < 10"
  shows "is_digit (digit_char d)" "digit_val (digit_char d) = d"
  using assms by (simp_all add: is_digit_def digit_val_def digit_char_def)

lemma show_nat_digits: "\<forall>c \<in> set (show_nat n). is_digit c"
proof (induction n rule: show_nat.induct)
  case (1 n)
  then show ?case by (cases "n < 10") (auto simp: show_nat.simps[of n])
qed

lemma show_nat_nonempty [simp]: "show_nat n \<noteq> []"
  by (subst show_nat.simps) simp

lemma read_show_nat [simp]: "read_digits (show_nat n) = n"
proof (induction n rule: show_nat.induct)
  case (1 n)
  show ?case
  proof (cases "n < 10")
    case True
    then show ?thesis by (simp add: show_nat.simps[of n] read_digits_def)
  next
    case False
    then have "read_digits (show_nat n) = 10 * read_digits (show_nat (n div 10)) + n mod 10"
      by (simp add: show_nat.simps[of n] read_digits_def)
    with 1 False show ?thesis by simp
  qed
qed

lemma show_nat_inj: "show_nat m = show_nat n \<Longrightarrow> m = n"
  by (metis read_show_nat)

section \<open>Insertion-ordered maps and sets\<close>

text \<open>\<open>new Set(xs)\<close>: the distinct elements in the order of their first occurrence.\<close>

definition uniq :: "'a list \<Rightarrow> 'a list" where
  "uniq xs = rev (remdups (rev xs))"

text \<open>\<open>Set.prototype.add\<close> on such a set.\<close>

definition set_add :: "'a \<Rightarrow> 'a list \<Rightarrow> 'a list" where
  "set_add x xs = (if x \<in> set xs then xs else xs @ [x])"

lemma set_uniq [simp]: "set (uniq xs) = set xs"
  by (simp add: uniq_def)

lemma distinct_uniq [simp]: "distinct (uniq xs)"
  by (simp add: uniq_def)

lemma uniq_Nil [simp]: "uniq [] = []"
  by (simp add: uniq_def)

lemma uniq_snoc: "uniq (xs @ [x]) = set_add x (uniq xs)"
proof -
  have "remdups (x # rev xs) = (if x \<in> set xs then remdups (rev xs) else x # remdups (rev xs))"
    by simp
  then show ?thesis by (auto simp: uniq_def set_add_def)
qed

lemma distinct_uniq_id: "distinct xs \<Longrightarrow> uniq xs = xs"
  by (simp add: uniq_def distinct_remdups_id)

lemma set_set_add [simp]: "set (set_add x xs) = insert x (set xs)"
  by (auto simp: set_add_def)

lemma distinct_set_add [simp]: "distinct (set_add x xs) = distinct xs"
  by (auto simp: set_add_def)

text \<open>The interface the components use a \<open>Map\<close> through.\<close>

locale ordered_map =
  fixes get :: "'m \<Rightarrow> 'k \<Rightarrow> 'v option"
    and put :: "'k \<Rightarrow> 'v \<Rightarrow> 'm \<Rightarrow> 'm"
    and del :: "'k \<Rightarrow> 'm \<Rightarrow> 'm"
    and keys :: "'m \<Rightarrow> 'k list"
    and size_of :: "'m \<Rightarrow> nat"
    and wf_map :: "'m \<Rightarrow> bool"
  assumes get_put: "wf_map m \<Longrightarrow> get (put k v m) k' = (if k' = k then Some v else get m k')"
    and get_del: "wf_map m \<Longrightarrow> get (del k m) k' = (if k' = k then None else get m k')"
    and get_keys: "wf_map m \<Longrightarrow> get m k = None \<longleftrightarrow> k \<notin> set (keys m)"
    and keys_put: "wf_map m \<Longrightarrow> keys (put k v m) = (if k \<in> set (keys m) then keys m else keys m @ [k])"
    and keys_del: "wf_map m \<Longrightarrow> keys (del k m) = filter (\<lambda>k'. k' \<noteq> k) (keys m)"
    and size_keys: "wf_map m \<Longrightarrow> size_of m = length (keys m)"
    and distinct_keys: "wf_map m \<Longrightarrow> distinct (keys m)"
    and wf_put: "wf_map m \<Longrightarrow> wf_map (put k v m)"
    and wf_del: "wf_map m \<Longrightarrow> wf_map (del k m)"
begin

lemma put_moves_to_end:
  "wf_map m \<Longrightarrow> keys (put k v (del k m)) = filter (\<lambda>k'. k' \<noteq> k) (keys m) @ [k]"
  by (simp add: keys_put keys_del wf_del)

lemma size_put_del:
  assumes "wf_map m"
  shows "size_of (put k v (del k m)) = Suc (length (filter (\<lambda>k'. k' \<noteq> k) (keys m)))"
  using assms by (simp add: size_keys put_moves_to_end wf_del wf_put)

lemma size_del_hd:
  assumes "wf_map m" "keys m = k # ks"
  shows "size_of (del k m) = length ks"
proof -
  have "k \<notin> set ks" using distinct_keys[OF assms(1)] assms(2) by simp
  then have "filter (\<lambda>k'. k' \<noteq> k) ks = ks" by (auto simp: filter_id_conv)
  then show ?thesis using assms by (simp add: size_keys wf_del keys_del)
qed

end

abbreviation keys_of :: "('k \<times> 'v) list \<Rightarrow> 'k list" where
  "keys_of m \<equiv> map fst m"

definition wf_dict :: "('k \<times> 'v) list \<Rightarrow> bool" where
  "wf_dict m = distinct (keys_of m)"

lemma keys_of_update:
  "keys_of (AList.update k v m) = (if k \<in> set (keys_of m) then keys_of m else keys_of m @ [k])"
  by (rule AList.update_keys)

lemma keys_of_delete: "keys_of (AList.delete k m) = filter (\<lambda>k'. k' \<noteq> k) (keys_of m)"
  by (induction m) (auto simp: AList.delete_eq)

lemma wf_dict_update [simp, intro]: "wf_dict m \<Longrightarrow> wf_dict (AList.update k v m)"
  by (simp add: wf_dict_def AList.distinct_update)

lemma wf_dict_delete [simp, intro]: "wf_dict m \<Longrightarrow> wf_dict (AList.delete k m)"
  by (simp add: wf_dict_def AList.distinct_delete)

lemma wf_dict_Nil [simp, intro]: "wf_dict []"
  by (simp add: wf_dict_def)

interpretation dict_map: ordered_map map_of AList.update AList.delete keys_of length wf_dict
proof (unfold_locales, goal_cases)
  case (1 m k v k')
  then show ?case by (simp add: AList.update_conv')
next
  case (2 m k k')
  then show ?case by (simp add: AList.delete_conv')
next
  case (3 m k)
  then show ?case by (simp add: map_of_eq_None_iff)
qed (auto simp: keys_of_update keys_of_delete wf_dict_def AList.distinct_update AList.distinct_delete)

lemmas dict_simps [js_simps] = AList.update.simps AList.delete_eq

section \<open>Sorting with a comparator\<close>

text \<open>\<open>xs.sort(cmp)\<close>: the result of the stable sort the language specification asks for.\<close>

fun insert_by :: "('a \<Rightarrow> 'a \<Rightarrow> int) \<Rightarrow> 'a \<Rightarrow> 'a list \<Rightarrow> 'a list" where
  "insert_by cmp x [] = [x]"
| "insert_by cmp x (y # ys) = (if cmp x y \<le> 0 then x # y # ys else y # insert_by cmp x ys)"

definition sort_by :: "('a \<Rightarrow> 'a \<Rightarrow> int) \<Rightarrow> 'a list \<Rightarrow> 'a list" where
  "sort_by cmp xs = foldr (insert_by cmp) xs []"

lemma mset_insert_by [simp]: "mset (insert_by cmp x ys) = add_mset x (mset ys)"
  by (induction ys) auto

lemma mset_sort_by [simp]: "mset (sort_by cmp xs) = mset xs"
  unfolding sort_by_def by (induction xs) auto

lemma set_sort_by [simp]: "set (sort_by cmp xs) = set xs"
  by (metis mset_sort_by set_mset_mset)

lemma length_sort_by [simp]: "length (sort_by cmp xs) = length xs"
  by (metis mset_sort_by size_mset)

lemma distinct_sort_by [simp]: "distinct (sort_by cmp xs) = distinct xs"
  by (metis mset_sort_by mset_eq_imp_distinct_iff)

lemma sort_by_Nil [simp]: "sort_by cmp [] = []"
  by (simp add: sort_by_def)

text \<open>The contract a comparator has to meet for the result to be sorted.\<close>

locale comparator =
  fixes cmp :: "'a \<Rightarrow> 'a \<Rightarrow> int"
  assumes cmp_total: "cmp x y \<le> 0 \<or> cmp y x \<le> 0"
    and cmp_trans: "cmp x y \<le> 0 \<Longrightarrow> cmp y z \<le> 0 \<Longrightarrow> cmp x z \<le> 0"
begin

lemma set_insert_by: "set (insert_by cmp x ys) = insert x (set ys)"
  by (induction ys) auto

lemma insert_by_sorted:
  "sorted_wrt (\<lambda>x y. cmp x y \<le> 0) ys \<Longrightarrow> sorted_wrt (\<lambda>x y. cmp x y \<le> 0) (insert_by cmp x ys)"
proof (induction ys)
  case Nil
  then show ?case by simp
next
  case (Cons y ys)
  show ?case
  proof (cases "cmp x y \<le> 0")
    case True
    with Cons.prems show ?thesis by (auto intro: cmp_trans)
  next
    case False
    then have "cmp y x \<le> 0" using cmp_total by blast
    with False Cons show ?thesis by (simp add: set_insert_by)
  qed
qed

lemma sort_by_sorted: "sorted_wrt (\<lambda>x y. cmp x y \<le> 0) (sort_by cmp xs)"
  unfolding sort_by_def by (induction xs) (auto intro: insert_by_sorted)

end

text \<open>\<open>(a, b) => a - b\<close> on numbers.\<close>

definition num_cmp :: "int \<Rightarrow> int \<Rightarrow> int" where
  "num_cmp a b = a - b"

interpretation num_order: comparator num_cmp
  by unfold_locales (auto simp: num_cmp_def)

text \<open>
  The default sort order compares UTF-16 code units.  On UTF-8 bytes that is the byte order, but
  with the lead bytes \<open>EE\<close> and \<open>EF\<close> (\<open>U+E000\<close> to \<open>U+FFFF\<close>) after \<open>F0\<close> to \<open>F4\<close>, whose
  characters start with a surrogate.
\<close>

definition byte_rank :: "char \<Rightarrow> nat" where
  "byte_rank c = (let n = of_char c in if n = 238 \<or> n = 239 then n + 256 else n)"

fun str_cmp :: "string \<Rightarrow> string \<Rightarrow> int" where
  "str_cmp [] [] = 0"
| "str_cmp [] (_ # _) = - 1"
| "str_cmp (_ # _) [] = 1"
| "str_cmp (a # as) (b # bs) =
     (if byte_rank a < byte_rank b then - 1 else if byte_rank b < byte_rank a then 1 else str_cmp as bs)"

text \<open>\<open>c1(a, b) || c2(a, b)\<close>: a tie of the first comparator is broken by the second.\<close>

definition then_cmp :: "('a \<Rightarrow> 'a \<Rightarrow> int) \<Rightarrow> ('a \<Rightarrow> 'a \<Rightarrow> int) \<Rightarrow> 'a \<Rightarrow> 'a \<Rightarrow> int" where
  "then_cmp c1 c2 a b = (if c1 a b \<noteq> 0 then c1 a b else c2 a b)"

section \<open>Shared list facts\<close>

text \<open>\<open>xs.find(p)\<close> is the library's \<open>find\<close>; \<open>xs.slice(a, b)\<close> for in-range non-negative
  bounds.\<close>

definition slice :: "nat \<Rightarrow> nat \<Rightarrow> 'a list \<Rightarrow> 'a list" where
  "slice a b xs = take (b - a) (drop a xs)"

lemma length_slice: "length (slice a b xs) = min (b - a) (length xs - a)"
  by (simp add: slice_def min.commute)

lemma find_Some_set: "find P xs = Some x \<Longrightarrow> x \<in> set xs \<and> P x"
  by (induction xs) (auto split: if_splits)

lemma find_None_iff': "find P xs = None \<longleftrightarrow> (\<forall>x \<in> set xs. \<not> P x)"
  by (induction xs) auto

lemma filter_partition_length:
  "length (filter P xs) + length (filter (\<lambda>x. \<not> P x) xs) = length xs"
  by (rule sum_length_filter_compl)

lemma sum_list_const_zero: "(\<And>x. x \<in> set xs \<Longrightarrow> f x = (0::nat)) \<Longrightarrow> sum_list (map f xs) = 0"
  by (induction xs) auto

section \<open>Non-ASCII literals\<close>

text \<open>The few characters outside ASCII the source writes in its texts, as UTF-8.\<close>

definition EM_DASH :: string where "EM_DASH = [CHR 0xE2, CHR 0x80, CHR 0x94]"
definition ELLIPSIS :: string where "ELLIPSIS = [CHR 0xE2, CHR 0x80, CHR 0xA6]"
definition RIGHT_ARROW :: string where "RIGHT_ARROW = [CHR 0xE2, CHR 0x86, CHR 0x92]"
definition MIDDLE_DOT :: string where "MIDDLE_DOT = [CHR 0xC2, CHR 0xB7]"

end
