(* ===== verification/Uri.thy ===== *)
theory Uri
  imports Prelude
begin

text \<open>
  The platform's URL functions the router and the lists are written over:
  \<open>encodeURIComponent\<close> and \<open>decodeURIComponent\<close> (ECMA-262, with \<open>URIError\<close> as
  \<open>None\<close>) and \<open>URLSearchParams\<close> (the WHATWG URL standard's form-urlencoded parser and
  serializer, with its lossy UTF-8 decoder).  Strings are UTF-8 bytes, so the escapes
  are byte-wise; \<open>utf8\<close> says that a byte list is the encoding of a string at all.

  The locale \<open>url_text\<close> states what the components rely on: escaping round-trips and
  never produces a character that separates parts of a URL.  It is interpreted on the
  definitions below.
\<close>

section \<open>UTF-8\<close>

abbreviation byte :: "char \<Rightarrow> nat" where
  "byte c \<equiv> of_char c"

definition cont :: "char \<Rightarrow> bool" where
  "cont c = (0x80 \<le> byte c \<and> byte c \<le> 0xBF)"

definition utf8_2 :: "char \<Rightarrow> char \<Rightarrow> bool" where
  "utf8_2 a b = (0xC2 \<le> byte a \<and> byte a \<le> 0xDF \<and> cont b)"

text \<open>The range of the second byte after a three-byte and after a four-byte lead.\<close>

definition lo3 :: "char \<Rightarrow> nat" where "lo3 a = (if byte a = 0xE0 then 0xA0 else 0x80)"
definition hi3 :: "char \<Rightarrow> nat" where "hi3 a = (if byte a = 0xED then 0x9F else 0xBF)"
definition lo4 :: "char \<Rightarrow> nat" where "lo4 a = (if byte a = 0xF0 then 0x90 else 0x80)"
definition hi4 :: "char \<Rightarrow> nat" where "hi4 a = (if byte a = 0xF4 then 0x8F else 0xBF)"

definition utf8_3 :: "char \<Rightarrow> char \<Rightarrow> char \<Rightarrow> bool" where
  "utf8_3 a b c = (0xE0 \<le> byte a \<and> byte a \<le> 0xEF \<and> lo3 a \<le> byte b \<and> byte b \<le> hi3 a \<and> cont c)"

definition utf8_4 :: "char \<Rightarrow> char \<Rightarrow> char \<Rightarrow> char \<Rightarrow> bool" where
  "utf8_4 a b c d =
     (0xF0 \<le> byte a \<and> byte a \<le> 0xF4 \<and> lo4 a \<le> byte b \<and> byte b \<le> hi4 a \<and> cont c \<and> cont d)"

fun utf8 :: "string \<Rightarrow> bool" where
  "utf8 [] = True"
| "utf8 (a # s) =
     (if byte a < 0x80 then utf8 s
      else case s of [] \<Rightarrow> False
        | b # s2 \<Rightarrow>
            if utf8_2 a b then utf8 s2
            else (case s2 of [] \<Rightarrow> False
              | c # s3 \<Rightarrow>
                  if utf8_3 a b c then utf8 s3
                  else (case s3 of [] \<Rightarrow> False
                    | d # s4 \<Rightarrow> utf8_4 a b c d \<and> utf8 s4)))"

lemma utf8_ascii: "\<forall>c \<in> set s. byte c < 0x80 \<Longrightarrow> utf8 s"
  by (induction s) auto

section \<open>Percent escapes\<close>

definition hex_digit :: "nat \<Rightarrow> char" where
  "hex_digit d = (if d < 10 then char_of (48 + d) else char_of (55 + d))"

definition hex_val :: "char \<Rightarrow> nat option" where
  "hex_val c =
     (if 48 \<le> byte c \<and> byte c \<le> 57 then Some (byte c - 48)
      else if 65 \<le> byte c \<and> byte c \<le> 70 then Some (byte c - 55)
      else if 97 \<le> byte c \<and> byte c \<le> 102 then Some (byte c - 87)
      else None)"

definition pct :: "char \<Rightarrow> string" where
  "pct c = [CHR ''%'', hex_digit (byte c div 16), hex_digit (byte c mod 16)]"

definition is_alnum :: "char \<Rightarrow> bool" where
  "is_alnum c = (48 \<le> byte c \<and> byte c \<le> 57 \<or> 65 \<le> byte c \<and> byte c \<le> 90 \<or> 97 \<le> byte c \<and> byte c \<le> 122)"

lemma hex_val_digit [simp]: "d < 16 \<Longrightarrow> hex_val (hex_digit d) = Some d"
  by (simp add: hex_val_def hex_digit_def)

lemma hex_digit_alnum: "d < 16 \<Longrightarrow> is_alnum (hex_digit d)"
  by (simp add: is_alnum_def hex_digit_def)

lemma byte_less [simp]: "byte c < 256"
  by (metis of_char_mod_256 mod_less_divisor zero_less_numeral)

lemma pct_value: "char_of (16 * (byte c div 16) + byte c mod 16) = c"
  by simp

lemma byte_div16 [simp]: "byte c div 16 < 16"
  using byte_less[of c] by linarith

lemma set_pct: "x \<in> set (pct c) \<Longrightarrow> x = CHR ''%'' \<or> is_alnum x"
  by (auto simp: pct_def hex_digit_alnum)

subsection \<open>\<open>encodeURIComponent\<close> and \<open>decodeURIComponent\<close>\<close>

definition uri_unreserved :: "char \<Rightarrow> bool" where
  "uri_unreserved c = (is_alnum c \<or> c \<in> set ''-_.!~*()'' \<or> byte c = 39)"

definition encodeURIComponent :: "string \<Rightarrow> string" where
  "encodeURIComponent s = concat (map (\<lambda>c. if uri_unreserved c then [c] else pct c) s)"

datatype tok = Raw char | Esc char

fun tokens :: "string \<Rightarrow> tok list option" where
  "tokens [] = Some []"
| "tokens (c # s) =
     (if c \<noteq> CHR ''%'' then map_option (Cons (Raw c)) (tokens s)
      else case s of
        h # l # r \<Rightarrow>
          (case (hex_val h, hex_val l) of
             (Some a, Some b) \<Rightarrow> map_option (Cons (Esc (char_of (16 * a + b)))) (tokens r)
           | _ \<Rightarrow> None)
      | _ \<Rightarrow> None)"

fun assemble :: "tok list \<Rightarrow> string option" where
  "assemble [] = Some []"
| "assemble (Raw c # ts) = map_option (Cons c) (assemble ts)"
| "assemble (Esc a # ts) =
     (if byte a < 0x80 then map_option (Cons a) (assemble ts)
      else case ts of
        Esc b # us \<Rightarrow>
          (if utf8_2 a b then map_option (append [a, b]) (assemble us)
           else case us of
             Esc c # vs \<Rightarrow>
               (if utf8_3 a b c then map_option (append [a, b, c]) (assemble vs)
                else case vs of
                  Esc d # ws \<Rightarrow>
                    (if utf8_4 a b c d then map_option (append [a, b, c, d]) (assemble ws) else None)
                | _ \<Rightarrow> None)
           | _ \<Rightarrow> None)
      | _ \<Rightarrow> None)"

definition decodeURIComponent :: "string \<Rightarrow> string option" where
  "decodeURIComponent s = (case tokens s of None \<Rightarrow> None | Some ts \<Rightarrow> assemble ts)"

lemma not_unreserved_pct: "\<not> uri_unreserved (CHR ''%'')"
  by (simp add: uri_unreserved_def is_alnum_def)

lemma unreserved_ascii: "uri_unreserved c \<Longrightarrow> byte c < 0x80"
  by (auto simp: uri_unreserved_def is_alnum_def)

lemma tokens_pct [simp]: "tokens (pct c @ s) = map_option (Cons (Esc c)) (tokens s)"
  by (simp add: pct_def)

definition uri_tok :: "char \<Rightarrow> tok" where
  "uri_tok c = (if uri_unreserved c then Raw c else Esc c)"

lemma tokens_encode: "tokens (encodeURIComponent s) = Some (map uri_tok s)"
proof (induction s)
  case Nil
  then show ?case by (simp add: encodeURIComponent_def)
next
  case (Cons c s)
  then show ?case
    using not_unreserved_pct by (auto simp: encodeURIComponent_def uri_tok_def)
qed

lemma assemble_uri_tok: "utf8 s \<Longrightarrow> assemble (map uri_tok s) = Some s"
proof (induction s rule: utf8.induct)
  case 1
  then show ?case by simp
next
  case (2 a s)
  show ?case
  proof (cases "byte a < 0x80")
    case True
    with 2 show ?thesis by (cases "uri_unreserved a") (auto simp: uri_tok_def)
  next
    case big: False
    then have esc: "uri_tok a = Esc a" using unreserved_ascii uri_tok_def by auto
    have escb: "cont b \<Longrightarrow> uri_tok b = Esc b" for b
      using unreserved_ascii[of b] by (auto simp: uri_tok_def cont_def)
    have esc2: "0x80 \<le> byte b \<Longrightarrow> uri_tok b = Esc b" for b
      using unreserved_ascii[of b] by (auto simp: uri_tok_def)
    from 2(5) big obtain b s2 where s: "s = b # s2" by (cases s) auto
    show ?thesis
    proof (cases "utf8_2 a b")
      case True
      then have "uri_tok b = Esc b" by (auto simp: utf8_2_def escb)
      with 2 big s True esc show ?thesis by simp
    next
      case no2: False
      from 2(5) big s no2 obtain c s3 where s2: "s2 = c # s3" by (cases s2) auto
      show ?thesis
      proof (cases "utf8_3 a b c")
        case True
        then have "uri_tok b = Esc b" "uri_tok c = Esc c"
          by (auto simp: utf8_3_def escb lo3_def intro!: esc2 split: if_splits)
        with 2 big s s2 no2 True esc show ?thesis by simp
      next
        case no3: False
        from 2(5) big s s2 no2 no3 obtain d s4 where s3: "s3 = d # s4" by (cases s3) auto
        from 2(5) big s s2 s3 no2 no3 have u4: "utf8_4 a b c d" and ok: "utf8 s4" by auto
        then have "uri_tok b = Esc b" "uri_tok c = Esc c" "uri_tok d = Esc d"
          by (auto simp: utf8_4_def escb lo4_def intro!: esc2 split: if_splits)
        with 2 big s s2 s3 no2 no3 esc u4 ok show ?thesis by simp
      qed
    qed
  qed
qed

lemma decode_encode: "utf8 s \<Longrightarrow> decodeURIComponent (encodeURIComponent s) = Some s"
  by (simp add: decodeURIComponent_def tokens_encode assemble_uri_tok)

lemma encode_chars: "x \<in> set (encodeURIComponent s) \<Longrightarrow> uri_unreserved x \<or> x = CHR ''%''"
  by (auto simp: encodeURIComponent_def uri_unreserved_def dest!: set_pct split: if_splits)

lemma encode_empty: "encodeURIComponent s = [] \<longleftrightarrow> s = []"
  by (cases s) (auto simp: encodeURIComponent_def pct_def)

lemma decode_plain: "CHR ''%'' \<notin> set s \<Longrightarrow> decodeURIComponent s = Some s"
proof -
  assume "CHR ''%'' \<notin> set s"
  then have t: "tokens s = Some (map Raw s)" by (induction s) auto
  have "assemble (map Raw s) = Some s" by (induction s) auto
  with t show ?thesis by (simp add: decodeURIComponent_def)
qed

section \<open>\<open>URLSearchParams\<close>\<close>

type_synonym params = "(string \<times> string) list"

definition form_safe :: "char \<Rightarrow> bool" where
  "form_safe c = (is_alnum c \<or> c \<in> set ''*-._'')"

definition form_enc :: "string \<Rightarrow> string" where
  "form_enc s =
     concat (map (\<lambda>c. if c = CHR '' '' then ''+'' else if form_safe c then [c] else pct c) s)"

definition qs_string :: "params \<Rightarrow> string" where
  "qs_string ps = join ''&'' (map (\<lambda>(k, v). form_enc k @ ''='' @ form_enc v) ps)"

text \<open>Percent-decoding here keeps a \<open>%\<close> that starts no escape.\<close>

fun pct_dec :: "string \<Rightarrow> string" where
  "pct_dec [] = []"
| "pct_dec (c # s) =
     (if c \<noteq> CHR ''%'' then c # pct_dec s
      else case s of
        h # l # r \<Rightarrow>
          (case (hex_val h, hex_val l) of
             (Some a, Some b) \<Rightarrow> char_of (16 * a + b) # pct_dec r
           | _ \<Rightarrow> c # pct_dec s)
      | _ \<Rightarrow> c # pct_dec s)"

text \<open>U+FFFD, which replaces every ill-formed sequence.\<close>

definition replacement :: string where
  "replacement = [CHR 0xEF, CHR 0xBF, CHR 0xBD]"

function utf8_dec :: "nat \<Rightarrow> nat \<Rightarrow> nat \<Rightarrow> string \<Rightarrow> string \<Rightarrow> string" where
  "utf8_dec need lo hi pend [] = (if need = 0 then [] else replacement)"
| "utf8_dec need lo hi pend (b # bs) =
     (if need = 0 then
        (if byte b < 0x80 then b # utf8_dec 0 0x80 0xBF [] bs
         else if 0xC2 \<le> byte b \<and> byte b \<le> 0xDF then utf8_dec 1 0x80 0xBF [b] bs
         else if 0xE0 \<le> byte b \<and> byte b \<le> 0xEF then utf8_dec 2 (lo3 b) (hi3 b) [b] bs
         else if 0xF0 \<le> byte b \<and> byte b \<le> 0xF4 then utf8_dec 3 (lo4 b) (hi4 b) [b] bs
         else replacement @ utf8_dec 0 0x80 0xBF [] bs)
      else if byte b < lo \<or> hi < byte b then replacement @ utf8_dec 0 0x80 0xBF [] (b # bs)
      else if need = 1 then pend @ [b] @ utf8_dec 0 0x80 0xBF [] bs
      else utf8_dec (need - 1) 0x80 0xBF (pend @ [b]) bs)"
  by pat_completeness auto
termination
  by (relation "measure (\<lambda>(need, lo, hi, pend, bs). 2 * length bs + (if need = 0 then 0 else 1))") auto

declare utf8_dec.simps [simp del]

definition form_dec :: "string \<Rightarrow> string" where
  "form_dec s =
     utf8_dec 0 0x80 0xBF [] (pct_dec (map (\<lambda>c. if c = CHR ''+'' then CHR '' '' else c) s))"

definition parse_pair :: "string \<Rightarrow> string \<times> string" where
  "parse_pair s =
     (case cut_at (CHR ''='') s of (k, v) \<Rightarrow> (form_dec k, form_dec (nullish v [])))"

text \<open>\<open>new URLSearchParams(s)\<close>: a leading \<open>?\<close> is dropped, empty pieces are skipped.\<close>

definition qs_parse :: "string \<Rightarrow> params" where
  "qs_parse s =
     map parse_pair
       (filter (\<lambda>p. p \<noteq> [])
         (split_on (CHR ''&'') (case s of [] \<Rightarrow> [] | c # r \<Rightarrow> if c = CHR ''?'' then r else s)))"

definition qs_get :: "params \<Rightarrow> string \<Rightarrow> string option" where
  "qs_get ps k = map_of ps k"

fun qs_set :: "string \<Rightarrow> string \<Rightarrow> params \<Rightarrow> params" where
  "qs_set k v [] = [(k, v)]"
| "qs_set k v (p # ps) =
     (if fst p = k then (k, v) # filter (\<lambda>q. fst q \<noteq> k) ps else p # qs_set k v ps)"

definition qs_delete :: "string \<Rightarrow> params \<Rightarrow> params" where
  "qs_delete k ps = filter (\<lambda>p. fst p \<noteq> k) ps"

text \<open>The \<open>str ? `${base}?${str}` : base\<close> every URL builder ends with.\<close>

definition with_query :: "string \<Rightarrow> params \<Rightarrow> string" where
  "with_query base ps = (if qs_string ps = [] then base else base @ ''?'' @ qs_string ps)"

subsection \<open>The query string round-trips\<close>

lemma utf8_dec_cont:
  "0 < need \<Longrightarrow> lo \<le> byte b \<Longrightarrow> byte b \<le> hi \<Longrightarrow> utf8_dec need lo hi pend (b # bs) =
    (if need = 1 then pend @ [b] @ utf8_dec 0 0x80 0xBF [] bs
     else utf8_dec (need - 1) 0x80 0xBF (pend @ [b]) bs)"
  by (simp add: utf8_dec.simps(2))

lemma utf8_dec_valid: "utf8 s \<Longrightarrow> utf8_dec 0 0x80 0xBF [] s = s"
proof (induction s rule: utf8.induct)
  case 1
  then show ?case by (simp add: utf8_dec.simps)
next
  case (2 a s)
  show ?case
  proof (cases "byte a < 0x80")
    case True
    with 2 show ?thesis by (simp add: utf8_dec.simps(2)[of 0])
  next
    case big: False
    from 2(5) big obtain b s2 where s: "s = b # s2" by (cases s) auto
    show ?thesis
    proof (cases "utf8_2 a b")
      case True
      then have r: "0xC2 \<le> byte a" "byte a \<le> 0xDF" "0x80 \<le> byte b" "byte b \<le> 0xBF"
        by (auto simp: utf8_2_def cont_def)
      have "utf8_dec 0 0x80 0xBF [] s2 = s2" using 2 big s True by simp
      with r s show ?thesis by (simp add: utf8_dec.simps(2)[of 0] utf8_dec_cont)
    next
      case no2: False
      from 2(5) big s no2 obtain c s3 where s2: "s2 = c # s3" by (cases s2) auto
      show ?thesis
      proof (cases "utf8_3 a b c")
        case True
        then have r: "0xE0 \<le> byte a" "byte a \<le> 0xEF" "lo3 a \<le> byte b" "byte b \<le> hi3 a"
            "0x80 \<le> byte c" "byte c \<le> 0xBF"
          by (auto simp: utf8_3_def cont_def)
        have "utf8_dec 0 0x80 0xBF [] s3 = s3" using 2 big s s2 no2 True by simp
        with r s s2 show ?thesis by (simp add: utf8_dec.simps(2)[of 0] utf8_dec_cont)
      next
        case no3: False
        from 2(5) big s s2 no2 no3 obtain d s4 where s3: "s3 = d # s4" by (cases s3) auto
        from 2(5) big s s2 s3 no2 no3 have u4: "utf8_4 a b c d" and ok: "utf8 s4" by auto
        then have r: "0xF0 \<le> byte a" "byte a \<le> 0xF4" "lo4 a \<le> byte b" "byte b \<le> hi4 a"
            "0x80 \<le> byte c" "byte c \<le> 0xBF" "0x80 \<le> byte d" "byte d \<le> 0xBF"
          by (auto simp: utf8_4_def cont_def)
        have "utf8_dec 0 0x80 0xBF [] s4 = s4" by (rule 2(4)[OF big s no2 s2 no3 s3 ok])
        with r s s2 s3 show ?thesis by (simp add: utf8_dec.simps(2)[of 0] utf8_dec_cont)
      qed
    qed
  qed
qed

lemma pct_dec_pct [simp]: "pct_dec (pct c @ s) = c # pct_dec s"
  by (simp add: pct_def)

lemma form_safe_not: "form_safe c \<Longrightarrow> c \<noteq> CHR ''%'' \<and> c \<noteq> CHR ''+'' \<and> c \<noteq> CHR ''&'' \<and> c \<noteq> CHR ''=''"
  by (auto simp: form_safe_def is_alnum_def)

abbreviation plus_to_space :: "char \<Rightarrow> char" where
  "plus_to_space c \<equiv> (if c = CHR ''+'' then CHR '' '' else c)"

lemma plus_pct: "map plus_to_space (pct c) = pct c"
proof -
  have "x \<noteq> CHR ''+''" if "x \<in> set (pct c)" for x
    using set_pct[OF that] by (auto simp: is_alnum_def)
  then show ?thesis by (intro map_idI) auto
qed

lemma form_enc_decoded: "pct_dec (map plus_to_space (form_enc s)) = s"
proof (induction s)
  case Nil
  then show ?case by (simp add: form_enc_def)
next
  case (Cons c s)
  have step: "form_enc (c # s) =
      (if c = CHR '' '' then ''+'' else if form_safe c then [c] else pct c) @ form_enc s"
    by (simp add: form_enc_def)
  show ?case
  proof (cases "c = CHR '' ''")
    case True
    with Cons step show ?thesis by simp
  next
    case False
    show ?thesis
    proof (cases "form_safe c")
      case True
      with False Cons step form_safe_not[OF True] show ?thesis by simp
    next
      case no: False
      with False Cons step show ?thesis by (simp add: plus_pct del: map_map)
    qed
  qed
qed

lemma form_dec_enc: "utf8 s \<Longrightarrow> form_dec (form_enc s) = s"
  by (simp add: form_dec_def form_enc_decoded utf8_dec_valid)

lemma form_enc_chars: "x \<in> set (form_enc s) \<Longrightarrow> form_safe x \<or> x = CHR ''%'' \<or> x = CHR ''+''"
  by (auto simp: form_enc_def form_safe_def dest!: set_pct split: if_splits)

lemma form_enc_no_sep:
  "CHR ''&'' \<notin> set (form_enc s)" "CHR ''='' \<notin> set (form_enc s)" "CHR ''?'' \<notin> set (form_enc s)"
  using form_enc_chars[of "CHR ''&''" s] form_enc_chars[of "CHR ''=''" s] form_enc_chars[of "CHR ''?''" s]
  by (auto simp: form_safe_def is_alnum_def)

definition utf8_params :: "params \<Rightarrow> bool" where
  "utf8_params ps = (\<forall>(k, v) \<in> set ps. utf8 k \<and> utf8 v)"

lemma utf8_params_simps [simp]:
  "utf8_params []" "utf8_params ((k, v) # ps) = (utf8 k \<and> utf8 v \<and> utf8_params ps)"
  "utf8_params (ps @ qs) = (utf8_params ps \<and> utf8_params qs)"
  by (auto simp: utf8_params_def)

lemma qs_string_pieces:
  assumes "ps \<noteq> []"
  shows "split_on (CHR ''&'') (qs_string ps) = map (\<lambda>(k, v). form_enc k @ ''='' @ form_enc v) ps"
  unfolding qs_string_def using assms form_enc_no_sep
  by (intro split_on_join) auto

lemma join_no_char:
  "c \<notin> set sep \<Longrightarrow> \<forall>x \<in> set xs. c \<notin> set x \<Longrightarrow> c \<notin> set (join sep xs)"
  by (induction sep xs rule: join.induct) auto

lemma qs_string_no_qmark: "CHR ''?'' \<notin> set (qs_string ps)"
  unfolding qs_string_def using form_enc_no_sep by (intro join_no_char) auto

lemma qs_string_empty: "qs_string ps = [] \<longleftrightarrow> ps = []"
proof (cases ps)
  case Nil
  then show ?thesis by (simp add: qs_string_def)
next
  case (Cons p ps')
  then show ?thesis by (cases p; cases ps') (auto simp: qs_string_def)
qed

lemma parse_pair_enc: "utf8 k \<Longrightarrow> utf8 v \<Longrightarrow> parse_pair (form_enc k @ CHR ''='' # form_enc v) = (k, v)"
  by (simp add: parse_pair_def form_enc_no_sep form_dec_enc)

lemma qs_parse_string: "utf8_params ps \<Longrightarrow> qs_parse (qs_string ps) = ps"
proof (cases "ps = []")
  case True
  then show ?thesis by (simp add: qs_string_def qs_parse_def)
next
  case False
  assume ok: "utf8_params ps"
  have strip: "(case qs_string ps of [] \<Rightarrow> [] | c # r \<Rightarrow> if c = CHR ''?'' then r else qs_string ps) = qs_string ps"
    using qs_string_no_qmark[of ps] by (cases "qs_string ps") auto
  have "filter (\<lambda>p. p \<noteq> []) (map (\<lambda>(k, v). form_enc k @ ''='' @ form_enc v) ps)
      = map (\<lambda>(k, v). form_enc k @ ''='' @ form_enc v) ps"
    by (intro filter_True) auto
  moreover have "map parse_pair (map (\<lambda>(k, v). form_enc k @ ''='' @ form_enc v) ps) = ps"
    using ok by (induction ps) (auto simp: parse_pair_enc)
  ultimately show ?thesis
    using False by (simp add: qs_parse_def strip qs_string_pieces)
qed

lemma qs_parse_Nil [simp]: "qs_parse [] = []"
  by (simp add: qs_parse_def)

section \<open>Query parameter operations\<close>

lemma qs_get_simps [js_simps]:
  "qs_get [] k = None" "qs_get ((k', v) # ps) k = (if k = k' then Some v else qs_get ps k)"
  by (auto simp: qs_get_def)

lemma qs_get_set: "qs_get (qs_set k v ps) k' = (if k' = k then Some v else qs_get ps k')"
proof (induction ps)
  case Nil
  then show ?case by (simp add: qs_get_def)
next
  case (Cons p ps)
  have "map_of (filter (\<lambda>q. fst q \<noteq> k) ps) k' = (if k' = k then None else map_of ps k')"
    by (induction ps) auto
  with Cons show ?case by (cases p) (auto simp: qs_get_def)
qed

lemma qs_get_delete: "qs_get (qs_delete k ps) k' = (if k' = k then None else qs_get ps k')"
  by (induction ps) (auto simp: qs_get_def qs_delete_def)

lemma qs_set_fresh: "k \<notin> fst ` set ps \<Longrightarrow> qs_set k v ps = ps @ [(k, v)]"
  by (induction ps) auto

lemma qs_set_keys: "fst ` set (qs_set k v ps) = insert k (fst ` set ps)"
  by (induction ps) auto

lemma utf8_params_set: "utf8_params ps \<Longrightarrow> utf8 k \<Longrightarrow> utf8 v \<Longrightarrow> utf8_params (qs_set k v ps)"
  by (induction ps) (auto simp: utf8_params_def)

lemma utf8_params_delete: "utf8_params ps \<Longrightarrow> utf8_params (qs_delete k ps)"
  by (auto simp: utf8_params_def qs_delete_def)

section \<open>What the components rely on\<close>

locale url_text =
  fixes enc :: "string \<Rightarrow> string"
    and dec :: "string \<Rightarrow> string option"
    and ser :: "params \<Rightarrow> string"
    and parse :: "string \<Rightarrow> params"
    and ok :: "string \<Rightarrow> bool"
  assumes dec_enc: "ok s \<Longrightarrow> dec (enc s) = Some s"
    and enc_safe: "c \<in> set (enc s) \<Longrightarrow> c \<notin> set ''/?#&=''"
    and enc_nonempty: "s \<noteq> [] \<Longrightarrow> enc s \<noteq> []"
    and parse_ser: "(\<forall>(k, v) \<in> set ps. ok k \<and> ok v) \<Longrightarrow> parse (ser ps) = ps"
    and ser_safe: "c \<in> set (ser ps) \<Longrightarrow> c \<notin> set ''?#''"
    and ser_empty: "ser ps = [] \<longleftrightarrow> ps = []"
begin

lemma enc_no: "CHR ''/'' \<notin> set (enc s)" "CHR ''?'' \<notin> set (enc s)" "CHR ''#'' \<notin> set (enc s)"
  using enc_safe[of "CHR ''/''" s] enc_safe[of "CHR ''?''" s] enc_safe[of "CHR ''#''" s] by auto

text \<open>A path that holds no \<open>?\<close> is recovered from a built URL, and so is its query.\<close>

lemma cut_built:
  assumes "CHR ''?'' \<notin> set base"
  shows "cut_at (CHR ''?'') (if ser ps = [] then base else base @ CHR ''?'' # ser ps) =
    (base, if ps = [] then None else Some (ser ps))"
  using assms by (simp add: ser_empty)

lemma query_recovered:
  assumes "CHR ''?'' \<notin> set base" "\<forall>(k, v) \<in> set ps. ok k \<and> ok v" "parse [] = []"
  shows "parse (nullish (snd (cut_at (CHR ''?'') (if ser ps = [] then base else base @ CHR ''?'' # ser ps))) []) = ps"
  using assms by (simp add: cut_built parse_ser)

lemma segment_recovered:
  assumes "ok k"
  shows "dec (fst (cut_at (CHR ''/'') (enc k @ CHR ''/'' # rest))) = Some k"
  using assms by (simp add: enc_no dec_enc)

end

interpretation url: url_text encodeURIComponent decodeURIComponent qs_string qs_parse utf8
proof (unfold_locales, goal_cases)
  case (1 s)
  then show ?case by (rule decode_encode)
next
  case (2 c s)
  then show ?case using encode_chars[of c s] by (auto simp: uri_unreserved_def is_alnum_def)
next
  case (3 s)
  then show ?case by (simp add: encode_empty)
next
  case (4 ps)
  then show ?case by (simp add: qs_parse_string utf8_params_def)
next
  case (5 c ps)
  have "CHR ''#'' \<notin> set (form_enc s)" for s
    using form_enc_chars[of "CHR ''#''" s] by (auto simp: form_safe_def is_alnum_def)
  then have "CHR ''#'' \<notin> set (qs_string ps)"
    unfolding qs_string_def by (intro join_no_char) auto
  with 5 show ?case using qs_string_no_qmark[of ps] by auto
next
  case (6 ps)
  show ?case by (rule qs_string_empty)
qed

lemma cut_with_query:
  assumes "CHR ''?'' \<notin> set base"
  shows "cut_at (CHR ''?'') (with_query base ps) = (base, if ps = [] then None else Some (qs_string ps))"
  using url.cut_built[OF assms, of ps] by (simp only: with_query_def append_Cons append_Nil)

lemma query_with_query:
  assumes "CHR ''?'' \<notin> set base" "utf8_params ps"
  shows "qs_parse (nullish (snd (cut_at (CHR ''?'') (with_query base ps))) []) = ps"
  using assms by (simp add: cut_with_query qs_parse_string)

end
