(* ===== verification/Numbers.thy ===== *)
theory Numbers
  imports Prelude
begin

text \<open>
  Numbers as the language reads them from text: \<open>Number(s)\<close> and \<open>parseInt(s, 10)\<close>
  (ECMA-262).  A finite double is \<open>Fin m e\<close>, the value \<open>m * 2 ^ e\<close>; a literal's exact
  value is rounded to the nearest double, ties to even, with overflow to infinity and
  gradual underflow, so that \<open>9007199254740993\<close> and \<open>1e400\<close> read as they do in a browser.
  The two zeros are one value (no code here tells them apart).
\<close>

datatype jsnum = NaN | Inf bool | Fin int int

fun bits :: "nat \<Rightarrow> nat" where
  "bits n = (if n = 0 then 0 else Suc (bits (n div 2)))"

declare bits.simps [simp del]

definition ge_pow :: "nat \<Rightarrow> nat \<Rightarrow> int \<Rightarrow> bool" where
  "ge_pow n d k = (if 0 \<le> k then d * 2 ^ nat k \<le> n else d \<le> n * 2 ^ nat (- k))"

text \<open>The exponent of the last mantissa bit of the double nearest to \<open>n / d\<close>.\<close>

definition ratio_exp :: "nat \<Rightarrow> nat \<Rightarrow> int" where
  "ratio_exp n d =
     (let k = int (bits n) - int (bits d)
      in max (- 1074) ((if ge_pow n d k then k else k - 1) - 52))"

definition round_half_even :: "nat \<Rightarrow> nat \<Rightarrow> nat" where
  "round_half_even num den =
     (let q = num div den; r = num mod den
      in if den < 2 * r \<or> 2 * r = den \<and> odd q then q + 1 else q)"

definition round_ratio :: "nat \<Rightarrow> nat \<Rightarrow> jsnum" where
  "round_ratio n d =
     (if n = 0 then Fin 0 0
      else
        let e = ratio_exp n d in
        if 0 \<le> e then
          (let q = round_half_even n (d * 2 ^ nat e)
           in if 2 ^ 1024 \<le> q * 2 ^ nat e then Inf False else Fin (int q) e)
        else Fin (int (round_half_even (n * 2 ^ nat (- e)) d)) e)"

fun num_neg :: "jsnum \<Rightarrow> jsnum" where
  "num_neg NaN = NaN"
| "num_neg (Inf s) = Inf (\<not> s)"
| "num_neg (Fin m e) = Fin (- m) e"

text \<open>\<open>Math.trunc\<close> of a finite double.\<close>

definition fin_trunc :: "int \<Rightarrow> int \<Rightarrow> int" where
  "fin_trunc m e = (if 0 \<le> e then m * 2 ^ nat e else sgn m * (\<bar>m\<bar> div 2 ^ nat (- e)))"

definition scale10 :: "nat \<Rightarrow> int \<Rightarrow> jsnum" where
  "scale10 n e = (if 0 \<le> e then round_ratio (n * 10 ^ nat e) 1 else round_ratio n (10 ^ nat (- e)))"

section \<open>\<open>Number\<close> and \<open>parseInt\<close>\<close>

definition span_digits :: "string \<Rightarrow> string \<times> string" where
  "span_digits s = (takeWhile is_digit s, dropWhile is_digit s)"

text \<open>An exponent part: \<open>None\<close> is malformed, no exponent is 0.\<close>

definition read_exponent :: "string \<Rightarrow> int option" where
  "read_exponent s =
     (case s of
        [] \<Rightarrow> Some 0
      | c # r \<Rightarrow>
          if c \<noteq> CHR ''e'' \<and> c \<noteq> CHR ''E'' then None
          else
            (let (neg, ds) =
               (case r of
                  x # r' \<Rightarrow> if x = CHR ''-'' then (True, r') else if x = CHR ''+'' then (False, r') else (False, r)
                | [] \<Rightarrow> (False, r))
             in if ds = [] \<or> (\<exists>x \<in> set ds. \<not> is_digit x) then None
                else Some (if neg then - int (read_digits ds) else int (read_digits ds))))"

text \<open>An unsigned decimal literal: digits, an optional fraction, an optional exponent.\<close>

definition read_decimal :: "string \<Rightarrow> jsnum" where
  "read_decimal s =
     (let (whole, r) = span_digits s;
          (frac, r2) =
            (case r of c # r' \<Rightarrow> if c = CHR ''.'' then span_digits r' else ([], r) | [] \<Rightarrow> ([], r))
      in if whole = [] \<and> frac = [] then (if s = ''Infinity'' then Inf False else NaN)
         else case read_exponent r2 of
           None \<Rightarrow> NaN
         | Some e \<Rightarrow> scale10 (read_digits (whole @ frac)) (e - int (length frac)))"

definition radix_digit :: "char \<Rightarrow> nat" where
  "radix_digit c =
     (if is_digit c then digit_val c
      else if 97 \<le> (of_char c :: nat) \<and> (of_char c :: nat) \<le> 122 then of_char c - 87
      else if 65 \<le> (of_char c :: nat) \<and> (of_char c :: nat) \<le> 90 then of_char c - 55
      else 99)"

definition read_radix :: "nat \<Rightarrow> string \<Rightarrow> jsnum" where
  "read_radix b s =
     (if s = [] \<or> (\<exists>c \<in> set s. b \<le> radix_digit c) then NaN
      else round_ratio (foldl (\<lambda>acc c. b * acc + radix_digit c) 0 s) 1)"

definition read_signed :: "(string \<Rightarrow> jsnum) \<Rightarrow> string \<Rightarrow> jsnum" where
  "read_signed f s =
     (case s of
        c # r \<Rightarrow> if c = CHR ''-'' then num_neg (f r) else if c = CHR ''+'' then f r else f s
      | [] \<Rightarrow> f s)"

definition Number_of :: "string \<Rightarrow> jsnum" where
  "Number_of v =
     (let s = trim v in
      case s of
        [] \<Rightarrow> Fin 0 0
      | [c] \<Rightarrow> read_signed read_decimal s
      | c # x # r \<Rightarrow>
          if c = CHR ''0'' \<and> x \<in> set ''xX'' then read_radix 16 r
          else if c = CHR ''0'' \<and> x \<in> set ''oO'' then read_radix 8 r
          else if c = CHR ''0'' \<and> x \<in> set ''bB'' then read_radix 2 r
          else read_signed read_decimal s)"

definition parseInt10 :: "string \<Rightarrow> jsnum" where
  "parseInt10 v =
     read_signed
       (\<lambda>s. let ds = takeWhile is_digit s in if ds = [] then NaN else round_ratio (read_digits ds) 1)
       (dropWhile is_space v)"

section \<open>Integers below \<open>2 ^ 53\<close> are read exactly\<close>

lemma bits_le: "n < 2 ^ k \<Longrightarrow> bits n \<le> k"
proof (induction n arbitrary: k rule: bits.induct)
  case (1 n)
  show ?case
  proof (cases "n = 0")
    case True
    then show ?thesis by (simp add: bits.simps[of 0])
  next
    case False
    with 1(2) obtain k' where k: "k = Suc k'" by (cases k) auto
    with 1(2) have "n div 2 < 2 ^ k'" by auto
    with 1(1) False k show ?thesis by (simp add: bits.simps[of n])
  qed
qed

lemma bits_1 [simp]: "bits 1 = 1" "bits (Suc 0) = 1"
  by (simp_all add: bits.simps)

lemma round_half_even_1 [simp]: "round_half_even n (Suc 0) = n"
  by (simp add: round_half_even_def)

lemma ratio_exp_small: "n < 2 ^ 53 \<Longrightarrow> ratio_exp n 1 \<le> 0"
  using bits_le[of n 53] by (simp add: ratio_exp_def Let_def)

lemma round_ratio_exact:
  assumes "n < 2 ^ 53"
  shows "\<exists>e \<le> 0. round_ratio n 1 = Fin (int n * 2 ^ nat (- e)) e"
proof (cases "n = 0")
  case True
  then show ?thesis by (auto simp: round_ratio_def)
next
  case False
  have le: "ratio_exp n 1 \<le> 0" by (rule ratio_exp_small[OF assms])
  show ?thesis
  proof (cases "ratio_exp n 1 = 0")
    case True
    have "\<not> 2 ^ 1024 \<le> n"
      using assms power_strict_increasing[of 53 1024 "2::nat"] by linarith
    with True False have "round_ratio n 1 = Fin (int n) 0"
      by (simp add: round_ratio_def del: One_nat_def) simp
    then show ?thesis by (intro exI[of _ 0]) simp
  next
    case neg: False
    with le False have "round_ratio n 1 = Fin (int (n * 2 ^ nat (- ratio_exp n 1))) (ratio_exp n 1)"
      by (simp add: round_ratio_def Let_def)
    with le show ?thesis by auto
  qed
qed

lemma fin_trunc_exact: "e \<le> 0 \<Longrightarrow> fin_trunc (int n * 2 ^ nat (- e)) e = int n"
  by (cases "n = 0") (auto simp: fin_trunc_def sgn_mult abs_mult)

lemma takeWhile_show_nat [simp]:
  "takeWhile is_digit (show_nat n) = show_nat n" "dropWhile is_digit (show_nat n) = []"
  using show_nat_digits[of n] by auto

lemma digit_not_space: "is_digit c \<Longrightarrow> \<not> is_space c"
  by (auto simp: is_digit_def is_space_def)

lemma show_nat_hd: "\<exists>c s. show_nat n = c # s \<and> is_digit c"
  using show_nat_digits[of n] show_nat_nonempty[of n] by (cases "show_nat n") auto

lemma trim_digits: "\<forall>c \<in> set s. \<not> is_space c \<Longrightarrow> trim s = s"
proof -
  assume a: "\<forall>c \<in> set s. \<not> is_space c"
  then have "dropWhile is_space s = s" "dropWhile is_space (rev s) = rev s"
    by (metis dropWhile_eq_self_iff hd_in_set, metis dropWhile_eq_self_iff hd_in_set set_rev)
  then show ?thesis by (simp add: trim_def)
qed

lemma trim_show_nat [simp]: "trim (show_nat n) = show_nat n"
  using show_nat_digits[of n] digit_not_space by (intro trim_digits) blast

lemma read_signed_show_nat: "read_signed f (show_nat n) = f (show_nat n)"
  using show_nat_hd[of n] by (auto simp: read_signed_def is_digit_def)

lemma parseInt10_show_nat: "parseInt10 (show_nat n) = round_ratio n 1"
proof -
  have "dropWhile is_space (show_nat n) = show_nat n"
    using show_nat_hd[of n] digit_not_space by auto
  then show ?thesis by (simp add: parseInt10_def read_signed_show_nat Let_def)
qed

lemma read_decimal_show_nat: "read_decimal (show_nat n) = round_ratio n 1"
  by (simp add: read_decimal_def span_digits_def read_exponent_def scale10_def)

lemma Number_of_show_nat: "Number_of (show_nat n) = round_ratio n 1"
proof -
  obtain c s where s: "show_nat n = c # s" and c: "is_digit c" using show_nat_hd by blast
  have "x \<notin> set ''xX''" "x \<notin> set ''oO''" "x \<notin> set ''bB''" if "x \<in> set s" for x
    using show_nat_digits[of n] s that by (auto simp: is_digit_def)
  then have "Number_of (show_nat n) = read_signed read_decimal (show_nat n)"
    unfolding Number_of_def Let_def trim_show_nat using s by (cases s) auto
  then show ?thesis by (simp add: read_signed_show_nat read_decimal_show_nat)
qed

section \<open>Quotients and rounding\<close>

text \<open>\<open>a / b\<close> and \<open>(a / b) * 100\<close> on non-negative integers, and \<open>Math.round\<close>.\<close>

definition num_div :: "nat \<Rightarrow> nat \<Rightarrow> jsnum" where
  "num_div a b = round_ratio a b"

definition num_scale :: "nat \<Rightarrow> jsnum \<Rightarrow> jsnum" where
  "num_scale k x =
     (case x of
        Fin m e \<Rightarrow>
          if 0 \<le> e then round_ratio (k * nat m * 2 ^ nat e) 1 else round_ratio (k * nat m) (2 ^ nat (- e))
      | _ \<Rightarrow> x)"

definition js_round :: "jsnum \<Rightarrow> int" where
  "js_round x =
     (case x of
        Fin m e \<Rightarrow> if 0 \<le> e then m * 2 ^ nat e else (2 * m + 2 ^ nat (- e)) div (2 * 2 ^ nat (- e))
      | _ \<Rightarrow> 0)"

text \<open>\<open><\<close>, \<open>===\<close> and \<open><=\<close>: nothing is equal to or below \<open>NaN\<close>.\<close>

definition num_less :: "jsnum \<Rightarrow> jsnum \<Rightarrow> bool" where
  "num_less x y =
     (case (x, y) of
        (Fin m e, Fin m' e') \<Rightarrow> m * 2 ^ nat (e - min e e') < m' * 2 ^ nat (e' - min e e')
      | (Fin _ _, Inf neg) \<Rightarrow> \<not> neg
      | (Inf neg, Fin _ _) \<Rightarrow> neg
      | (Inf neg, Inf neg') \<Rightarrow> neg \<and> \<not> neg'
      | _ \<Rightarrow> False)"

definition num_eq :: "jsnum \<Rightarrow> jsnum \<Rightarrow> bool" where
  "num_eq x y \<longleftrightarrow> x \<noteq> NaN \<and> y \<noteq> NaN \<and> \<not> num_less x y \<and> \<not> num_less y x"

definition num_le :: "jsnum \<Rightarrow> jsnum \<Rightarrow> bool" where
  "num_le x y \<longleftrightarrow> num_less x y \<or> num_eq x y"

text \<open>\<open>Math.min\<close> of two numbers that are not \<open>NaN\<close>.\<close>

definition num_min :: "jsnum \<Rightarrow> jsnum \<Rightarrow> jsnum" where
  "num_min x y = (if num_less y x then y else x)"

text \<open>\<open>Math.round((part / whole) * 100)\<close> for a positive whole.\<close>

definition percent_of :: "nat \<Rightarrow> nat \<Rightarrow> int" where
  "percent_of part whole = js_round (num_scale 100 (num_div part whole))"

lemma bits_lower: "0 < n \<Longrightarrow> 2 ^ (bits n - 1) \<le> n"
proof (induction n rule: bits.induct)
  case (1 n)
  show ?case
  proof (cases "n div 2 = 0")
    case True
    with 1(2) have "bits n = 1" by (simp add: bits.simps[of n] bits.simps[of 0])
    with 1(2) show ?thesis by simp
  next
    case False
    then have "2 ^ (bits (n div 2) - 1) \<le> n div 2" using 1 by simp
    moreover have "bits n = Suc (bits (n div 2))" using 1(2) by (simp add: bits.simps[of n])
    moreover have "bits (n div 2) = Suc (bits (n div 2) - 1)"
      using False by (simp add: bits.simps[of "n div 2"])
    ultimately show ?thesis by (metis (no_types) diff_Suc_1 div_mult_mod_eq le_add1 mult.commute mult_le_mono2 order_trans power_Suc)
  qed
qed

lemma bits_upper: "n < 2 ^ bits n"
proof (induction n rule: bits.induct)
  case (1 n)
  then show ?case by (cases "n = 0") (auto simp: bits.simps[of n])
qed

text \<open>A ratio of at most \<open>2 ^ 51\<close> has a mantissa bit below one.\<close>

lemma ratio_exp_neg:
  assumes "0 < n" "0 < d" "n \<le> K * d" "K < 2 ^ 51"
  shows "ratio_exp n d < 0"
proof (rule ccontr)
  assume "\<not> ratio_exp n d < 0"
  then have e: "0 \<le> ratio_exp n d" by simp
  define k where "k = int (bits n) - int (bits d)"
  have "52 \<le> k" using e unfolding ratio_exp_def Let_def k_def[symmetric] by (simp add: max_def split: if_splits)
  then have kk: "bits n = bits d + nat k" "52 \<le> nat k" unfolding k_def by linarith+
  have "d * 2 ^ 51 < 2 ^ (bits d + 51)" using bits_upper[of d] by (simp add: power_add)
  also have "\<dots> \<le> 2 ^ (bits n - 1)" using kk by (intro power_increasing) auto
  also have "\<dots> \<le> n" by (rule bits_lower[OF assms(1)])
  also have "\<dots> \<le> K * d" by (rule assms(3))
  also have "\<dots> \<le> 2 ^ 51 * d" using assms(4) by (intro mult_right_mono) auto
  finally show False by (simp add: mult.commute)
qed

lemma round_half_even_le:
  assumes "0 < den" "num \<le> K * den"
  shows "round_half_even num den \<le> K"
proof -
  have q: "num div den \<le> K" using assms by (metis div_le_mono div_mult_self_is_m)
  show ?thesis
  proof (cases "num div den = K")
    case True
    then have "num = K * den" using assms by (metis div_mult_mod_eq le_add1 le_antisym)
    then show ?thesis using assms by (simp add: round_half_even_def)
  next
    case False
    with q show ?thesis by (simp add: round_half_even_def Let_def)
  qed
qed

text \<open>Rounding a quotient of at most \<open>K\<close> gives a double of at most \<open>K\<close>.\<close>

lemma round_ratio_le:
  assumes "0 < d" "n \<le> K * d" "K < 2 ^ 51"
  shows "\<exists>m e. round_ratio n d = Fin (int m) e \<and> e \<le> 0 \<and> m \<le> K * 2 ^ nat (- e)"
proof (cases "n = 0")
  case True
  then show ?thesis by (intro exI[of _ 0]) (simp add: round_ratio_def)
next
  case False
  then have e: "ratio_exp n d < 0" using ratio_exp_neg[of n d K] assms by simp
  let ?p = "2 ^ nat (- ratio_exp n d) :: nat"
  have "n * ?p \<le> (K * ?p) * d" using assms(2) by (simp add: mult.assoc mult.commute mult.left_commute)
  then have "round_half_even (n * ?p) d \<le> K * ?p" by (rule round_half_even_le[OF assms(1)])
  with e False show ?thesis
    by (intro exI[of _ "round_half_even (n * ?p) d"] exI[of _ "ratio_exp n d"]) (simp add: round_ratio_def Let_def)
qed

lemma js_round_le:
  assumes "e \<le> 0" "m \<le> K * 2 ^ nat (- e)"
  shows "0 \<le> js_round (Fin (int m) e) \<and> js_round (Fin (int m) e) \<le> int K"
proof (cases "e = 0")
  case True
  with assms show ?thesis by (simp add: js_round_def)
next
  case False
  let ?p = "2 ^ nat (- e) :: int"
  have p: "0 < ?p" by simp
  have "int m \<le> int K * ?p" using assms(2) by (metis of_nat_le_iff of_nat_mult of_nat_numeral of_nat_power)
  moreover have "(int K + 1) * (2 * ?p) = 2 * (int K * ?p) + 2 * ?p" by (simp add: algebra_simps)
  ultimately have "2 * int m + ?p < (int K + 1) * (2 * ?p)" using p by linarith
  moreover have "(2 * int m + ?p) div (2 * ?p) * (2 * ?p) \<le> 2 * int m + ?p"
    using p by (metis div_mult_mod_eq le_add_same_cancel1 pos_mod_sign mult_pos_pos zero_less_numeral)
  ultimately have "(2 * int m + ?p) div (2 * ?p) * (2 * ?p) < (int K + 1) * (2 * ?p)" by linarith
  then have "(2 * int m + ?p) div (2 * ?p) < int K + 1" using p by (simp only: mult_less_cancel_right)
  moreover have "0 \<le> (2 * int m + ?p) div (2 * ?p)" by (simp add: pos_imp_zdiv_nonneg_iff)
  ultimately show ?thesis using False assms(1) by (simp add: js_round_def)
qed

lemma percent_bounds:
  assumes "0 < whole" "part \<le> whole"
  shows "0 \<le> percent_of part whole \<and> percent_of part whole \<le> 100"
proof -
  have "part \<le> 1 * whole" using assms by simp
  then obtain m e where r: "round_ratio part whole = Fin (int m) e" "e \<le> 0" "m \<le> 1 * 2 ^ nat (- e)"
    using round_ratio_le[OF assms(1)] by fastforce
  have "100 * m \<le> 100 * 2 ^ nat (- e)" using r(3) by simp
  then have "\<exists>m' e'. round_ratio (100 * m) (2 ^ nat (- e)) = Fin (int m') e' \<and> e' \<le> 0 \<and> m' \<le> 100 * 2 ^ nat (- e')"
    by (rule round_ratio_le[rotated]) simp_all
  then obtain m' e' where s: "round_ratio (100 * m) (2 ^ nat (- e)) = Fin (int m') e'" "e' \<le> 0" "m' \<le> 100 * 2 ^ nat (- e')"
    by blast
  have "num_scale 100 (num_div part whole) = Fin (int m') e'"
    using r s by (cases "e = 0") (simp_all add: num_scale_def num_div_def)
  then show ?thesis using js_round_le[OF s(2,3)] by (simp add: percent_of_def)
qed

end
