(* ===== verification/Paging.thy ===== *)
theory Paging
  imports Uri Numbers
begin

text \<open>
  Paged lists (\<open>lib/paging.ts\<close>, \<open>lib/hashQuery.svelte.ts\<close>): what a page shows, the
  offsets its controls lead to, the page a client-held list answers, and the query
  string that keeps page and filters in the URL.

  Counts and offsets are integers (the wire schema has no other).  A value of a patch is
  a string, a whole number, or absent (\<open>null\<close> and \<open>undefined\<close> behave alike); \<open>String(n)\<close>
  is decimal for the numbers that occur (below \<open>10 ^ 21\<close>).
\<close>

section \<open>Data\<close>

record page_wire =
  pw_total :: int
  pw_offset :: int
  pw_limit :: int

record page_view =
  pv_from :: int
  pv_to :: int
  pv_total :: int
  pv_limit :: int
  pv_page :: int
  pv_pages :: int
  pv_first :: "int option"
  pv_prev :: "int option"
  pv_next :: "int option"
  pv_last :: "int option"

datatype pval = PStr string | PNum int | PNone

section \<open>Pages\<close>

text \<open>\<open>Math.ceil(a / b)\<close> for a positive \<open>b\<close>.\<close>

definition ceil_div :: "int \<Rightarrow> int \<Rightarrow> int" where
  "ceil_div a b = - ((- a) div b)"

definition pageView :: "page_wire option \<Rightarrow> page_view" where
  "pageView p =
     (let total = max 0 (case p of Some w \<Rightarrow> pw_total w | None \<Rightarrow> 0);
          limit = max 1 (case p of Some w \<Rightarrow> pw_limit w | None \<Rightarrow> 1);
          offset = max 0 (case p of Some w \<Rightarrow> pw_offset w | None \<Rightarrow> 0);
          pages = max 1 (ceil_div total limit);
          page = min pages (offset div limit + 1);
          lastOffset = (pages - 1) * limit
      in \<lparr> pv_from = (if total = 0 then 0 else offset + 1),
           pv_to = min (offset + limit) total,
           pv_total = total, pv_limit = limit, pv_page = page, pv_pages = pages,
           pv_first = (if 0 < offset then Some 0 else None),
           pv_prev = (if 0 < offset then Some (min lastOffset (max 0 (offset - limit))) else None),
           pv_next = (if offset + limit < total then Some (offset + limit) else None),
           pv_last = (if offset \<noteq> lastOffset then Some lastOffset else None) \<rparr>)"

definition pastEnd :: "page_wire option \<Rightarrow> int \<Rightarrow> bool" where
  "pastEnd p rows =
     (case p of None \<Rightarrow> False | Some w \<Rightarrow> 0 < pw_total w \<and> rows = 0 \<and> 0 < pw_offset w)"

text \<open>\<open>n\<close> is what the page field holds: \<open>None\<close> for NaN, otherwise its truncation.\<close>

definition offsetOfPage :: "int option \<Rightarrow> int \<Rightarrow> int \<Rightarrow> int" where
  "offsetOfPage n pages limit =
     (let t = (case n of None \<Rightarrow> 1 | Some i \<Rightarrow> if i = 0 then 1 else i);
          page = min (max 1 t) (max 1 pages)
      in (page - 1) * limit)"

definition pageSizes :: "int \<Rightarrow> int list \<Rightarrow> int list" where
  "pageSizes limit sizes = sort (filter (\<lambda>n. 0 < n) (uniq (sizes @ [limit])))"

definition urlInt :: "pval \<Rightarrow> int" where
  "urlInt v =
     (case v of
        PNone \<Rightarrow> 0
      | PNum n \<Rightarrow> if 0 < n then n else 0
      | PStr s \<Rightarrow>
          (case Number_of s of
             Fin m e \<Rightarrow> let n = fin_trunc m e in if 0 < n then n else 0
           | _ \<Rightarrow> 0))"

text \<open>What a patch value writes: \<open>None\<close> for the values that stay out of the URL.\<close>

definition pval_string :: "pval \<Rightarrow> string option" where
  "pval_string v =
     (case v of
        PNone \<Rightarrow> None
      | PStr s \<Rightarrow> if s = [] then None else Some s
      | PNum n \<Rightarrow> if n = 0 then None else Some (show_int n))"

definition pagedHash :: "string \<Rightarrow> (string \<times> pval) list \<Rightarrow> string" where
  "pagedHash path params =
     with_query path
       (foldl (\<lambda>qs (k, v). case pval_string v of Some s \<Rightarrow> qs_set k s qs | None \<Rightarrow> qs) [] params)"

definition limitParam :: "int \<Rightarrow> pval \<Rightarrow> int \<Rightarrow> int option" where
  "limitParam wanted urlLimit defaultLimit =
     (if urlInt urlLimit \<noteq> 0 \<or> wanted \<noteq> defaultLimit then Some wanted else None)"

definition home_path :: "string \<Rightarrow> string" where
  "home_path p = (if p = [] \<or> p = ''#'' then ''#/'' else p)"

definition patch_step :: "params \<Rightarrow> string \<times> pval \<Rightarrow> params" where
  "patch_step qs kv =
     (case pval_string (snd kv) of
        Some s \<Rightarrow> qs_set (fst kv) s qs
      | None \<Rightarrow> qs_delete (fst kv) qs)"

definition hash_query :: "string \<Rightarrow> params" where
  "hash_query hash = qs_parse (nullish (snd (cut_at (CHR ''?'') hash)) [])"

definition hashWith :: "string \<Rightarrow> (string \<times> pval) list \<Rightarrow> string" where
  "hashWith hash patch =
     with_query (home_path (fst (cut_at (CHR ''?'') hash)))
       (foldl patch_step (hash_query hash) patch)"

definition clientPage :: "'a list \<Rightarrow> int \<Rightarrow> int \<Rightarrow> 'a list \<times> page_wire" where
  "clientPage all offset limit =
     (let size = max 1 limit;
          lastOffset = max 0 (ceil_div (int (length all)) size - 1) * size;
          start = min (max 0 offset) lastOffset
      in (slice (nat start) (nat (start + size)) all,
          \<lparr> pw_total = int (length all), pw_offset = start, pw_limit = size \<rparr>))"

section \<open>The current hash as list state\<close>

definition hashParam :: "string \<Rightarrow> string \<Rightarrow> string" where
  "hashParam current key =
     (case snd (cut_at (CHR ''?'') current) of
        None \<Rightarrow> []
      | Some q \<Rightarrow> nullish (qs_get (qs_parse q) key) [])"

definition listState :: "string \<Rightarrow> int \<Rightarrow> string \<Rightarrow> int \<times> int \<times> (int \<Rightarrow> int \<Rightarrow> string)" where
  "listState current defaultLimit pfx =
     (let offset = urlInt (PStr (hashParam current (pfx @ ''offset'')));
          l = urlInt (PStr (hashParam current (pfx @ ''limit'')));
          limit = (if l = 0 then defaultLimit else l);
          href = (\<lambda>o' l'. hashWith current
                   [(pfx @ ''offset'', PNum o'),
                    (pfx @ ''limit'', if l' = defaultLimit then PNone else PNum l')])
      in (offset, limit, href))"

definition setHashParams :: "string \<Rightarrow> (string \<times> pval) list \<Rightarrow> string" where
  "setHashParams location patch = hashWith location patch"

section \<open>Page arithmetic\<close>

lemma ceil_div_bounds:
  assumes "0 < b"
  shows "a \<le> ceil_div a b * b" "ceil_div a b * b < a + b"
proof -
  have m: "(- a) mod b = - a - (- a) div b * b" by (simp add: minus_div_mult_eq_mod)
  have "0 \<le> (- a) mod b" "(- a) mod b < b" using assms by simp_all
  with m show "a \<le> ceil_div a b * b" "ceil_div a b * b < a + b" by (simp_all add: ceil_div_def)
qed

lemma ceil_div_nonneg: "0 \<le> a \<Longrightarrow> 0 < b \<Longrightarrow> 0 \<le> ceil_div a b"
  by (simp add: ceil_div_def div_nonpos_pos_le0)

lemma ceil_div_pos: "0 < a \<Longrightarrow> 0 < b \<Longrightarrow> 1 \<le> ceil_div a b"
  using ceil_div_bounds(1)[of b a] by (smt (verit) mult_nonpos_nonneg)

text \<open>The last page of a non-empty list is never empty, and it reaches the end.\<close>

lemma last_offset:
  assumes "0 < tot" "0 < limit"
  shows "(ceil_div tot limit - 1) * limit < tot" "tot \<le> (ceil_div tot limit - 1) * limit + limit"
  using ceil_div_bounds[of limit tot] assms by (auto simp: algebra_simps)

lemma page_view_last:
  assumes "pageView p = v" "0 < pv_total v"
  shows "(pv_pages v - 1) * pv_limit v < pv_total v"
proof -
  have l: "1 \<le> pv_limit v" using assms(1) by (auto simp: pageView_def Let_def)
  have "pv_pages v = max 1 (ceil_div (pv_total v) (pv_limit v))"
    using assms(1) by (auto simp: pageView_def Let_def)
  with l assms(2) ceil_div_pos[of "pv_total v" "pv_limit v"] show ?thesis
    using last_offset(1)[of "pv_total v" "pv_limit v"] by (simp add: max_def)
qed

section \<open>Query patches\<close>

lemma patch_step_get:
  "qs_get (patch_step qs (k, v)) k' = (if k' = k then pval_string v else qs_get qs k')"
  by (auto simp: patch_step_def qs_get_set qs_get_delete split: option.splits)

lemma patch_get:
  assumes "distinct (map fst patch)"
  shows "qs_get (foldl patch_step qs patch) k =
    (case map_of patch k of Some v \<Rightarrow> pval_string v | None \<Rightarrow> qs_get qs k)"
  using assms
proof (induction patch arbitrary: qs)
  case Nil
  then show ?case by simp
next
  case (Cons kv patch)
  obtain k0 v0 where kv: "kv = (k0, v0)" by (cases kv)
  with Cons.prems have fresh: "map_of patch k0 = None" by (simp add: map_of_eq_None_iff)
  show ?case
    using Cons.IH[of "patch_step qs kv"] Cons.prems fresh kv
    by (auto simp: patch_step_get split: option.splits)
qed

definition utf8_patch :: "(string \<times> pval) list \<Rightarrow> bool" where
  "utf8_patch patch = (\<forall>(k, v) \<in> set patch. utf8 k \<and> (case v of PStr s \<Rightarrow> utf8 s | _ \<Rightarrow> True))"

lemma utf8_show_nat: "utf8 (show_nat n)"
  using show_nat_digits[of n] by (intro utf8_ascii) (auto simp: is_digit_def)

lemma utf8_show_int: "utf8 (show_int n)"
  using utf8_show_nat by (simp add: show_int_def)

lemma utf8_pval: "(case v of PStr s \<Rightarrow> utf8 s | _ \<Rightarrow> True) \<Longrightarrow> pval_string v = Some s \<Longrightarrow> utf8 s"
  by (auto simp: pval_string_def utf8_show_int split: pval.splits if_splits)

lemma utf8_patched:
  "utf8_params qs \<Longrightarrow> utf8_patch patch \<Longrightarrow> utf8_params (foldl patch_step qs patch)"
proof (induction patch arbitrary: qs)
  case Nil
  then show ?case by simp
next
  case (Cons kv patch)
  have "utf8_params (patch_step qs kv)"
    using Cons.prems utf8_pval[of "snd kv"]
    by (auto simp: patch_step_def utf8_patch_def utf8_params_set utf8_params_delete split: option.splits)
  moreover have "utf8_patch patch" using Cons.prems(2) by (simp add: utf8_patch_def)
  ultimately show ?case using Cons.IH by simp
qed

lemma home_path_no_q: "CHR ''?'' \<notin> set (home_path (fst (cut_at (CHR ''?'') h)))"
proof -
  obtain a b where ab: "cut_at (CHR ''?'') h = (a, b)" by (cases "cut_at (CHR ''?'') h")
  have "CHR ''?'' \<notin> set a"
    using ab cut_at_Some[of "CHR ''?''" h a] cut_at_None[of "CHR ''?''" h a] by (cases b) auto
  then show ?thesis using ab by (auto simp: home_path_def)
qed

lemma hash_query_hashWith:
  assumes "utf8_params (hash_query h)" "utf8_patch patch"
  shows "hash_query (hashWith h patch) = foldl patch_step (hash_query h) patch"
  unfolding hashWith_def hash_query_def[of "with_query _ _"]
  using assms by (intro query_with_query home_path_no_q utf8_patched)

lemma urlInt_show_nat:
  assumes "n < 2 ^ 53"
  shows "urlInt (PStr (show_nat n)) = int n"
proof -
  obtain e where "e \<le> 0" "round_ratio n 1 = Fin (int n * 2 ^ nat (- e)) e"
    using round_ratio_exact[OF assms] by blast
  then show ?thesis by (simp add: urlInt_def Number_of_show_nat fin_trunc_exact)
qed

lemma hashParam_query: "hashParam h k = nullish (qs_get (hash_query h) k) []"
  by (simp add: hashParam_def hash_query_def qs_get_def split: option.splits)

section \<open>Properties\<close>

definition offered :: "page_view \<Rightarrow> int set" where
  "offered v = set_option (pv_first v) \<union> set_option (pv_prev v) \<union> set_option (pv_next v) \<union> set_option (pv_last v)"

text \<open>C31: Every control of a page leads to a row that exists: whatever the server or the URL
  said (a negative, missing or stale offset included), the page number shown lies in
  \<open>1..pages\<close>, and every offset First, Previous, Next and Last carry is non-negative and, when
  the list has rows at all, smaller than their number.\<close>

theorem pageView_controls:
  assumes "pageView p = v"
  shows "1 \<le> pv_page v \<and> pv_page v \<le> pv_pages v \<and>
    (\<forall>o' \<in> offered v. 0 \<le> o' \<and> (0 < pv_total v \<longrightarrow> o' < pv_total v))"
proof -
  have v: "v = pageView p" using assms by simp
  define limit where "limit = pv_limit v"
  define offset where "offset = max 0 (case p of Some w \<Rightarrow> pw_offset w | None \<Rightarrow> 0)"
  define L where "L = (pv_pages v - 1) * limit"
  have l: "1 \<le> limit" by (simp add: v pageView_def Let_def limit_def)
  have lastlt: "0 < pv_total v \<Longrightarrow> L < pv_total v"
    unfolding L_def limit_def by (rule page_view_last[OF assms])
  have pages: "1 \<le> pv_pages v" by (simp add: v pageView_def Let_def)
  then have last0: "0 \<le> L" using l by (simp add: L_def)
  have off: "0 \<le> offset" by (simp add: offset_def)
  have page: "pv_page v = min (pv_pages v) (offset div limit + 1)"
    by (simp add: v pageView_def Let_def offset_def limit_def)
  have d: "0 \<le> offset div limit" using off l by (simp add: pos_imp_zdiv_nonneg_iff)
  have ctl: "pv_first v = (if 0 < offset then Some 0 else None)"
      "pv_prev v = (if 0 < offset then Some (min L (max 0 (offset - limit))) else None)"
      "pv_next v = (if offset + limit < pv_total v then Some (offset + limit) else None)"
      "pv_last v = (if offset \<noteq> L then Some L else None)"
    unfolding v pageView_def Let_def offset_def limit_def L_def page_view.simps by (rule refl)+
  have "\<forall>o' \<in> offered v. 0 \<le> o' \<and> (0 < pv_total v \<longrightarrow> o' < pv_total v)"
    unfolding offered_def ctl using last0 lastlt off l by auto
  then show ?thesis using page pages d by simp
qed

theorem pageView_controls_witness:
  "25 \<in> offered (pageView (Some \<lparr> pw_total = 47, pw_offset = 900, pw_limit = 25 \<rparr>)) \<and>
   25 < pv_total (pageView (Some \<lparr> pw_total = 47, pw_offset = 900, pw_limit = 25 \<rparr>))"
proof -
  have m: "25 \<in> offered (pageView (Some \<lparr> pw_total = 47, pw_offset = 900, pw_limit = 25 \<rparr>))"
    by (simp add: offered_def pageView_def Let_def ceil_div_def)
  moreover have "0 < pv_total (pageView (Some \<lparr> pw_total = 47, pw_offset = 900, pw_limit = 25 \<rparr>))"
    by (simp add: pageView_def Let_def)
  ultimately show ?thesis using pageView_controls[OF refl] by blast
qed

lemma slices_concat: "concat (map (\<lambda>i. slice (i * n) (i * n + n) xs) [0..<k]) = take (k * n) xs"
proof (induction k)
  case (Suc k)
  have "take (k * n + n) xs = take (k * n) xs @ take n (drop (k * n) xs)" by (rule take_add)
  with Suc show ?case by (simp add: slice_def add.commute)
qed simp

lemma clientPage_items:
  assumes "0 < n" "i < k" "k = nat (ceil_div (int (length all)) (int n))"
  shows "fst (clientPage all (int (i * n)) (int n)) = slice (i * n) (i * n + n) all"
proof -
  have k: "int k = ceil_div (int (length all)) (int n)"
    using assms ceil_div_nonneg[of "int (length all)" "int n"] by simp
  have "int i * int n \<le> (int k - 1) * int n" using assms(2) by (intro mult_right_mono) auto
  moreover have "max 1 (int n) = int n" "max 0 (int k - 1) = int k - 1" using assms by auto
  ultimately have "min (max 0 (int (i * n))) (max 0 (int k - 1) * int n) = int (i * n)" by simp
  then show ?thesis
    unfolding clientPage_def Let_def k[symmetric] \<open>max 1 (int n) = int n\<close>
    by (simp add: nat_add_distrib nat_mult_distrib)
qed

lemma clientPage_pages:
  assumes "0 < n" "k = nat (ceil_div (int (length all)) (int n))"
  shows "concat (map (\<lambda>i. fst (clientPage all (int (i * n)) (int n))) [0..<k]) = all"
    and "i < k \<Longrightarrow> fst (clientPage all (int (i * n)) (int n)) \<noteq> []"
    and "int (length all) \<le> off \<Longrightarrow> all \<noteq> [] \<Longrightarrow>
      clientPage all off (int n) = clientPage all (int ((k - 1) * n)) (int n)"
proof -
  have k: "int k = ceil_div (int (length all)) (int n)"
    using assms ceil_div_nonneg[of "int (length all)" "int n"] by simp
  have bnd: "int (length all) \<le> int k * int n" "int k * int n < int (length all) + int n"
    using ceil_div_bounds[of "int n" "int (length all)"] assms(1) k by simp_all
  have "map (\<lambda>i. fst (clientPage all (int (i * n)) (int n))) [0..<k]
      = map (\<lambda>i. slice (i * n) (i * n + n) all) [0..<k]"
    using clientPage_items[OF assms(1) _ assms(2)] by (intro map_cong) auto
  moreover have "length all \<le> k * n" using bnd(1) by (metis of_nat_le_iff of_nat_mult)
  ultimately show "concat (map (\<lambda>i. fst (clientPage all (int (i * n)) (int n))) [0..<k]) = all"
    by (simp only: slices_concat take_all)
  show "fst (clientPage all (int (i * n)) (int n)) \<noteq> []" if "i < k"
  proof -
    have "int i * int n \<le> (int k - 1) * int n" using that by (intro mult_right_mono) auto
    with bnd(2) have "int (i * n) < int (length all)" by (simp add: algebra_simps)
    then have "i * n < length all" by (simp only: of_nat_less_iff)
    then have "slice (i * n) (i * n + n) all \<noteq> []" using assms(1) by (simp add: slice_def)
    then show ?thesis using clientPage_items[OF assms(1) that assms(2)] by simp
  qed
  show "clientPage all off (int n) = clientPage all (int ((k - 1) * n)) (int n)"
    if "int (length all) \<le> off" "all \<noteq> []"
  proof -
    have "1 \<le> k" using that(2) bnd(1) by (cases k) auto
    then have e: "int ((k - 1) * n) = (int k - 1) * int n" by (simp add: of_nat_diff)
    have lt: "(int k - 1) * int n < int (length all)" using bnd(2) by (simp add: algebra_simps)
    have m: "max 0 (int k - 1) = int k - 1" "max 1 (int n) = int n" using \<open>1 \<le> k\<close> assms(1) by auto
    have "0 \<le> (int k - 1) * int n" using \<open>1 \<le> k\<close> by simp
    then have st: "min (max 0 off) ((int k - 1) * int n) = (int k - 1) * int n"
      "min (max 0 ((int k - 1) * int n)) ((int k - 1) * int n) = (int k - 1) * int n"
      using lt that(1) by auto
    show ?thesis unfolding clientPage_def Let_def e m k[symmetric] st ..
  qed
qed

text \<open>C32: The pages of a client-held list are a partition of it: with a page size of at least
  one, the pages at offsets \<open>0, n, 2n, \<dots>\<close> up to the page count \<open>pageView\<close> announces, put
  one after the other, are exactly the list; none of them is empty, and an offset past the
  end answers the last of them.\<close>


theorem clientPage_partition:
  assumes "0 < n" "k = nat (ceil_div (int (length all)) (int n))"
  shows "concat (map (\<lambda>i. fst (clientPage all (int (i * n)) (int n))) [0..<k]) = all \<and>
    (\<forall>i < k. fst (clientPage all (int (i * n)) (int n)) \<noteq> []) \<and>
    (\<forall>off \<ge> int (length all). all \<noteq> [] \<longrightarrow>
      clientPage all off (int n) = clientPage all (int ((k - 1) * n)) (int n))"
  using clientPage_pages[OF assms] by blast

theorem clientPage_partition_witness:
  "concat (map (\<lambda>i. fst (clientPage [10::nat, 20, 30, 40, 50] (int (i * 2)) 2)) [0..<3]) = [10, 20, 30, 40, 50]"
  using clientPage_partition[of 2 3 "[10::nat, 20, 30, 40, 50]"] by (simp add: ceil_div_def)

lemma listState_read:
  "fst (listState h d pfx) = urlInt (PStr (hashParam h (pfx @ ''offset'')))"
  "fst (snd (listState h d pfx)) =
    (let l = urlInt (PStr (hashParam h (pfx @ ''limit''))) in if l = 0 then d else l)"
  by (simp_all add: listState_def Let_def)

lemma urlInt_written:
  assumes "0 \<le> n" "n < 2 ^ 53"
  shows "urlInt (PStr (nullish (pval_string (PNum n)) [])) = n"
proof (cases "n = 0")
  case True
  then show ?thesis by (simp add: pval_string_def urlInt_def Number_of_def trim_def fin_trunc_def)
next
  case False
  with assms have "nat n < 2 ^ 53" by (simp add: nat_less_iff)
  with False assms urlInt_show_nat[of "nat n"] show ?thesis by (simp add: pval_string_def show_int_def)
qed

text \<open>C33: A list's links lead where they say and keep everything else: reading the list state
  back from the URL \<open>href\<close> builds gives exactly the offset and page size the link was built
  for (a default size is left out of the URL and comes back as the default), and every other
  query value of the page -- its filters, another list's paging -- is unchanged.\<close>

theorem listState_href:
  assumes "utf8_params (hash_query h)" "utf8 (pfx @ ''offset'')" "utf8 (pfx @ ''limit'')"
    and "0 \<le> off" "off < 2 ^ 53" "0 < lim" "lim < 2 ^ 53"
  shows "(let href = snd (snd (listState h d pfx)) off lim in
      fst (listState href d pfx) = off \<and> fst (snd (listState href d pfx)) = lim \<and>
      (\<forall>k. k \<noteq> pfx @ ''offset'' \<longrightarrow> k \<noteq> pfx @ ''limit'' \<longrightarrow> hashParam href k = hashParam h k))"
proof -
  define patch where "patch = [(pfx @ ''offset'', PNum off),
    (pfx @ ''limit'', if lim = d then PNone else PNum lim)]"
  have href: "snd (snd (listState h d pfx)) off lim = hashWith h patch"
    by (simp add: listState_def Let_def patch_def)
  have "utf8_patch patch" using assms by (auto simp: patch_def utf8_patch_def)
  note q = hash_query_hashWith[OF assms(1) this]
  have dist: "distinct (map fst patch)" by (simp add: patch_def)
  have get: "hashParam (hashWith h patch) k =
      nullish (case map_of patch k of Some v \<Rightarrow> pval_string v | None \<Rightarrow> qs_get (hash_query h) k) []" for k
    by (simp only: hashParam_query q patch_get[OF dist])
  have "urlInt (PStr []) = 0"
    by (simp add: urlInt_def Number_of_def trim_def fin_trunc_def)
  with get urlInt_written[of off] urlInt_written[of lim] assms(4-7)
  have "urlInt (PStr (hashParam (hashWith h patch) (pfx @ ''offset''))) = off"
    "urlInt (PStr (hashParam (hashWith h patch) (pfx @ ''limit''))) = (if lim = d then 0 else lim)"
    by (simp_all add: patch_def pval_string_def[of PNone])
  moreover have "hashParam (hashWith h patch) k = hashParam h k"
    if "k \<noteq> pfx @ ''offset''" "k \<noteq> pfx @ ''limit''" for k
    using get[of k] that by (simp add: patch_def hashParam_query)
  ultimately show ?thesis using assms(6) by (simp add: href listState_read Let_def)
qed

theorem listState_href_witness:
  "fst (listState (snd (snd (listState ''#/owners?team=core'' 25 [])) 50 100) 25 []) = 50 \<and>
   hashParam (snd (snd (listState ''#/owners?team=core'' 25 [])) 50 100) ''team'' = ''core''"
proof -
  have h: "hash_query ''#/owners?team=core'' = [(''team'', ''core'')]" by code_simp
  then have "utf8_params (hash_query ''#/owners?team=core'')" by (simp add: utf8_ascii)
  moreover have "hashParam ''#/owners?team=core'' ''team'' = ''core''" by code_simp
  ultimately show ?thesis
    using listState_href[of "''#/owners?team=core''" "[]" 50 100 25] by (simp add: Let_def utf8_ascii)
qed

end
