(* ===== verification/Readiness.thy ===== *)
theory Readiness
  imports Prelude
begin

text \<open>
  The readiness model (\<open>lib/readiness.ts\<close>): the bucket of an assessment, its gate class and
  tooltip, and the labels and classes of buckets and checks.  Scores and counts are natural
  numbers, days remaining an integer, as the API sends them.
\<close>

section \<open>Data\<close>

record readiness_check =
  rc_category :: "string option"
  rc_status :: string
  rc_docPath :: "string option"

record readiness_info =
  ri_score :: nat
  ri_minScore :: nat
  ri_passing :: bool
  ri_expired :: bool
  ri_doneCount :: nat
  ri_partialCount :: nat
  ri_notDoneCount :: nat
  ri_deferredCount :: nat
  ri_checks :: "readiness_check list"

datatype bucket = Ready | Partial | NotReady | BUnknown

section \<open>Operations\<close>

definition readinessBucket :: "readiness_info option \<Rightarrow> bucket" where
  "readinessBucket r =
     (case r of
        None \<Rightarrow> BUnknown
      | Some i \<Rightarrow>
          if ri_passing i \<and> \<not> ri_expired i then Ready
          else if 50 \<le> ri_score i then Partial
          else NotReady)"

definition readinessGateClass :: "readiness_info option \<Rightarrow> string" where
  "readinessGateClass r =
     (case r of
        None \<Rightarrow> []
      | Some i \<Rightarrow>
          if ri_passing i \<and> \<not> ri_expired i then ''score-ok''
          else if 50 \<le> ri_score i \<and> \<not> ri_expired i then ''score-warn''
          else ''score-err'')"

definition readinessGateTip :: "readiness_info option \<Rightarrow> string" where
  "readinessGateTip r =
     (case r of
        None \<Rightarrow> []
      | Some i \<Rightarrow>
          show_nat (ri_score i) @ ''% '' @ EM_DASH @ '' '' @
          (if ri_expired i then ''expired'' else if ri_passing i then ''passing'' else ''below gate'') @
          '' (minScore '' @ show_nat (ri_minScore i) @ '')'')"

definition readinessBucketLabel :: "bucket \<Rightarrow> string" where
  "readinessBucketLabel b =
     (case b of Ready \<Rightarrow> ''Ready'' | Partial \<Rightarrow> ''Partial'' | NotReady \<Rightarrow> ''Not Ready'' | BUnknown \<Rightarrow> ''Not configured'')"

definition readinessBucketClass :: "bucket \<Rightarrow> string" where
  "readinessBucketClass b =
     (case b of Ready \<Rightarrow> ''badge-ok'' | Partial \<Rightarrow> ''badge-warn'' | NotReady \<Rightarrow> ''badge-err'' | BUnknown \<Rightarrow> ''badge-neutral'')"

text \<open>\<open>/^https?:\/\//i\<close>: ASCII case folding is all the pattern needs.\<close>

definition ascii_lower :: "char \<Rightarrow> char" where
  "ascii_lower c = (if 65 \<le> (of_char c :: nat) \<and> (of_char c :: nat) \<le> 90 then char_of ((of_char c :: nat) + 32) else c)"

definition isUrlEvidence :: "string option \<Rightarrow> bool" where
  "isUrlEvidence evidence =
     (case evidence of
        None \<Rightarrow> False
      | Some e \<Rightarrow>
          (let s = map ascii_lower e in startsWith s ''http://'' \<or> startsWith s ''https://''))"

definition checkStatusLabel :: "string option \<Rightarrow> string" where
  "checkStatusLabel status =
     (if \<not> truthy status then EM_DASH
      else
        let s = the status in
        if s = ''done'' then ''Done''
        else if s = ''partial'' then ''Partial''
        else if s = ''not-done'' then ''Not done''
        else if s = ''deferred'' then ''Deferred''
        else s)"

definition checkStatusClass :: "string option \<Rightarrow> string" where
  "checkStatusClass status =
     (if status = Some ''done'' then ''badge-ok''
      else if status = Some ''partial'' then ''badge-warn''
      else if status = Some ''not-done'' then ''badge-err''
      else ''badge-neutral'')"

definition assessmentCountdownLabel :: "bool \<Rightarrow> int option \<Rightarrow> string" where
  "assessmentCountdownLabel expired days =
     (if expired then ''Expired''
      else case days of
        None \<Rightarrow> []
      | Some d \<Rightarrow>
          if d < 0 then ''Expired''
          else if d = 0 then ''expires today''
          else if d = 1 then ''expires in 1 day''
          else ''expires in '' @ show_int d @ '' days'')"

section \<open>Expiry\<close>

text \<open>An expired assessment is never shown as passing, whatever its payload says.\<close>

lemma expired_never_ready:
  "ri_expired i \<Longrightarrow> readinessBucket (Some i) \<noteq> Ready \<and> readinessGateClass (Some i) = ''score-err''"
  by (simp add: readinessBucket_def readinessGateClass_def)

lemma bucket_gate:
  "readinessBucket (Some i) = Ready \<longleftrightarrow> readinessGateClass (Some i) = ''score-ok''"
  by (simp add: readinessBucket_def readinessGateClass_def)

end
