(* ===== verification/Owners.thy ===== *)
theory Owners
  imports Prelude
begin

text \<open>
  Owner identity (\<open>lib/owners.ts\<close>): the canonical key of a service's owner and its parse, the
  name shown, the search match, and the detail merged from the services that share an owner.

  The value a service carries as its owner is an object with optional text fields, or anything
  else (\<open>None\<close>: absent or not an object).  \<open>toLowerCase\<close> is the argument \<open>lower\<close>.
\<close>

section \<open>Data\<close>

record owner_contact =
  oc_type :: string
  oc_value :: string
  oc_purpose :: "string option"

record owner_obj =
  ow_team :: "string option"
  ow_dri :: "string option"
  ow_contacts :: "owner_contact list option"

record owner_detail =
  od_key :: string
  od_team :: string
  od_dri :: string
  od_contacts :: "owner_contact list"
  od_isStructured :: bool
  od_driConflict :: bool
  od_allDris :: "string list"

datatype owner_kind = Team | Dri

section \<open>Operations\<close>

definition ownerDisplay :: "owner_obj option \<Rightarrow> string" where
  "ownerDisplay owner =
     (case owner of
        None \<Rightarrow> []
      | Some o' \<Rightarrow>
          if truthy (ow_team o') then the (ow_team o')
          else if truthy (ow_dri o') then the (ow_dri o')
          else [])"

definition ownerKey :: "owner_obj option \<Rightarrow> string" where
  "ownerKey owner =
     (case owner of
        None \<Rightarrow> []
      | Some o' \<Rightarrow>
          if truthy (ow_team o') then ''team:'' @ the (ow_team o')
          else if truthy (ow_dri o') then ''dri:'' @ the (ow_dri o')
          else [])"

definition UNOWNED_KEY :: string where
  "UNOWNED_KEY = ''(unowned)''"

definition parseOwnerKey :: "string \<Rightarrow> (owner_kind \<times> string) option" where
  "parseOwnerKey key =
     (case cut_at (CHR '':'') key of
        (k, Some v) \<Rightarrow>
          if k = [] \<or> v = [] then None
          else if k = ''team'' then Some (Team, v)
          else if k = ''dri'' then Some (Dri, v)
          else None
      | _ \<Rightarrow> None)"

definition ownerKeyLabel :: "string \<Rightarrow> string" where
  "ownerKeyLabel key = (case parseOwnerKey key of Some (k, v) \<Rightarrow> v | None \<Rightarrow> key)"

definition ownerKeyKind :: "string \<Rightarrow> string" where
  "ownerKeyKind key =
     (case parseOwnerKey key of
        None \<Rightarrow> []
      | Some (k, v) \<Rightarrow> if k = Dri then ''DRI'' else ''Team'')"

definition ownerMatchesFilter :: "(string \<Rightarrow> string) \<Rightarrow> owner_obj option \<Rightarrow> string \<Rightarrow> bool" where
  "ownerMatchesFilter lower owner query =
     (case owner of
        None \<Rightarrow> False
      | Some o' \<Rightarrow>
          let q = lower query in
          str_includes (lower (or_else (ow_team o') [])) q \<or>
          str_includes (lower (or_else (ow_dri o') [])) q \<or>
          list_ex (\<lambda>c. str_includes (lower (oc_value c)) q) (nullish (ow_contacts o') []))"

definition ownerIsStructured :: "owner_obj option \<Rightarrow> bool" where
  "ownerIsStructured owner = (owner \<noteq> None)"

definition contact_key :: "owner_contact \<Rightarrow> string" where
  "contact_key c = oc_type c @ [CHR 0x00] @ oc_value c"

text \<open>The loop's state: the contact keys seen, the merged contacts, the DRIs and the detail.\<close>

definition merge_contact ::
  "string list \<times> owner_contact list \<Rightarrow> owner_contact \<Rightarrow> string list \<times> owner_contact list" where
  "merge_contact st c =
     (case st of (seen, merged) \<Rightarrow>
        if contact_key c \<in> set seen then (seen, merged)
        else (set_add (contact_key c) seen, merged @ [c]))"

definition detail_step ::
  "(string list \<times> owner_contact list) \<times> string list \<times> owner_detail \<Rightarrow> owner_obj option \<Rightarrow>
   (string list \<times> owner_contact list) \<times> string list \<times> owner_detail" where
  "detail_step st owner =
     (case owner of
        None \<Rightarrow> st
      | Some o' \<Rightarrow>
          (case st of (cs, dris, d) \<Rightarrow>
             let d1 = d\<lparr> od_isStructured := True \<rparr>;
                 d2 = (if od_team d1 = [] \<and> truthy (ow_team o') then d1\<lparr> od_team := the (ow_team o') \<rparr> else d1);
                 dri = or_else (ow_dri o') [];
                 dris' = (if dri \<noteq> [] then set_add dri dris else dris)
             in (foldl merge_contact cs (nullish (ow_contacts o') []), dris', d2)))"

definition extractOwnerDetail :: "string \<Rightarrow> owner_obj option list \<Rightarrow> owner_detail" where
  "extractOwnerDetail ownerKeyStr owners =
     (let d0 = \<lparr> od_key = ownerKeyStr, od_team = [], od_dri = [], od_contacts = [],
                 od_isStructured = False, od_driConflict = False, od_allDris = [] \<rparr>
      in case foldl detail_step (([], []), [], d0) owners of
        (cs, dris, d) \<Rightarrow>
          let d1 = (if 0 < length dris
                    then d\<lparr> od_allDris := sort_by str_cmp dris, od_dri := hd (sort_by str_cmp dris), od_driConflict := (1 < length dris) \<rparr>
                    else d)
          in d1\<lparr> od_contacts := snd cs \<rparr>)"

section \<open>Keys\<close>

lemma parse_team: "v \<noteq> [] \<Longrightarrow> parseOwnerKey (''team:'' @ v) = Some (Team, v)"
  using cut_at_append[of "CHR '':''" "''team''" v] by (simp add: parseOwnerKey_def)

lemma parse_dri: "v \<noteq> [] \<Longrightarrow> parseOwnerKey (''dri:'' @ v) = Some (Dri, v)"
  using cut_at_append[of "CHR '':''" "''dri''" v] by (simp add: parseOwnerKey_def)

text \<open>The owner a canonical key names.\<close>

definition owner_of_key :: "owner_kind \<times> string \<Rightarrow> owner_obj" where
  "owner_of_key k =
     \<lparr> ow_team = (if fst k = Team then Some (snd k) else None),
       ow_dri = (if fst k = Dri then Some (snd k) else None), ow_contacts = None \<rparr>"

lemma parse_cases:
  assumes "parseOwnerKey key = Some (k, v)"
  shows "v \<noteq> [] \<and> key = (if k = Team then ''team:'' else ''dri:'') @ v"
proof -
  obtain a b where c: "cut_at (CHR '':'') key = (a, b)" by (cases "cut_at (CHR '':'') key")
  with assms obtain v' where b: "b = Some v'" by (cases b) (simp_all add: parseOwnerKey_def)
  with c have key: "key = a @ CHR '':'' # v'" using cut_at_Some by metis
  with assms c b show ?thesis by (auto simp: parseOwnerKey_def split: if_splits)
qed

section \<open>Merged contacts\<close>

lemma merge_contact_step:
  assumes "fst st = map contact_key (snd st)" "distinct (fst st)"
  shows "fst (merge_contact st c) = map contact_key (snd (merge_contact st c))" "distinct (fst (merge_contact st c))"
    "set (fst (merge_contact st c)) = insert (contact_key c) (set (fst st))"
    "set (snd (merge_contact st c)) \<subseteq> insert c (set (snd st))"
  using assms by (cases st; auto simp: merge_contact_def set_add_def)+

lemma merge_contacts_inv:
  assumes "fst st = map contact_key (snd st)" "distinct (fst st)"
  shows "fst (foldl merge_contact st cs) = map contact_key (snd (foldl merge_contact st cs)) \<and>
    distinct (fst (foldl merge_contact st cs)) \<and>
    set (fst (foldl merge_contact st cs)) = set (fst st) \<union> contact_key ` set cs \<and>
    set (snd (foldl merge_contact st cs)) \<subseteq> set (snd st) \<union> set cs"
  using assms
proof (induction cs arbitrary: st)
  case Nil
  then show ?case by simp
next
  case (Cons c cs)
  let ?st = "merge_contact st c"
  note s = merge_contact_step[OF Cons.prems, of c]
  note ih = Cons.IH[OF s(1,2)]
  have f: "foldl merge_contact st (c # cs) = foldl merge_contact ?st cs" by simp
  have a: "set (fst ?st) \<union> contact_key ` set cs = set (fst st) \<union> contact_key ` set (c # cs)"
    unfolding s(3) by simp
  have b: "set (snd ?st) \<union> set cs \<subseteq> set (snd st) \<union> set (c # cs)" using s(4) by auto
  have i: "fst (foldl merge_contact ?st cs) = map contact_key (snd (foldl merge_contact ?st cs))"
    "distinct (fst (foldl merge_contact ?st cs))"
    "set (fst (foldl merge_contact ?st cs)) = set (fst ?st) \<union> contact_key ` set cs"
    "set (snd (foldl merge_contact ?st cs)) \<subseteq> set (snd ?st) \<union> set cs"
    using ih by blast+
  show ?case
    unfolding f by (intro conjI) (rule i(1), rule i(2), rule trans[OF i(3) a], rule order_trans[OF i(4) b])
qed

definition all_contacts :: "owner_obj option list \<Rightarrow> owner_contact list" where
  "all_contacts os = concat (map (\<lambda>o'. case o' of Some x \<Rightarrow> nullish (ow_contacts x) [] | None \<Rightarrow> []) os)"

definition all_dris :: "owner_obj option list \<Rightarrow> string set" where
  "all_dris os = {d. d \<noteq> [] \<and> (\<exists>x. Some x \<in> set os \<and> ow_dri x = Some d)}"

lemma detail_fold_contacts:
  "fst (foldl detail_step (cs, ds, d) os) = foldl merge_contact cs (all_contacts os)"
proof (induction os arbitrary: cs ds d)
  case (Cons o' os)
  then show ?case by (cases o') (simp_all add: detail_step_def all_contacts_def Let_def)
qed (simp add: all_contacts_def)

lemma detail_fold_dris:
  "distinct ds \<Longrightarrow> distinct (fst (snd (foldl detail_step (cs, ds, d) os))) \<and>
    set (fst (snd (foldl detail_step (cs, ds, d) os))) = set ds \<union> all_dris os"
proof (induction os arbitrary: cs ds d)
  case (Cons o' os)
  show ?case
  proof (cases o')
    case None
    have "all_dris (o' # os) = all_dris os" using None by (auto simp: all_dris_def)
    with Cons None show ?thesis by (simp add: detail_step_def)
  next
    case (Some x)
    have "all_dris (o' # os) = all_dris os \<union> (if or_else (ow_dri x) [] \<noteq> [] then {or_else (ow_dri x) []} else {})"
      using Some by (auto simp: all_dris_def or_else_def split: option.splits if_splits)
    with Cons Some show ?thesis by (simp add: detail_step_def Let_def)
  qed
qed (simp add: all_dris_def)

section \<open>Properties\<close>

text \<open>C35: An owner key is an identity: parsing the key of an owner gives back its namespace and
  its name, whatever punctuation the name holds, so a team and a person of the same name have
  different keys; and every string the parser accepts is the key of the owner it names.\<close>

theorem ownerKey_identity:
  "(truthy (ow_team o') \<longrightarrow> parseOwnerKey (ownerKey (Some o')) = Some (Team, the (ow_team o'))) \<and>
   (\<not> truthy (ow_team o') \<and> truthy (ow_dri o') \<longrightarrow>
      parseOwnerKey (ownerKey (Some o')) = Some (Dri, the (ow_dri o'))) \<and>
   (parseOwnerKey key = Some kv \<longrightarrow> ownerKey (Some (owner_of_key kv)) = key)"
proof -
  have "truthy s \<Longrightarrow> the s \<noteq> []" for s by (cases s) (auto simp: truthy_def)
  moreover have "ownerKey (Some (owner_of_key kv)) = key" if "parseOwnerKey key = Some kv"
  proof -
    obtain k v where kv: "kv = (k, v)" by (cases kv)
    have "v \<noteq> []" "key = (if k = Team then ''team:'' else ''dri:'') @ v"
      using parse_cases[of key k v] that kv by simp_all
    with kv show ?thesis by (cases k) (simp_all add: ownerKey_def owner_of_key_def truthy_def)
  qed
  moreover have "truthy (ow_team o') \<Longrightarrow> ownerKey (Some o') = ''team:'' @ the (ow_team o')"
    "\<not> truthy (ow_team o') \<Longrightarrow> truthy (ow_dri o') \<Longrightarrow> ownerKey (Some o') = ''dri:'' @ the (ow_dri o')"
    by (simp_all add: ownerKey_def)
  ultimately show ?thesis using parse_team parse_dri by metis
qed

theorem ownerKey_identity_witness:
  "parseOwnerKey (ownerKey (Some \<lparr> ow_team = Some ''a:b'', ow_dri = Some ''ann'', ow_contacts = None \<rparr>)) =
    Some (Team, ''a:b'')"
  using ownerKey_identity[of "\<lparr> ow_team = Some ''a:b'', ow_dri = Some ''ann'', ow_contacts = None \<rparr>"]
  by (simp add: truthy_def)

text \<open>C36: An owner's page merges the contacts of all its services without losing or repeating
  one: every contact of every service is there (by type and value), each once, nothing is
  invented; the DRIs are exactly the distinct ones the services name, and a conflict is
  reported precisely when they name more than one.\<close>

theorem extractOwnerDetail_merges:
  "contact_key ` set (od_contacts (extractOwnerDetail k os)) = contact_key ` set (all_contacts os) \<and>
   set (od_contacts (extractOwnerDetail k os)) \<subseteq> set (all_contacts os) \<and>
   distinct (map contact_key (od_contacts (extractOwnerDetail k os))) \<and>
   set (od_allDris (extractOwnerDetail k os)) = all_dris os \<and>
   od_driConflict (extractOwnerDetail k os) = (1 < card (all_dris os))"
proof -
  let ?d0 = "\<lparr> od_key = k, od_team = [], od_dri = [], od_contacts = [], od_isStructured = False,
    od_driConflict = False, od_allDris = [] \<rparr>"
  obtain cs ds d where f: "foldl detail_step (([], []), [], ?d0) os = (cs, ds, d)" by (metis prod_cases3)
  have d0: "od_allDris d = []" "od_driConflict d = False"
  proof -
    have "od_allDris (snd (snd (foldl detail_step st os))) = od_allDris (snd (snd st)) \<and>
        od_driConflict (snd (snd (foldl detail_step st os))) = od_driConflict (snd (snd st))" for st
    proof (induction os arbitrary: st)
      case (Cons o' os)
      then show ?case by (cases o') (simp_all add: detail_step_def Let_def split: prod.splits)
    qed simp
    from this[of "(([], []), [], ?d0)"] f show "od_allDris d = []" "od_driConflict d = False" by simp_all
  qed
  have c: "cs = foldl merge_contact ([], []) (all_contacts os)"
    using detail_fold_contacts[of "([], [])" "[]" ?d0 os] f by simp
  have ds: "distinct ds" "set ds = all_dris os"
    using detail_fold_dris[of "[]" "([], [])" ?d0 os] f by simp_all
  have out: "od_contacts (extractOwnerDetail k os) = snd cs"
      "od_allDris (extractOwnerDetail k os) = (if ds = [] then [] else sort_by str_cmp ds)"
      "od_driConflict (extractOwnerDetail k os) = (1 < length ds)"
    using d0 by (auto simp: extractOwnerDetail_def Let_def f)
  have p: "fst ([], []) = map contact_key (snd ([], []))" "distinct (fst ([] :: string list, [] :: owner_contact list))"
    by simp_all
  note inv = merge_contacts_inv[OF p, of "all_contacts os", folded c]
  have m1: "fst cs = map contact_key (snd cs)" and m2: "distinct (fst cs)" using inv by blast+
  have m3: "set (fst cs) = contact_key ` set (all_contacts os)"
    using inv by (metis Un_empty_left fst_conv list.set(1))
  have m4: "set (snd cs) \<subseteq> set (all_contacts os)"
    using inv by (metis Un_empty_left snd_conv list.set(1))
  have k: "contact_key ` set (snd cs) = set (fst cs)" unfolding m1 by simp
  have l: "length ds = card (all_dris os)" using ds distinct_card by metis
  have s: "set (if ds = [] then [] else sort_by str_cmp ds) = all_dris os" using ds by auto
  show ?thesis unfolding out k s l m1[symmetric] using m2 m3 m4 by simp
qed

end
