(* ===== verification/Filters.thy ===== *)
theory Filters
  imports Paging Readiness Owners
begin

text \<open>
  The service filters (\<open>lib/filters.ts\<close>) and the store that keeps them in the URL
  (\<open>lib/filters.svelte.ts\<close>): reading and writing the hash, applying the filters to a list, and
  the store's operations with the browser's hash beside it.  \<open>toLowerCase\<close> is the argument
  \<open>lower\<close>.
\<close>

section \<open>Filter state\<close>

datatype fkey = FSearch | FOwner | FCategory | FContractStatus | FReadinessStatus | FSource | FFocus | FGroup

fun fkey_name :: "fkey \<Rightarrow> string" where
  "fkey_name FSearch = ''search''"
| "fkey_name FOwner = ''owner''"
| "fkey_name FCategory = ''category''"
| "fkey_name FContractStatus = ''contractStatus''"
| "fkey_name FReadinessStatus = ''readinessStatus''"
| "fkey_name FSource = ''source''"
| "fkey_name FFocus = ''focus''"
| "fkey_name FGroup = ''group''"

definition FILTER_KEYS :: "fkey list" where
  "FILTER_KEYS = [FSearch, FOwner, FCategory, FContractStatus, FReadinessStatus, FSource, FFocus, FGroup]"

type_synonym filters = "fkey \<Rightarrow> string"

definition EMPTY_FILTERS :: filters where
  "EMPTY_FILTERS = (\<lambda>_. [])"

definition readFiltersFromHash :: "string \<Rightarrow> filters" where
  "readFiltersFromHash hash =
     (case snd (cut_at (CHR ''?'') hash) of
        None \<Rightarrow> EMPTY_FILTERS
      | Some q \<Rightarrow> let qs = qs_parse q in (\<lambda>k. or_else (qs_get qs (fkey_name k)) []))"

definition write_filter :: "filters \<Rightarrow> params \<Rightarrow> fkey \<Rightarrow> params" where
  "write_filter f qs k = (if f k \<noteq> [] then qs_set (fkey_name k) (f k) qs else qs)"

definition keep_param :: "params \<Rightarrow> params \<Rightarrow> string \<Rightarrow> params" where
  "keep_param old qs k = (case qs_get old k of Some v \<Rightarrow> if v \<noteq> [] then qs_set k v qs else qs | None \<Rightarrow> qs)"

definition writeFiltersToHash :: "string \<Rightarrow> filters \<Rightarrow> string" where
  "writeFiltersToHash hash f =
     (let path = fst (cut_at (CHR ''?'') hash);
          qs = foldl (write_filter f) [] FILTER_KEYS;
          old = qs_parse (nullish (snd (cut_at (CHR ''?'') hash)) [])
      in with_query path (foldl (keep_param old) qs [''sort'', ''dir'', ''limit'']))"

definition filtersActive :: "filters \<Rightarrow> bool" where
  "filtersActive f = list_ex (\<lambda>k. f k \<noteq> []) [FSearch, FOwner, FCategory, FContractStatus, FReadinessStatus, FSource]"

section \<open>Applying the filters\<close>

record listed_service =
  fs_name :: "string option"
  fs_owner :: "owner_obj option"
  fs_readiness :: "readiness_info option"
  fs_contractStatus :: "string option"
  fs_sources :: "string list option"
  fs_source :: "string option"

fun bucket_str :: "bucket \<Rightarrow> string" where
  "bucket_str Ready = ''ready''"
| "bucket_str Partial = ''partial''"
| "bucket_str NotReady = ''not-ready''"
| "bucket_str BUnknown = ''unknown''"

definition match_search :: "(string \<Rightarrow> string) \<Rightarrow> string \<Rightarrow> listed_service \<Rightarrow> bool" where
  "match_search lower q s =
     ((case fs_name s of Some n \<Rightarrow> str_includes (lower n) q | None \<Rightarrow> False) \<or> ownerMatchesFilter lower (fs_owner s) q)"

definition match_category :: "string \<Rightarrow> listed_service \<Rightarrow> bool" where
  "match_category c s =
     list_ex (\<lambda>x. rc_category x = Some c) (case fs_readiness s of Some r \<Rightarrow> ri_checks r | None \<Rightarrow> [])"

definition match_source :: "string \<Rightarrow> listed_service \<Rightarrow> bool" where
  "match_source src s = (src \<in> set (nullish (fs_sources s) (if truthy (fs_source s) then [the (fs_source s)] else [])))"

definition applyFilters :: "(string \<Rightarrow> string) \<Rightarrow> listed_service list \<Rightarrow> filters \<Rightarrow> listed_service list" where
  "applyFilters lower services f =
     (let when = (\<lambda>k P xs. if f k \<noteq> [] then filter P xs else xs);
          l1 = when FSearch (match_search lower (lower (f FSearch))) services;
          l2 = when FOwner (\<lambda>s. ownerKey (fs_owner s) = f FOwner) l1;
          l3 = when FCategory (match_category (f FCategory)) l2;
          l4 = when FContractStatus (\<lambda>s. fs_contractStatus s = Some (f FContractStatus)) l3;
          l5 = when FReadinessStatus (\<lambda>s. bucket_str (readinessBucket (fs_readiness s)) = f FReadinessStatus) l4
      in when FSource (match_source (f FSource)) l5)"

section \<open>The store\<close>

text \<open>The reactive filters, and the location's hash.\<close>

record filter_store =
  st_filters :: filters
  st_hash :: string

definition load_store :: "string \<Rightarrow> filter_store" where
  "load_store hash = \<lparr> st_filters = readFiltersFromHash hash, st_hash = hash \<rparr>"

definition write_back :: "filter_store \<Rightarrow> filter_store" where
  "write_back st = st\<lparr> st_hash := writeFiltersToHash (st_hash st) (st_filters st) \<rparr>"

definition syncFromHash :: "filter_store \<Rightarrow> filter_store" where
  "syncFromHash st = st\<lparr> st_filters := readFiltersFromHash (st_hash st) \<rparr>"

definition setFilter :: "fkey \<Rightarrow> string \<Rightarrow> filter_store \<Rightarrow> filter_store" where
  "setFilter k v st = write_back (st\<lparr> st_filters := (st_filters st)(k := v) \<rparr>)"

definition toggleFilter :: "fkey \<Rightarrow> string \<Rightarrow> filter_store \<Rightarrow> filter_store" where
  "toggleFilter k v st =
     write_back (st\<lparr> st_filters := (st_filters st)(k := (if st_filters st k = v then [] else v)) \<rparr>)"

definition clearFilters :: "filter_store \<Rightarrow> filter_store" where
  "clearFilters st = write_back (st\<lparr> st_filters := EMPTY_FILTERS \<rparr>)"

datatype filter_op = SetF fkey string | ToggleF fkey string | ClearF | Navigate string

text \<open>A navigation changes the hash, and its event re-reads the store.\<close>

fun filter_step :: "filter_op \<Rightarrow> filter_store \<Rightarrow> filter_store" where
  "filter_step (SetF k v) st = setFilter k v st"
| "filter_step (ToggleF k v) st = toggleFilter k v st"
| "filter_step ClearF st = clearFilters st"
| "filter_step (Navigate h) st = syncFromHash (st\<lparr> st_hash := h \<rparr>)"

section \<open>Reading back what was written\<close>

lemma fkey_name_inj: "fkey_name j = fkey_name k \<longleftrightarrow> j = k"
  by (cases j; cases k) simp_all

lemma fkey_name_kept: "fkey_name k \<notin> {''sort'', ''dir'', ''limit''}"
  by (cases k) simp_all

lemma fkey_utf8: "utf8 (fkey_name k)"
  by (cases k) (simp_all add: utf8.simps)

lemma all_keys: "k \<in> set FILTER_KEYS"
  by (cases k) (simp_all add: FILTER_KEYS_def)

lemma write_filter_get:
  "qs_get (foldl (write_filter f) qs ks) (fkey_name k) = (if k \<in> set ks \<and> f k \<noteq> [] then Some (f k) else qs_get qs (fkey_name k))"
  by (induction ks arbitrary: qs) (auto simp: write_filter_def qs_get_set fkey_name_inj)

lemma write_filter_other: "k \<notin> range fkey_name \<Longrightarrow> qs_get (foldl (write_filter f) qs ks) k = qs_get qs k"
  by (induction ks arbitrary: qs) (auto simp: write_filter_def qs_get_set)

lemma keep_param_get:
  "qs_get (foldl (keep_param old) qs ks) k =
     (if k \<in> set ks \<and> truthy (qs_get old k) then qs_get old k else qs_get qs k)"
  by (induction ks arbitrary: qs) (auto simp: keep_param_def qs_get_set truthy_def split: option.splits)

lemma utf8_written: "utf8_params qs \<Longrightarrow> (\<And>k. utf8 (f k)) \<Longrightarrow> utf8_params (foldl (write_filter f) qs ks)"
  by (induction ks arbitrary: qs) (auto simp: write_filter_def utf8_params_set fkey_utf8)

lemma utf8_kept:
  "utf8_params qs \<Longrightarrow> utf8_params old \<Longrightarrow> list_all utf8 ks \<Longrightarrow> utf8_params (foldl (keep_param old) qs ks)"
proof (induction ks arbitrary: qs)
  case (Cons k ks)
  have "utf8 v" if "qs_get old k = Some v" for v
    using that Cons.prems(2) by (auto simp: utf8_params_def qs_get_def dest!: map_of_SomeD)
  then have "utf8_params (keep_param old qs k)"
    using Cons.prems by (auto simp: keep_param_def utf8_params_set split: option.splits)
  with Cons show ?case by simp
qed simp

lemma cut_fst_no: "c \<notin> set (fst (cut_at c xs))"
  by (induction xs) (auto split: prod.splits)

lemma readFilters_query: "readFiltersFromHash h = (\<lambda>k. or_else (qs_get (hash_query h) (fkey_name k)) [])"
  by (cases "snd (cut_at (CHR ''?'') h)")
    (auto simp: readFiltersFromHash_def hash_query_def EMPTY_FILTERS_def nullish_def qs_get_def or_else_def Let_def)

lemma kept_utf8: "list_all utf8 [''sort'', ''dir'', ''limit'']"
  by (simp add: utf8.simps)

lemma write_query:
  assumes "utf8_params (hash_query h)" "\<And>k. utf8 (f k)"
  shows "hash_query (writeFiltersToHash h f) =
      foldl (keep_param (hash_query h)) (foldl (write_filter f) [] FILTER_KEYS) [''sort'', ''dir'', ''limit'']"
    and "utf8_params (hash_query (writeFiltersToHash h f))"
proof -
  let ?ps = "foldl (keep_param (hash_query h)) (foldl (write_filter f) [] FILTER_KEYS) [''sort'', ''dir'', ''limit'']"
  have ok: "utf8_params ?ps" by (intro utf8_kept utf8_written assms kept_utf8) simp
  then show q: "hash_query (writeFiltersToHash h f) = ?ps"
    using query_with_query[OF cut_fst_no[of "CHR ''?''" h] ok]
    by (simp only: writeFiltersToHash_def Let_def hash_query_def)
  show "utf8_params (hash_query (writeFiltersToHash h f))" unfolding q by (rule ok)
qed

lemma read_write:
  assumes "utf8_params (hash_query h)" "\<And>k. utf8 (f k)"
  shows "readFiltersFromHash (writeFiltersToHash h f) = f"
proof
  fix k
  have "qs_get (hash_query (writeFiltersToHash h f)) (fkey_name k) = (if f k \<noteq> [] then Some (f k) else None)"
    unfolding write_query(1)[OF assms] keep_param_get write_filter_get
    using fkey_name_kept[of k] all_keys[of k] by (simp add: qs_get_def)
  then show "readFiltersFromHash (writeFiltersToHash h f) k = f k" by (simp add: readFilters_query or_else_def truthy_def)
qed

text \<open>A list's order and page size survive a filter change; everything else is dropped.\<close>

lemma write_keeps:
  assumes "utf8_params (hash_query h)" "\<And>k. utf8 (f k)" "k \<notin> range fkey_name"
  shows "hashParam (writeFiltersToHash h f) k = (if k \<in> {''sort'', ''dir'', ''limit''} then hashParam h k else [])"
proof -
  have "qs_get (hash_query (writeFiltersToHash h f)) k =
      (if k \<in> {''sort'', ''dir'', ''limit''} \<and> truthy (qs_get (hash_query h) k) then qs_get (hash_query h) k else None)"
    unfolding write_query(1)[OF assms(1,2)] keep_param_get write_filter_other[OF assms(3)] by (simp add: qs_get_def)
  then show ?thesis by (cases "qs_get (hash_query h) k") (auto simp: hashParam_query truthy_def nullish_def)
qed

section \<open>The store and the URL agree\<close>

fun op_ok :: "filter_op \<Rightarrow> bool" where
  "op_ok (SetF k v) = utf8 v"
| "op_ok (ToggleF k v) = utf8 v"
| "op_ok ClearF = True"
| "op_ok (Navigate h) = utf8_params (hash_query h)"

definition in_sync :: "filter_store \<Rightarrow> bool" where
  "in_sync st = (readFiltersFromHash (st_hash st) = st_filters st \<and> utf8_params (hash_query (st_hash st)))"

lemma in_sync_utf8: "in_sync st \<Longrightarrow> utf8 (st_filters st k)"
proof -
  assume "in_sync st"
  then have u: "utf8_params (hash_query (st_hash st))" and eq: "st_filters st k = or_else (qs_get (hash_query (st_hash st)) (fkey_name k)) []"
    by (simp_all add: in_sync_def readFilters_query fun_eq_iff)
  show ?thesis
  proof (cases "qs_get (hash_query (st_hash st)) (fkey_name k)")
    case (Some v)
    then have "utf8 v" using u by (auto simp: utf8_params_def qs_get_def dest!: map_of_SomeD)
    with Some show ?thesis by (simp add: eq or_else_def)
  qed (simp add: eq or_else_def truthy_def)
qed

lemma write_back_sync:
  "utf8_params (hash_query (st_hash st)) \<Longrightarrow> (\<And>k. utf8 (st_filters st k)) \<Longrightarrow> in_sync (write_back st)"
  by (simp add: in_sync_def write_back_def read_write write_query(2))

lemma filter_step_sync:
  assumes st: "in_sync st" and ok: "op_ok x"
  shows "in_sync (filter_step x st)"
proof -
  have u: "utf8_params (hash_query (st_hash st))" using st by (simp add: in_sync_def)
  show ?thesis
  proof (cases x)
    case (Navigate h)
    with ok show ?thesis by (simp add: syncFromHash_def in_sync_def)
  qed (use in_sync_utf8[OF st] u ok in
      \<open>auto simp: setFilter_def toggleFilter_def clearFilters_def EMPTY_FILTERS_def intro!: write_back_sync\<close>)
qed

text \<open>C24: The filter store and the URL never disagree.  From any loaded page, after any sequence of setting,
  toggling and clearing filters and of navigations, the filters the URL's hash means are
  exactly the filters the store holds.\<close>

theorem filters_in_sync:
  assumes "utf8_params (hash_query h)" "list_all op_ok ops"
  shows "readFiltersFromHash (st_hash (fold filter_step ops (load_store h))) = st_filters (fold filter_step ops (load_store h))"
proof -
  have "list_all op_ok ops \<Longrightarrow> in_sync st \<Longrightarrow> in_sync (fold filter_step ops st)" for st
    by (induction ops arbitrary: st) (auto intro: filter_step_sync)
  moreover have "in_sync (load_store h)" using assms(1) by (simp add: in_sync_def load_store_def)
  ultimately show ?thesis using assms(2) by (auto simp: in_sync_def)
qed

theorem filters_in_sync_witness:
  "readFiltersFromHash (st_hash (fold filter_step [SetF FOwner ''team:pay'', ToggleF FSearch ''api''] (load_store ''#/services?sort=name''))) =
   st_filters (fold filter_step [SetF FOwner ''team:pay'', ToggleF FSearch ''api''] (load_store ''#/services?sort=name''))"
proof (rule filters_in_sync)
  show "utf8_params (hash_query ''#/services?sort=name'')" by code_simp
  show "list_all op_ok [SetF FOwner ''team:pay'', ToggleF FSearch ''api'']" by (simp add: utf8.simps)
qed

text \<open>The filtered list is the services, in order, that meet every active filter.\<close>

definition meets :: "(string \<Rightarrow> string) \<Rightarrow> filters \<Rightarrow> listed_service \<Rightarrow> bool" where
  "meets lower f s =
     ((f FSearch = [] \<or> match_search lower (lower (f FSearch)) s) \<and>
      (f FOwner = [] \<or> ownerKey (fs_owner s) = f FOwner) \<and>
      (f FCategory = [] \<or> match_category (f FCategory) s) \<and>
      (f FContractStatus = [] \<or> fs_contractStatus s = Some (f FContractStatus)) \<and>
      (f FReadinessStatus = [] \<or> bucket_str (readinessBucket (fs_readiness s)) = f FReadinessStatus) \<and>
      (f FSource = [] \<or> match_source (f FSource) s))"

lemma applyFilters_meets: "applyFilters lower services f = filter (meets lower f) services"
  by (auto simp: applyFilters_def meets_def Let_def intro: filter_cong)

end
