(* ===== verification/Async.thy ===== *)
theory Async
  imports Prelude
begin

text \<open>
  Requests in flight.  A component issues a request and attaches
  \<open>.then(f).catch(g).finally(h)\<close>; the three callbacks run as separate microtasks, so callbacks
  of different requests and the component's own operations interleave freely.  A component is
  a record of its operations and callbacks; \<open>async_step\<close> is the step relation of the component
  together with its requests.

  A request carries the token its component captured when it issued it.  The locale
  \<open>token_guard\<close> (with an invariant \<open>I\<close> of the component) is the contract \<open>lib/productLoader.svelte.ts\<close> and
  \<open>lib/entitySuggest.svelte.ts\<close> rely on: a callback whose token is not the current one changes
  nothing.  Under that contract the component behaves as if every superseded request had been
  cancelled at the moment it was superseded.
\<close>

section \<open>Requests and steps\<close>

datatype ('r, 'e) outcome = Fulfilled 'r | Rejected "'e option"

datatype ('r, 'e) phase = Waiting | AtThen "('r, 'e) outcome" | AtCatch "('r, 'e) outcome" | AtFinally

datatype ('c, 'r, 'e) request = Request (rq_token: nat) (rq_ctx: 'c) (rq_phase: "('r, 'e) phase")

record ('s, 'o, 'c, 'r, 'e) client =
  cl_token :: "'s \<Rightarrow> nat"
  cl_op :: "'o \<Rightarrow> 's \<Rightarrow> 's \<times> (nat \<times> 'c) option"
  cl_then :: "nat \<Rightarrow> 'c \<Rightarrow> 'r \<Rightarrow> 's \<Rightarrow> 's"
  cl_catch :: "nat \<Rightarrow> 'c \<Rightarrow> 'e option \<Rightarrow> 's \<Rightarrow> 's"
  cl_finally :: "nat \<Rightarrow> 'c \<Rightarrow> 's \<Rightarrow> 's"

datatype ('o, 'c, 'r, 'e) event =
    Op 'o
  | Settle "('c, 'r, 'e) request" "('r, 'e) outcome"
  | Callback "('c, 'r, 'e) request"

type_synonym ('s, 'c, 'r, 'e) config = "'s \<times> ('c, 'r, 'e) request multiset"

text \<open>The request an operation issues, if it issues one.\<close>

definition issued :: "(nat \<times> 'c) option \<Rightarrow> ('c, 'r, 'e) request multiset" where
  "issued q = (case q of None \<Rightarrow> {#} | Some (t, c) \<Rightarrow> {# Request t c Waiting #})"

text \<open>One callback of a settled request: its effect on the component, and what is left of it.\<close>

fun run_callback :: "('s, 'o, 'c, 'r, 'e, 'z) client_scheme \<Rightarrow> ('c, 'r, 'e) request \<Rightarrow> 's \<Rightarrow> 's" where
  "run_callback C (Request t c (AtThen (Fulfilled r))) s = cl_then C t c r s"
| "run_callback C (Request t c (AtCatch (Rejected e))) s = cl_catch C t c e s"
| "run_callback C (Request t c AtFinally) s = cl_finally C t c s"
| "run_callback C (Request t c p) s = s"

fun next_phase :: "('c, 'r, 'e) request \<Rightarrow> ('c, 'r, 'e) request multiset" where
  "next_phase (Request t c (AtThen p)) = {# Request t c (AtCatch p) #}"
| "next_phase (Request t c (AtCatch p)) = {# Request t c AtFinally #}"
| "next_phase (Request t c AtFinally) = {#}"
| "next_phase (Request t c Waiting) = {# Request t c Waiting #}"

inductive async_step ::
  "('s, 'o, 'c, 'r, 'e, 'z) client_scheme \<Rightarrow> ('s, 'c, 'r, 'e) config \<Rightarrow> ('o, 'c, 'r, 'e) event \<Rightarrow> ('s, 'c, 'r, 'e) config \<Rightarrow> bool"
  for C where
  op: "cl_op C o1 s = (s', q) \<Longrightarrow> async_step C (s, M) (Op o1) (s', M + issued q)"
| settle: "Request t c Waiting \<in># M \<Longrightarrow>
    async_step C (s, M) (Settle (Request t c Waiting) p) (s, M - {# Request t c Waiting #} + {# Request t c (AtThen p) #})"
| callback: "r \<in># M \<Longrightarrow> rq_phase r \<noteq> Waiting \<Longrightarrow>
    async_step C (s, M) (Callback r) (run_callback C r s, M - {# r #} + next_phase r)"

inductive_cases op_stepE [elim!]: "async_step C (s, M) (Op o1) cf"
inductive_cases settle_stepE [elim!]: "async_step C (s, M) (Settle r p) cf"
inductive_cases callback_stepE [elim!]: "async_step C (s, M) (Callback r) cf"

text \<open>A finite run, as the list of its events.\<close>

inductive async_run ::
  "('s, 'o, 'c, 'r, 'e, 'z) client_scheme \<Rightarrow> ('s, 'c, 'r, 'e) config \<Rightarrow> ('o, 'c, 'r, 'e) event list \<Rightarrow> ('s, 'c, 'r, 'e) config \<Rightarrow> bool"
  for C cf0 where
  run_nil: "async_run C cf0 [] cf0"
| run_snoc: "async_run C cf0 es cf \<Longrightarrow> async_step C cf e cf' \<Longrightarrow> async_run C cf0 (es @ [e]) cf'"

inductive_cases run_nilE [elim!]: "async_run C cf0 [] cf"

lemma run_one: "async_step C cf e cf' \<Longrightarrow> async_run C cf [e] cf'"
  using run_snoc[OF run_nil] by fastforce

lemma run_append: "async_run C cf1 es2 cf2 \<Longrightarrow> async_run C cf0 es1 cf1 \<Longrightarrow> async_run C cf0 (es1 @ es2) cf2"
proof (induction rule: async_run.induct)
  case (run_snoc es cf e cf')
  then have "async_run C cf0 ((es1 @ es) @ [e]) cf'" by (blast intro: async_run.run_snoc)
  then show ?case by simp
qed simp

lemma run_callback_case:
  "run_callback C (Request t c p) s =
     (case p of AtThen (Fulfilled r) \<Rightarrow> cl_then C t c r s | AtCatch (Rejected e) \<Rightarrow> cl_catch C t c e s
      | AtFinally \<Rightarrow> cl_finally C t c s | _ \<Rightarrow> s)"
  by (auto split: phase.splits outcome.splits)

text \<open>The relation is a partial function of the event, which can be evaluated.\<close>

fun exec_event ::
  "('s, 'o, 'c, 'r, 'e, 'z) client_scheme \<Rightarrow> ('o, 'c, 'r, 'e) event \<Rightarrow> ('s, 'c, 'r, 'e) config \<Rightarrow> ('s, 'c, 'r, 'e) config option" where
  "exec_event C (Op o1) (s, M) = (case cl_op C o1 s of (s', q) \<Rightarrow> Some (s', M + issued q))"
| "exec_event C (Settle r p) (s, M) =
     (if rq_phase r = Waiting \<and> r \<in># M
      then Some (s, M - {# r #} + {# Request (rq_token r) (rq_ctx r) (AtThen p) #}) else None)"
| "exec_event C (Callback r) (s, M) =
     (if rq_phase r \<noteq> Waiting \<and> r \<in># M then Some (run_callback C r s, M - {# r #} + next_phase r) else None)"

lemma exec_event_iff: "exec_event C e cf = Some cf' \<longleftrightarrow> async_step C cf e cf'"
proof -
  obtain s M where cf: "cf = (s, M)" by (rule prod.exhaust)
  show ?thesis
  proof (cases e)
    case (Op o1)
    then show ?thesis by (auto simp: cf intro: async_step.op split: prod.splits)
  next
    case (Settle r p)
    then show ?thesis by (cases r) (auto simp: cf intro: async_step.settle[simplified])
  next
    case (Callback r)
    then show ?thesis using async_step.callback[of r M C s] by (auto simp: cf)
  qed
qed

fun exec_run ::
  "('s, 'o, 'c, 'r, 'e, 'z) client_scheme \<Rightarrow> ('o, 'c, 'r, 'e) event list \<Rightarrow> ('s, 'c, 'r, 'e) config \<Rightarrow> ('s, 'c, 'r, 'e) config option" where
  "exec_run C [] cf = Some cf"
| "exec_run C (e # es) cf = Option.bind (exec_event C e cf) (exec_run C es)"

lemma exec_run_sound: "exec_run C es cf = Some cf' \<Longrightarrow> async_run C cf es cf'"
proof (induction es arbitrary: cf)
  case Nil
  then show ?case by (simp add: run_nil)
next
  case (Cons e es)
  then obtain cf1 where "exec_event C e cf = Some cf1" "exec_run C es cf1 = Some cf'" by (auto simp: bind_eq_Some_conv)
  then show ?case using run_append[OF Cons.IH run_one] by (fastforce simp: exec_event_iff)
qed

text \<open>A response that was delivered during a run.\<close>

definition delivered :: "('o, 'c, 'r, 'e) event list \<Rightarrow> 'c \<Rightarrow> 'r \<Rightarrow> bool" where
  "delivered es c d = (\<exists>t. Callback (Request t c (AtThen (Fulfilled d))) \<in> set es)"

lemma delivered_more: "delivered es c d \<Longrightarrow> delivered (es @ es') c d"
  by (auto simp: delivered_def)

section \<open>Requests drain\<close>

fun phase_weight :: "('r, 'e) phase \<Rightarrow> nat" where
  "phase_weight Waiting = 4"
| "phase_weight (AtThen p) = 3"
| "phase_weight (AtCatch p) = 2"
| "phase_weight AtFinally = 1"

definition load :: "('c, 'r, 'e) request multiset \<Rightarrow> nat" where
  "load M = (\<Sum>r \<in># M. phase_weight (rq_phase r))"

lemma load_remove: "r \<in># M \<Longrightarrow> load M = phase_weight (rq_phase r) + load (M - {# r #})"
  unfolding load_def by (metis image_mset_add_mset insert_DiffM sum_mset.add_mset)

lemma load_add [simp]: "load (M + N) = load M + load N" "load {#} = 0"
  "load (add_mset r M) = phase_weight (rq_phase r) + load M"
  by (simp_all add: load_def)

definition is_op :: "('o, 'c, 'r, 'e) event \<Rightarrow> bool" where
  "is_op e = (case e of Op o1 \<Rightarrow> True | _ \<Rightarrow> False)"

lemma async_step_load:
  assumes "async_step C cf e cf'" "\<not> is_op e"
  shows "load (snd cf') < load (snd cf)"
  using assms
proof cases
  case (settle t c M s p)
  then show ?thesis using load_remove[of "Request t c Waiting" M] by simp
next
  case (callback r M s)
  then show ?thesis using load_remove[of r M] by (cases r; cases "rq_phase r") (auto simp: is_op_def)
qed (simp add: is_op_def)

text \<open>While a request is in flight something can happen to it, so every configuration can drain.\<close>

lemma async_progress: "M \<noteq> {#} \<Longrightarrow> \<exists>e cf'. \<not> is_op e \<and> async_step C (s, M) e cf'"
proof -
  assume "M \<noteq> {#}"
  then obtain r where r: "r \<in># M" by blast
  show ?thesis
  proof (cases "rq_phase r = Waiting")
    case True
    then have "r = Request (rq_token r) (rq_ctx r) Waiting" by (cases r) simp
    with r show ?thesis by (metis async_step.settle is_op_def event.simps(11))
  next
    case False
    with r show ?thesis by (metis async_step.callback is_op_def event.simps(12))
  qed
qed

lemma async_drains: "\<exists>es s'. list_all (Not \<circ> is_op) es \<and> async_run C (s, M) es (s', {#})"
proof (induction "load M" arbitrary: s M rule: less_induct)
  case less
  show ?case
  proof (cases "M = {#}")
    case True
    then show ?thesis by (intro exI[of _ "[]"] exI[of _ s]) (simp add: run_nil)
  next
    case False
    then obtain e s1 M1 where e: "\<not> is_op e" and st: "async_step C (s, M) e (s1, M1)"
      by (metis async_progress prod.exhaust)
    then obtain es s' where "list_all (Not \<circ> is_op) es" "async_run C (s1, M1) es (s', {#})"
      using less async_step_load[OF st e] by fastforce
    with e run_append[OF _ run_one[OF st]] show ?thesis
      by (intro exI[of _ "e # es"] exI[of _ s']) fastforce
  qed
qed

section \<open>Superseded requests\<close>

definition live_requests ::
  "('s, 'o, 'c, 'r, 'e, 'z) client_scheme \<Rightarrow> 's \<Rightarrow> ('c, 'r, 'e) request multiset \<Rightarrow> ('c, 'r, 'e) request multiset" where
  "live_requests C s M = filter_mset (\<lambda>r. rq_token r = cl_token C s) M"

text \<open>The specification: the same component, with every superseded request cancelled at once.\<close>

inductive cancel_run ::
  "('s, 'o, 'c, 'r, 'e, 'z) client_scheme \<Rightarrow> ('s, 'c, 'r, 'e) config \<Rightarrow> ('o, 'c, 'r, 'e) event list \<Rightarrow> ('s, 'c, 'r, 'e) config \<Rightarrow> bool"
  for C cf0 where
  cancel_nil: "cancel_run C cf0 [] cf0"
| cancel_snoc: "cancel_run C cf0 es (s, M) \<Longrightarrow> async_step C (s, M) e (s', M') \<Longrightarrow>
    cancel_run C cf0 (es @ [e]) (s', live_requests C s' M')"

lemma next_phase_token: "r' \<in># next_phase r \<Longrightarrow> rq_token r' = rq_token r"
  by (cases r; cases "rq_phase r") auto

lemma all_replace: "\<forall>x \<in># M. P x \<Longrightarrow> \<forall>x \<in># N. P x \<Longrightarrow> \<forall>x \<in># M - {# r #} + N. P x"
  by (metis in_diffD union_iff)

lemma tokens_replace:
  "r \<in># M \<Longrightarrow> \<forall>x \<in># M. P (rq_token x) \<Longrightarrow> \<forall>x \<in># M - {# r #} + next_phase r. P (rq_token x)"
  by (metis in_diffD next_phase_token union_iff)

lemma live_diff: "r \<in># M \<Longrightarrow> live_requests C s (M - {# r #}) = live_requests C s M - (if rq_token r = cl_token C s then {# r #} else {#})"
  by (simp add: live_requests_def)

lemma live_same: "(\<And>x. x \<in># N \<Longrightarrow> rq_token x = t) \<Longrightarrow> live_requests C s N = (if t = cl_token C s then N else {#})"
  unfolding live_requests_def by (auto simp: multiset_eq_iff) (metis count_eq_zero_iff)+

lemma live_none: "\<forall>r \<in># M. rq_token r \<noteq> cl_token C s \<Longrightarrow> live_requests C s M = {#}"
  by (auto simp: live_requests_def multiset_eq_iff) (metis count_eq_zero_iff)

lemma live_union: "live_requests C s (M + N) = live_requests C s M + live_requests C s N"
  by (simp add: live_requests_def)

lemma live_replace:
  assumes "r \<in># M" "\<And>x. x \<in># N \<Longrightarrow> rq_token x = rq_token r"
  shows "live_requests C s (M - {# r #} + N) =
      (if rq_token r = cl_token C s then live_requests C s M - {# r #} + N else live_requests C s M)"
  using live_same[OF assms(2), of N C s] by (simp add: live_union live_diff[OF assms(1)])

lemma live_idem: "live_requests C s (live_requests C s M) = live_requests C s M"
  by (simp add: live_requests_def filter_filter_mset)

lemma live_in: "r \<in># live_requests C s M \<longleftrightarrow> r \<in># M \<and> rq_token r = cl_token C s"
  by (simp add: live_requests_def)

lemma live_swap:
  assumes "r \<in># M" "\<And>x. x \<in># N \<Longrightarrow> rq_token x = rq_token r" "rq_token r = cl_token C s"
  shows "live_requests C s (live_requests C s M - {# r #} + N) = live_requests C s (M - {# r #} + N)"
  using live_replace[OF assms(1,2), of N C s] live_replace[of r "live_requests C s M" N C s] assms
  by (simp add: live_in live_idem)

locale token_guard =
  fixes C :: "('s, 'o, 'c, 'r, 'e) client" and I :: "'s \<Rightarrow> bool"
  assumes op_inv: "I s \<Longrightarrow> cl_op C o1 s = (s', q) \<Longrightarrow> I s'"
    and op_token: "I s \<Longrightarrow> cl_op C o1 s = (s', q) \<Longrightarrow> cl_token C s \<le> cl_token C s'"
    and op_issues: "I s \<Longrightarrow> cl_op C o1 s = (s', Some (t, c)) \<Longrightarrow> t \<le> cl_token C s'"
    and then_inv: "I s \<Longrightarrow> I (cl_then C t c r s)"
    and catch_inv: "I s \<Longrightarrow> I (cl_catch C t c e s)"
    and finally_inv: "I s \<Longrightarrow> I (cl_finally C t c s)"
    and stale_then: "t \<noteq> cl_token C s \<Longrightarrow> cl_then C t c r s = s"
    and stale_catch: "t \<noteq> cl_token C s \<Longrightarrow> cl_catch C t c e s = s"
    and stale_finally: "t \<noteq> cl_token C s \<Longrightarrow> cl_finally C t c s = s"
    and then_token: "cl_token C (cl_then C t c r s) = cl_token C s"
    and catch_token: "cl_token C (cl_catch C t c e s) = cl_token C s"
    and finally_token: "cl_token C (cl_finally C t c s) = cl_token C s"
begin

lemma callback_inv: "I s \<Longrightarrow> I (run_callback C r s)"
  by (cases "(C, r, s)" rule: run_callback.cases) (auto simp: then_inv catch_inv finally_inv)

lemma callback_token: "cl_token C (run_callback C r s) = cl_token C s"
  by (cases "(C, r, s)" rule: run_callback.cases) (auto simp: then_token catch_token finally_token)

lemma stale_callback: "rq_token r \<noteq> cl_token C s \<Longrightarrow> run_callback C r s = s"
  by (cases "(C, r, s)" rule: run_callback.cases) (auto simp: stale_then stale_catch stale_finally)

lemma step_token:
  "async_step C (s, M) e (s', M') \<Longrightarrow> I s \<Longrightarrow> I s' \<and> cl_token C s \<le> cl_token C s'"
  by (cases e) (auto simp: callback_token callback_inv dest: op_token op_inv)

lemma run_token:
  "async_run C cf0 es cf \<Longrightarrow> I (fst cf0) \<Longrightarrow> I (fst cf) \<and> cl_token C (fst cf0) \<le> cl_token C (fst cf)"
proof (induction rule: async_run.induct)
  case (run_snoc es cf e cf')
  then show ?case using step_token[of "fst cf" "snd cf" e "fst cf'" "snd cf'"] by simp
qed simp

lemma tokens_bounded:
  "async_run C cf0 es cf \<Longrightarrow> I (fst cf0) \<Longrightarrow> \<forall>r \<in># snd cf0. rq_token r \<le> cl_token C (fst cf0) \<Longrightarrow>
    \<forall>r \<in># snd cf. rq_token r \<le> cl_token C (fst cf)"
proof (induction rule: async_run.induct)
  case (run_snoc es cf e cf')
  obtain s M where cf: "cf = (s, M)" by (rule prod.exhaust)
  have inv: "I s" using run_token[OF run_snoc.hyps(1)] run_snoc.prems cf by simp
  have IH: "\<And>r. r \<in># M \<Longrightarrow> rq_token r \<le> cl_token C s" using run_snoc.IH run_snoc.prems cf by simp
  from run_snoc.hyps(2)[unfolded cf] show ?case
  proof cases
    case (op o1 s' q)
    have "rq_token r \<le> cl_token C s'" if "r \<in># issued q" for r
      using that op_issues[of s o1 s'] inv op(3) by (cases q) (auto simp: issued_def)
    with op IH op_token[OF inv op(3)] show ?thesis by (auto intro: le_trans)
  next
    case (settle t c p)
    with IH[of "Request t c Waiting"] IH show ?thesis by (auto dest: in_diffD)
  next
    case (callback r)
    have "rq_token x \<le> cl_token C s" if "x \<in># M - {# r #} + next_phase r" for x
      using that IH[of x] IH[OF callback(3)] next_phase_token[of x r] by (auto dest: in_diffD)
    with callback show ?thesis by (auto simp: callback_token)
  qed
qed simp

lemma guard_refines:
  "async_run C (s0, {#}) es (s, M) \<Longrightarrow> I s0 \<Longrightarrow>
    \<exists>es'. subseq es' es \<and> cancel_run C (s0, {#}) es' (s, live_requests C s M)"
proof (induction es arbitrary: s M rule: rev_induct)
  case Nil
  then show ?case by (auto simp: live_requests_def intro!: cancel_nil)
next
  case (snoc e es)
  then obtain s1 M1 where run: "async_run C (s0, {#}) es (s1, M1)" and st: "async_step C (s1, M1) e (s, M)"
    by (auto elim: async_run.cases)
  obtain es' where sub: "subseq es' es" and spec: "cancel_run C (s0, {#}) es' (s1, live_requests C s1 M1)"
    using snoc.IH[OF run snoc.prems(2)] by blast
  have bound: "\<And>r. r \<in># M1 \<Longrightarrow> rq_token r \<le> cl_token C s1" using tokens_bounded[OF run] snoc.prems(2) by simp
  have inv: "I s1" using run_token[OF run] snoc.prems(2) by simp
  have stutter: ?case if "s = s1" "live_requests C s M = live_requests C s1 M1"
    using that spec list_emb_prefix[OF sub, of "[e]"] by (intro exI[of _ es'] conjI) simp_all
  have follow: ?case if "async_step C (s1, live_requests C s1 M1) e (s, N)" "live_requests C s N = live_requests C s M" for N
    using cancel_snoc[OF spec that(1)] that(2) list_emb_append_mono[OF sub, of "[e]" "[e]"]
    by (intro exI[of _ "es' @ [e]"] conjI) simp_all
  from st show ?case
  proof cases
    case (op o1 q)
    have old: "live_requests C s (live_requests C s1 M1) = live_requests C s M1"
      unfolding live_requests_def filter_filter_mset
      using bound op_token[OF inv op(3)] by (intro filter_mset_cong refl) (metis le_antisym)
    show ?thesis
    proof (rule follow)
      show "async_step C (s1, live_requests C s1 M1) e (s, live_requests C s1 M1 + issued q)"
        unfolding op(1) using op(3) by (rule async_step.op)
      show "live_requests C s (live_requests C s1 M1 + issued q) = live_requests C s M"
        by (simp add: op(2) live_union old)
    qed
  next
    case (settle t c p)
    show ?thesis
    proof (cases "t = cl_token C s1")
      case True
      let ?N = "live_requests C s1 M1 - {# Request t c Waiting #} + {# Request t c (AtThen p) #}"
      have "live_requests C s ?N = live_requests C s M"
        using live_swap[of "Request t c Waiting" M1 "{# Request t c (AtThen p) #}" C s1] settle True by simp
      moreover have "async_step C (s1, live_requests C s1 M1) e (s, ?N)"
        unfolding settle(1,2) by (rule async_step.settle) (use settle(4) True in \<open>simp add: live_in\<close>)
      ultimately show ?thesis by (rule follow[rotated])
    next
      case False
      then have "live_requests C s M = live_requests C s1 M1"
        unfolding settle(2,3) using live_replace[OF settle(4), of "{# Request t c (AtThen p) #}" C s1] by simp
      then show ?thesis by (rule stutter[OF settle(2)])
    qed
  next
    case (callback r)
    show ?thesis
    proof (cases "rq_token r = cl_token C s1")
      case True
      let ?N = "live_requests C s1 M1 - {# r #} + next_phase r"
      have tok: "cl_token C s = cl_token C s1" using callback by (simp add: callback_token)
      have same: "live_requests C s X = live_requests C s1 X" for X by (simp add: live_requests_def tok)
      have "live_requests C s ?N = live_requests C s M"
        unfolding same callback(3) using live_swap[OF callback(4) next_phase_token True] .
      moreover have "async_step C (s1, live_requests C s1 M1) e (s, ?N)"
        unfolding callback(1,2) by (rule async_step.callback) (simp_all add: live_in callback(4,5) True)
      ultimately show ?thesis by (rule follow[rotated])
    next
      case False
      then have "live_requests C s1 M = live_requests C s1 M1"
        unfolding callback(3) using live_replace[OF callback(4) next_phase_token, where C = C and s = s1] by simp
      then show ?thesis using callback(2) stale_callback[OF False] by (intro stutter) simp_all
    qed
  qed
qed

end

end
