(* ===== verification/Knowledge.thy ===== *)
theory Knowledge
  imports Prelude
begin

text \<open>
  What a view may claim about what it shows (\<open>lib/knowledgeState.ts\<close>): a snapshot's
  knowledge level from its meta envelope, the caveat sentence, the classification of a
  failure, the one view state machine and the gate on any all-clear.

  The error classes are those of \<open>lib/api.ts\<close>; a value that is thrown without being an
  \<open>Error\<close> is kept by the text \<open>String\<close> gives for it.
\<close>

section \<open>Errors\<close>

datatype api_err =
    SchemaCompatibilityError string
  | ApiContractError string
  | ApiError int string string
  | OtherError string
  | Thrown string

text \<open>\<open>error instanceof Error ? error.message : String(error)\<close>.\<close>

fun err_text :: "api_err \<Rightarrow> string" where
  "err_text (SchemaCompatibilityError m) = m"
| "err_text (ApiContractError m) = m"
| "err_text (ApiError status m code) = m"
| "err_text (OtherError m) = m"
| "err_text (Thrown s) = s"

datatype error_kind = NotFound | SchemaFault | BackendFault

fun classifyError :: "api_err \<Rightarrow> error_kind" where
  "classifyError (SchemaCompatibilityError m) = SchemaFault"
| "classifyError (ApiContractError m) = SchemaFault"
| "classifyError (ApiError status m code) = (if status = 404 then NotFound else BackendFault)"
| "classifyError (OtherError m) = BackendFault"
| "classifyError (Thrown s) = BackendFault"

section \<open>Knowledge of a snapshot\<close>

datatype level = Complete | EmptyLevel | PartialLevel | Stale | Unavailable | UnknownLevel

record knowledge =
  k_level :: level
  k_degraded :: int
  k_stale :: int
  k_unavailable :: int
  k_incomplete :: bool
  k_bounded :: bool

record source_counts =
  sc_partial :: "int option"
  sc_stale :: "int option"
  sc_unavailable :: "int option"

text \<open>A meta envelope; a source of the preview is its optional status.\<close>

record meta =
  mt_completeness :: "string option"
  mt_sources :: "string option list option"
  mt_truncated :: bool
  mt_counts :: "source_counts option"

definition count_health :: "string \<Rightarrow> string option list \<Rightarrow> int" where
  "count_health h sources = int (length (filter (\<lambda>s. s = Some h) sources))"

definition source_tally :: "meta \<Rightarrow> int \<times> int \<times> int" where
  "source_tally m =
     (case mt_counts m of
        Some c \<Rightarrow> (nullish (sc_partial c) 0, nullish (sc_stale c) 0, nullish (sc_unavailable c) 0)
      | None \<Rightarrow>
          let ss = nullish (mt_sources m) []
          in (count_health ''partial'' ss, count_health ''stale'' ss, count_health ''unavailable'' ss))"

definition snapshot_level :: "int \<times> int \<times> int \<Rightarrow> string option \<Rightarrow> level" where
  "snapshot_level tally completeness =
     (case tally of (degraded, stale, unavailable) \<Rightarrow>
        if 0 < unavailable then Unavailable
        else if 0 < stale then Stale
        else if 0 < degraded then PartialLevel
        else if completeness = Some ''partial'' then PartialLevel
        else if completeness = Some ''complete'' then Complete
        else if completeness = Some ''empty'' then EmptyLevel
        else UnknownLevel)"

definition snapshotKnowledge :: "meta option \<Rightarrow> knowledge" where
  "snapshotKnowledge mt =
     (case mt of
        None \<Rightarrow> \<lparr> k_level = UnknownLevel, k_degraded = 0, k_stale = 0, k_unavailable = 0,
                  k_incomplete = True, k_bounded = False \<rparr>
      | Some m \<Rightarrow>
          let tally = source_tally m; level = snapshot_level tally (mt_completeness m)
          in \<lparr> k_level = level, k_degraded = fst tally, k_stale = fst (snd tally), k_unavailable = snd (snd tally),
               k_incomplete = (level \<noteq> Complete \<and> level \<noteq> EmptyLevel),
               k_bounded = (mt_counts m = None \<and> mt_truncated m) \<rparr>)"

section \<open>The caveat sentence\<close>

definition add_clause :: "string list \<Rightarrow> int \<times> string \<Rightarrow> string list" where
  "add_clause clauses nw =
     (case nw of (n, word) \<Rightarrow>
        if n \<le> 0 then clauses
        else clauses @
          [(if clauses = [] then show_int n @ '' data source'' @ (if n = 1 then [] else ''s'') else show_int n)
             @ '' '' @ (if n = 1 then ''is'' else ''are'') @ '' '' @ word])"

definition degradedSourceSummary :: "knowledge \<Rightarrow> string" where
  "degradedSourceSummary k =
     (let clauses = foldl add_clause []
            [(k_unavailable k, ''unavailable''), (k_stale k, ''stale''), (k_degraded k, ''partial'')]
      in if clauses = [] then []
         else
           let sentence = (if length clauses = 1 then hd clauses
             else join '', '' (butlast clauses) @ '' and '' @ last clauses)
           in if k_bounded k then ''at least '' @ sentence else sentence)"

section \<open>The view state\<close>

datatype view_state =
    Loading
  | BackendError string
  | SchemaError string
  | NotFoundState string
  | EmptyFleet
  | EmptyUnknown knowledge
  | FilteredEmpty knowledge
  | ReadyState knowledge bool "api_err option"

record view_input =
  vi_loading :: bool
  vi_error :: "api_err option"
  vi_itemCount :: int
  vi_filtered :: bool
  vi_knowledge :: "knowledge option"

definition decideViewState :: "view_input \<Rightarrow> view_state" where
  "decideViewState v =
     (let knowledge = nullish (vi_knowledge v) (snapshotKnowledge None) in
      if 0 < vi_itemCount v then ReadyState knowledge (vi_loading v) (vi_error v)
      else if vi_loading v then Loading
      else case vi_error v of
          Some e \<Rightarrow>
            (case classifyError e of
               NotFound \<Rightarrow> NotFoundState (err_text e)
             | SchemaFault \<Rightarrow> SchemaError (err_text e)
             | BackendFault \<Rightarrow> BackendError (err_text e))
        | None \<Rightarrow>
            if vi_filtered v then FilteredEmpty knowledge
            else if k_incomplete knowledge then EmptyUnknown knowledge
            else EmptyFleet)"

definition allClearAllowed :: "knowledge \<Rightarrow> int \<Rightarrow> bool" where
  "allClearAllowed k attentionCount = (\<not> k_incomplete k \<and> attentionCount \<le> 0)"

section \<open>Nothing unknown reads as health\<close>

text \<open>No source is counted as anything but healthy.\<close>

definition sources_healthy :: "meta \<Rightarrow> bool" where
  "sources_healthy m =
     (case mt_counts m of
        Some c \<Rightarrow> list_all (\<lambda>n. nullish n 0 \<le> 0) [sc_partial c, sc_stale c, sc_unavailable c]
      | None \<Rightarrow> list_all (\<lambda>s. s \<notin> {Some ''partial'', Some ''stale'', Some ''unavailable''}) (nullish (mt_sources m) []))"

lemma count_health_none: "count_health h ss \<le> 0 \<longleftrightarrow> list_all (\<lambda>s. s \<noteq> Some h) ss"
  by (auto simp: count_health_def filter_empty_conv list_all_iff)

lemma sources_healthy_tally:
  "sources_healthy m \<longleftrightarrow> fst (source_tally m) \<le> 0 \<and> fst (snd (source_tally m)) \<le> 0 \<and> snd (snd (source_tally m)) \<le> 0"
  by (cases "mt_counts m")
    (auto simp: sources_healthy_def source_tally_def count_health_none list_all_iff Let_def)

lemma snapshot_complete:
  "\<not> k_incomplete (snapshotKnowledge mt) \<longleftrightarrow>
     (\<exists>m. mt = Some m \<and> sources_healthy m \<and> mt_completeness m \<in> {Some ''complete'', Some ''empty''})"
proof (cases mt)
  case (Some m)
  obtain d s u where t: "source_tally m = (d, s, u)" by (metis prod_cases3)
  show ?thesis unfolding Some
    by (auto simp: snapshotKnowledge_def Let_def t snapshot_level_def sources_healthy_tally split: if_splits)
qed (simp add: snapshotKnowledge_def)

text \<open>C3: Nothing unknown reads as health.  An all-clear is allowed exactly when there is no attention
  item, the snapshot has a meta envelope, every source of the full tally (or of the preview,
  when no tally came) is healthy, and the declared completeness is complete or empty.\<close>

theorem all_clear_exactly:
  "allClearAllowed (snapshotKnowledge mt) n \<longleftrightarrow>
     n \<le> 0 \<and> (case mt of None \<Rightarrow> False
       | Some m \<Rightarrow> sources_healthy m \<and> mt_completeness m \<in> {Some ''complete'', Some ''empty''})"
  unfolding allClearAllowed_def snapshot_complete by (cases mt) auto

text \<open>C37: Each screen of the view state machine is shown exactly under its condition, with exactly
  what it carries.  Rows on hand are always shown, with the knowledge, the refresh in flight and
  its failure beside them; the loading screen means nothing on hand and a request in flight; a
  failed request shows the failure's own text, as not found for a 404, as a schema fault for a
  version or contract mismatch and as a backend fault otherwise; and an empty answer is a
  filtered one under a filter, an unknown one when the knowledge is incomplete (as it is when
  none came), and an empty fleet only when it is complete.\<close>

theorem decideViewState_exact:
  fixes v :: view_input
  defines "known \<equiv> (case vi_knowledge v of Some k \<Rightarrow> k | None \<Rightarrow> snapshotKnowledge None)"
    and "failed \<equiv> (\<lambda>e. vi_itemCount v \<le> 0 \<and> \<not> vi_loading v \<and> vi_error v = Some e)"
    and "nothing \<equiv> (vi_itemCount v \<le> 0 \<and> \<not> vi_loading v \<and> vi_error v = None)"
  shows "(decideViewState v = ReadyState k r e) = (0 < vi_itemCount v \<and> k = known \<and> r = vi_loading v \<and> e = vi_error v) \<and>
   (decideViewState v = Loading) = (vi_itemCount v \<le> 0 \<and> vi_loading v) \<and>
   (decideViewState v = NotFoundState m) = (\<exists>code. failed (ApiError 404 m code)) \<and>
   (decideViewState v = SchemaError m) = (failed (SchemaCompatibilityError m) \<or> failed (ApiContractError m)) \<and>
   (decideViewState v = BackendError m) =
     (failed (OtherError m) \<or> failed (Thrown m) \<or> (\<exists>status code. status \<noteq> 404 \<and> failed (ApiError status m code))) \<and>
   (decideViewState v = FilteredEmpty k) = (nothing \<and> vi_filtered v \<and> k = known) \<and>
   (decideViewState v = EmptyUnknown k) = (nothing \<and> \<not> vi_filtered v \<and> k_incomplete known \<and> k = known) \<and>
   (decideViewState v = EmptyFleet) = (nothing \<and> \<not> vi_filtered v \<and> \<not> k_incomplete known)"
proof -
  have n: "nullish (vi_knowledge v) (snapshotKnowledge None) = known" by (simp add: known_def nullish_def)
  consider (ready) "0 < vi_itemCount v" | (load) "vi_itemCount v \<le> 0" "vi_loading v" | (fail) x where "vi_itemCount v \<le> 0" "\<not> vi_loading v" "vi_error v = Some x"
    | (none) "vi_itemCount v \<le> 0" "\<not> vi_loading v" "vi_error v = None" by (cases "vi_error v") (use linorder_not_less in auto)
  then show ?thesis
  proof cases
    case ready
    then show ?thesis by (auto simp: decideViewState_def n Let_def failed_def nothing_def)
  next
    case load
    then show ?thesis by (auto simp: decideViewState_def Let_def failed_def nothing_def)
  next
    case fail
    then show ?thesis by (cases x) (auto simp: decideViewState_def Let_def failed_def nothing_def)
  next
    case none
    then show ?thesis by (auto simp: decideViewState_def n Let_def failed_def nothing_def)
  qed
qed

theorem decideViewState_exact_witness:
  "decideViewState \<lparr> vi_loading = False, vi_error = Some (ApiContractError ''x''), vi_itemCount = 0, vi_filtered = True, vi_knowledge = None \<rparr> = SchemaError ''x''"
  using decideViewState_exact[of "\<lparr> vi_loading = False, vi_error = Some (ApiContractError ''x''), vi_itemCount = 0, vi_filtered = True, vi_knowledge = None \<rparr>"
      _ _ _ "''x''"] by simp

text \<open>The caveat is empty exactly when no source is degraded.\<close>

lemma degradedSourceSummary_empty:
  "degradedSourceSummary k = [] \<longleftrightarrow> k_unavailable k \<le> 0 \<and> k_stale k \<le> 0 \<and> k_degraded k \<le> 0"
  by (auto simp: degradedSourceSummary_def Let_def add_clause_def split: if_splits)

end
