(* ===== verification/Loader.thy ===== *)
theory Loader
  imports Async Knowledge
begin

text \<open>
  The product-list loader (\<open>lib/productLoader.svelte.ts\<close>): one request per changed question,
  a generation token on every write, and the state a list view renders.  The fetcher is the
  environment: it settles a request with any outcome, or never.
\<close>

section \<open>The loader\<close>

record ('d, 't) loader =
  l_data :: "'d option"
  l_loading :: bool
  l_error :: "api_err option"
  l_dataTag :: "'t option"
  l_dataFamily :: "'t option"
  l_generation :: nat
  l_lastKey :: "string option"
  l_lastTag :: "'t option"
  l_lastFamily :: "'t option"

definition createProductLoader :: "('d, 't) loader" where
  "createProductLoader = \<lparr> l_data = None, l_loading = True, l_error = None, l_dataTag = None, l_dataFamily = None,
     l_generation = 0, l_lastKey = None, l_lastTag = None, l_lastFamily = None \<rparr>"

text \<open>A request remembers the tag and the family it was issued for.\<close>

type_synonym 't ctx = "'t option \<times> 't option"

definition run_loader :: "'t ctx \<Rightarrow> ('d, 't) loader \<Rightarrow> ('d, 't) loader \<times> (nat \<times> 't ctx) option" where
  "run_loader c l =
     (let gen = Suc (l_generation l)
      in (l\<lparr> l_generation := gen, l_loading := True, l_error := None \<rparr>, Some (gen, c)))"

definition sync :: "string \<Rightarrow> 't ctx \<Rightarrow> ('d, 't) loader \<Rightarrow> ('d, 't) loader \<times> (nat \<times> 't ctx) option" where
  "sync key c l =
     (if Some key \<noteq> l_lastKey l
      then run_loader c (l\<lparr> l_lastKey := Some key, l_lastTag := fst c, l_lastFamily := snd c \<rparr>)
      else (l, None))"

definition refresh :: "('d, 't) loader \<Rightarrow> ('d, 't) loader \<times> (nat \<times> 't ctx) option" where
  "refresh l = run_loader (l_lastTag l, l_lastFamily l) l"

definition destroy :: "('d, 't) loader \<Rightarrow> ('d, 't) loader" where
  "destroy l = l\<lparr> l_generation := Suc (l_generation l) \<rparr>"

definition load_then :: "nat \<Rightarrow> 't ctx \<Rightarrow> 'd \<Rightarrow> ('d, 't) loader \<Rightarrow> ('d, 't) loader" where
  "load_then gen c res l =
     (if gen = l_generation l then l\<lparr> l_data := Some res, l_dataTag := fst c, l_dataFamily := snd c \<rparr> else l)"

definition load_catch :: "nat \<Rightarrow> 't ctx \<Rightarrow> api_err option \<Rightarrow> ('d, 't) loader \<Rightarrow> ('d, 't) loader" where
  "load_catch gen c e l = (if gen = l_generation l then l\<lparr> l_error := e \<rparr> else l)"

definition load_finally :: "nat \<Rightarrow> 't ctx \<Rightarrow> ('d, 't) loader \<Rightarrow> ('d, 't) loader" where
  "load_finally gen c l = (if gen = l_generation l then l\<lparr> l_loading := False \<rparr> else l)"

definition answer :: "'t option \<Rightarrow> 't option \<Rightarrow> ('d, 't) loader \<Rightarrow> 'd option \<times> bool" where
  "answer tag family l =
     (if l_dataTag l = tag then (l_data l, False)
      else
        let paging = (l_data l \<noteq> None \<and> family \<noteq> None \<and> l_dataFamily l = family \<and> l_error l = None)
        in (if paging then l_data l else None, paging))"

datatype 't loader_op = Sync string "'t ctx" | Refresh | Destroy

fun apply_op :: "'t loader_op \<Rightarrow> ('d, 't) loader \<Rightarrow> ('d, 't) loader \<times> (nat \<times> 't ctx) option" where
  "apply_op (Sync key c) l = sync key c l"
| "apply_op Refresh l = refresh l"
| "apply_op Destroy l = (destroy l, None)"

definition loader_client :: "(('d, 't) loader, 't loader_op, 't ctx, 'd, api_err) client" where
  "loader_client = \<lparr> cl_token = l_generation, cl_op = apply_op, cl_then = load_then, cl_catch = load_catch,
     cl_finally = load_finally \<rparr>"

section \<open>What a list view renders\<close>

record 'd list_state =
  ls_data :: "'d option"
  ls_paging :: bool
  ls_knowledge :: knowledge
  ls_count :: nat
  ls_state :: view_state
  ls_refreshError :: "api_err option"
  ls_revalidating :: bool
  ls_skeletonRows :: nat

record 't list_query =
  q_tag :: "'t option"
  q_family :: "'t option"
  q_filtered :: bool
  q_pageLimit :: nat

definition productListState ::
  "('d \<Rightarrow> meta option) \<Rightarrow> ('d \<Rightarrow> 'r list option) \<Rightarrow> 't list_query \<Rightarrow> ('d, 't) loader \<Rightarrow> 'd list_state" where
  "productListState meta_of rows q l =
     (let a = answer (q_tag q) (q_family q) l;
          knowledge = snapshotKnowledge (Option.bind (fst a) meta_of);
          count_of = (\<lambda>d. case d of None \<Rightarrow> 0 | Some x \<Rightarrow> length (nullish (rows x) []));
          n = count_of (fst a);
          state = decideViewState \<lparr> vi_loading = l_loading l, vi_error = l_error l, vi_itemCount = int n,
            vi_filtered = q_filtered q, vi_knowledge = Some knowledge \<rparr>
      in \<lparr> ls_data = fst a, ls_paging = snd a, ls_knowledge = knowledge, ls_count = n, ls_state = state,
           ls_refreshError = (case state of ReadyState k r e \<Rightarrow> e | _ \<Rightarrow> None),
           ls_revalidating = (case state of ReadyState k r e \<Rightarrow> r | _ \<Rightarrow> False),
           ls_skeletonRows = (if count_of (l_data l) \<noteq> 0 then count_of (l_data l) else q_pageLimit q) \<rparr>)"

section \<open>The token guards every write\<close>

lemmas loader_defs = loader_client_def sync_def refresh_def run_loader_def destroy_def load_then_def load_catch_def
  load_finally_def

interpretation lg: token_guard "loader_client :: (('d, 't) loader, 't loader_op, 't ctx, 'd, api_err) client" "\<lambda>_. True"
proof (unfold_locales, goal_cases)
  case (2 s o1 s' q)
  then show ?case by (cases o1) (auto simp: loader_defs Let_def split: if_splits)
next
  case (3 s o1 s' t c)
  then show ?case by (cases o1) (auto simp: loader_defs Let_def split: if_splits)
qed (simp_all add: loader_defs)

text \<open>C1: A superseded request has no effect, whatever the interleaving.  Every state the loader reaches
  together with all its requests in flight is reached, by a subsequence of the same events, by
  the loader that cancels each request at the moment a newer one is issued or the loader is
  destroyed.\<close>

theorem loader_refines_cancelling:
  assumes "async_run loader_client (createProductLoader, {#}) es (l, M)"
  shows "\<exists>es'. subseq es' es \<and>
    cancel_run loader_client (createProductLoader, {#}) es' (l, live_requests loader_client l M)"
  using lg.guard_refines[OF assms TrueI] .

section \<open>What is drawn answers the question\<close>

definition data_known :: "('o, 't ctx, 'd, 'e) event list \<Rightarrow> ('d, 't) loader \<Rightarrow> bool" where
  "data_known es l = (case l_data l of
      None \<Rightarrow> l_dataTag l = None \<and> l_dataFamily l = None
    | Some d \<Rightarrow> delivered es (l_dataTag l, l_dataFamily l) d)"

lemma loader_ops_keep_data:
  "apply_op o1 l = (l', q) \<Longrightarrow> l_data l' = l_data l \<and> l_dataTag l' = l_dataTag l \<and> l_dataFamily l' = l_dataFamily l"
  by (cases o1) (auto simp: loader_defs Let_def split: if_splits)

lemma loader_data_known:
  "async_run loader_client (createProductLoader, {#}) es cf \<Longrightarrow> data_known es (fst cf)"
proof (induction rule: async_run.induct)
  case run_nil
  then show ?case by (simp add: data_known_def createProductLoader_def)
next
  case (run_snoc es cf e cf')
  obtain l M where cf: "cf = (l, M)" by (rule prod.exhaust)
  have keep: "data_known (es @ [e]) l'"
    if "l_data l' = l_data l" "l_dataTag l' = l_dataTag l" "l_dataFamily l' = l_dataFamily l" for l'
    using run_snoc.IH that by (auto simp: data_known_def cf delivered_more split: option.splits)
  from run_snoc.hyps(2)[unfolded cf] show ?case
  proof cases
    case (op o1 l' q)
    then show ?thesis using keep loader_ops_keep_data[of o1 l l' q] by (simp add: loader_client_def)
  next
    case (settle t c p)
    then show ?thesis using keep by simp
  next
    case (callback r)
    obtain t c p where r: "r = Request t c p" by (cases r)
    show ?thesis
    proof (cases "\<exists>d. p = AtThen (Fulfilled d) \<and> t = l_generation l")
      case True
      then show ?thesis using callback r
        by (auto simp: data_known_def delivered_def loader_client_def load_then_def)
    next
      case False
      then have "l_data (run_callback loader_client r l) = l_data l \<and> l_dataTag (run_callback loader_client r l) = l_dataTag l \<and>
          l_dataFamily (run_callback loader_client r l) = l_dataFamily l"
        by (auto simp: r run_callback_case loader_defs split: phase.splits outcome.splits)
      then show ?thesis using callback keep by simp
    qed
  qed
qed

text \<open>C12: A list view never shows the rows of another question.  When it draws an answer, that answer was
  delivered for exactly the question asked -- or, marked as paging and only while no failure is
  pending, for another page of the same list.\<close>

theorem list_shows_its_question:
  fixes q :: "'t list_query" and l :: "('d, 't) loader"
  assumes "async_run loader_client (createProductLoader, {#}) es (l, M)"
    and "ls_data (productListState meta_of rows q l) = Some d"
  shows "\<exists>c. delivered es c d \<and>
    (if ls_paging (productListState meta_of rows q l)
     then snd c = q_family q \<and> q_family q \<noteq> None \<and> l_error l = None
     else fst c = q_tag q)"
proof -
  have known: "data_known es l" using loader_data_known[OF assms(1)] by simp
  have a: "fst (answer (q_tag q) (q_family q) l) = Some d" using assms(2) by (simp add: productListState_def Let_def)
  have p: "ls_paging (productListState meta_of rows q l) = snd (answer (q_tag q) (q_family q) l)"
    by (simp add: productListState_def Let_def)
  from a have d: "l_data l = Some d" by (auto simp: answer_def Let_def split: if_splits)
  with known have "delivered es (l_dataTag l, l_dataFamily l) d" by (simp add: data_known_def)
  moreover have "if snd (answer (q_tag q) (q_family q) l)
     then l_dataFamily l = q_family q \<and> q_family q \<noteq> None \<and> l_error l = None else l_dataTag l = q_tag q"
    using a by (auto simp: answer_def Let_def split: if_splits)
  ultimately show ?thesis unfolding p by (metis fst_conv snd_conv)
qed

section \<open>The newest request always ends the loading state\<close>

text \<open>While the loader is not destroyed: at most one request is current, and loading means that it has
  not finished, or that none was ever issued.\<close>

definition settling :: "('d, 't) loader \<times> ('t ctx, 'd, api_err) request multiset \<Rightarrow> bool" where
  "settling cf = (case cf of (l, M) \<Rightarrow>
     (\<forall>r \<in># M. 0 < rq_token r) \<and> size (live_requests loader_client l M) \<le> 1 \<and>
     l_loading l = (l_generation l = 0 \<or> live_requests loader_client l M \<noteq> {#}))"

lemma live_fresh:
  assumes "\<And>r. r \<in># M \<Longrightarrow> rq_token r \<le> l_generation l" "l_generation l' = Suc (l_generation l)"
  shows "live_requests loader_client l' M = {#}"
proof -
  have "\<forall>r \<in># M. rq_token r \<noteq> cl_token loader_client l'"
    using assms by (fastforce simp: loader_client_def)
  then show ?thesis by (rule live_none)
qed

lemma loader_settling:
  "async_run loader_client (createProductLoader, {#}) es cf \<Longrightarrow> Op Destroy \<notin> set es \<Longrightarrow> settling cf"
proof (induction rule: async_run.induct)
  case run_nil
  then show ?case by (simp add: settling_def live_requests_def createProductLoader_def)
next
  case (run_snoc es cf e cf')
  obtain l M where cf: "cf = (l, M)" by (rule prod.exhaust)
  have IH: "settling (l, M)" using run_snoc cf by simp
  have bound: "\<And>r. r \<in># M \<Longrightarrow> rq_token r \<le> l_generation l"
    using lg.tokens_bounded[OF run_snoc.hyps(1)] by (simp add: cf loader_client_def)
  from run_snoc.hyps(2)[unfolded cf] show ?case
  proof cases
    case (op o1 l' q)
    have new: "\<exists>c. cf' = (l', M + {# Request (l_generation l') c Waiting #}) \<and> l_loading l'" if "q \<noteq> None"
      using op that by (cases o1) (auto simp: loader_defs issued_def Let_def split: if_splits)
    show ?thesis
    proof (cases q)
      case None
      then have "l' = l" using op run_snoc.prems by (cases o1) (auto simp: loader_defs Let_def split: if_splits)
      then show ?thesis using op None IH by (simp add: issued_def)
    next
      case (Some a)
      then have g: "l_generation l' = Suc (l_generation l)"
        using op by (cases o1) (auto simp: loader_defs Let_def split: if_splits)
      then have "live_requests loader_client l' M = {#}" using bound by (intro live_fresh) auto
      moreover have "\<forall>r \<in># M. 0 < rq_token r" using IH by (simp add: settling_def)
      ultimately show ?thesis using new Some g
        by (auto simp: settling_def live_union simp del: union_mset_add_mset_right)
           (auto simp: live_requests_def loader_client_def)
    qed
  next
    case (settle t c p)
    have "live_requests loader_client l (M - {# Request t c Waiting #} + {# Request t c (AtThen p) #}) =
      (if t = l_generation l then live_requests loader_client l M - {# Request t c Waiting #} + {# Request t c (AtThen p) #}
       else live_requests loader_client l M)"
      using live_replace[OF settle(3), of "{# Request t c (AtThen p) #}" loader_client l] by (simp add: loader_client_def)
    moreover have "Request t c Waiting \<in># live_requests loader_client l M" if "t = l_generation l"
      using settle that by (simp add: live_in loader_client_def)
    ultimately show ?thesis using settle IH by (auto simp: settling_def size_Diff_singleton dest: in_diffD)
  next
    case (callback r)
    obtain t c p where r: "r = Request t c p" by (cases r)
    have ok: "\<forall>x \<in># M. 0 < rq_token x" using IH by (simp add: settling_def)
    have pos: "0 < t" "\<forall>x \<in># M - {# r #} + next_phase r. 0 < rq_token x"
      using ok callback(3) r tokens_replace[OF callback(3) ok] by auto
    let ?l = "run_callback loader_client r l"
    have gen: "l_generation ?l = l_generation l" using lg.callback_token[of r l] by (simp add: loader_client_def)
    have live: "live_requests loader_client ?l (M - {# r #} + next_phase r) =
        (if t = l_generation l then live_requests loader_client l M - {# r #} + next_phase r else live_requests loader_client l M)"
      using live_replace[OF callback(3) next_phase_token, where C = loader_client and s = l] gen
      by (simp add: live_requests_def loader_client_def r)
    show ?thesis
    proof (cases "t = l_generation l")
      case False
      then have "?l = l" using lg.stale_callback[of r l] by (simp add: r loader_client_def)
      then show ?thesis using callback IH live False pos by (simp add: settling_def)
    next
      case True
      then have "r \<in># live_requests loader_client l M" using callback by (simp add: live_in r loader_client_def)
      then have "live_requests loader_client l M = {# r #}"
        using IH by (metis (no_types, lifting) One_nat_def add_mset_remove_trivial_eq diff_is_0_eq' empty_neutral(1)
          settling_def case_prodD size_Diff_singleton size_eq_0_iff_empty)
      then show ?thesis using callback IH live True pos gen
        by (cases p) (auto simp: settling_def r run_callback_case loader_defs split: outcome.splits)
    qed
  qed
qed

lemma run_split: "async_run C cf0 es1 cf1 \<Longrightarrow> async_run C cf1 es2 cf2 \<Longrightarrow> async_run C cf0 (es1 @ es2) cf2"
  using run_append by blast

text \<open>C14: Loading ends.  Once the loader asked a question and as long as it is not destroyed, the requests in
  flight can always be driven to their end, and whenever none is left -- in whatever order their
  callbacks ran -- the loading state is over.\<close>

theorem loader_settles:
  assumes run: "async_run loader_client (createProductLoader, {#}) es (l, M)"
    and alive: "Op Destroy \<notin> set es" and asked: "0 < l_generation l"
  shows "(\<exists>es' l'. list_all (Not \<circ> is_op) es' \<and> async_run loader_client (l, M) es' (l', {#})) \<and>
    (\<forall>es' l'. list_all (Not \<circ> is_op) es' \<and> async_run loader_client (l, M) es' (l', {#}) \<longrightarrow> \<not> l_loading l')"
proof (intro conjI allI impI)
  show "\<exists>es' l'. list_all (Not \<circ> is_op) es' \<and> async_run loader_client (l, M) es' (l', {#})" by (rule async_drains)
next
  fix es' l' assume a: "list_all (Not \<circ> is_op) es' \<and> async_run loader_client (l, M) es' (l', {#})"
  then have "Op Destroy \<notin> set (es @ es')" using alive by (auto simp: list_all_iff is_op_def)
  with run a have "settling (l', {#})" by (intro loader_settling[OF run_split]) auto
  moreover have "l_generation l \<le> l_generation l'"
    using a lg.run_token[of "(l, M)" es' "(l', {#})"] by (simp add: loader_client_def)
  ultimately show "\<not> l_loading l'" using asked by (auto simp: settling_def live_requests_def)
qed

section \<open>Two questions, answered out of order\<close>

text \<open>The loader asks \<open>a\<close>, then \<open>b\<close>; \<open>a\<close> is answered first, \<open>b\<close> second.\<close>

definition demo_events :: "(nat loader_op, nat ctx, string, api_err) event list" where
  "demo_events =
     [Op (Sync ''a'' (Some 1, Some 0)), Op (Sync ''b'' (Some 2, Some 0)),
      Settle (Request 1 (Some 1, Some 0) Waiting) (Fulfilled ''old''),
      Callback (Request 1 (Some 1, Some 0) (AtThen (Fulfilled ''old''))),
      Settle (Request 2 (Some 2, Some 0) Waiting) (Fulfilled ''new''),
      Callback (Request 2 (Some 2, Some 0) (AtThen (Fulfilled ''new'')))]"

definition demo_loader :: "(string, nat) loader" where
  "demo_loader = \<lparr> l_data = Some ''new'', l_loading = True, l_error = None, l_dataTag = Some 2, l_dataFamily = Some 0,
     l_generation = 2, l_lastKey = Some ''b'', l_lastTag = Some 2, l_lastFamily = Some 0 \<rparr>"

definition demo_flight :: "(nat ctx, string, api_err) request multiset" where
  "demo_flight = {# Request 1 (Some 1, Some 0) (AtCatch (Fulfilled ''old'')), Request 2 (Some 2, Some 0) (AtCatch (Fulfilled ''new'')) #}"

lemma demo_run: "async_run loader_client (createProductLoader, {#}) demo_events (demo_loader, demo_flight)"
  by (rule exec_run_sound)
    (simp add: demo_events_def demo_loader_def demo_flight_def loader_defs createProductLoader_def issued_def Let_def numeral_2_eq_2)

theorem loader_refines_cancelling_witness:
  "\<exists>es'. subseq es' demo_events \<and> cancel_run loader_client (createProductLoader, {#}) es'
     (demo_loader, {# Request 2 (Some 2, Some 0) (AtCatch (Fulfilled ''new'')) #})"
  using loader_refines_cancelling[OF demo_run]
  by (simp add: live_requests_def demo_flight_def demo_loader_def loader_client_def)

theorem list_shows_its_question_witness:
  "\<exists>c. delivered demo_events c ''new'' \<and> fst c = Some 2"
proof -
  let ?q = "\<lparr> q_tag = Some 2, q_family = Some 0, q_filtered = False, q_pageLimit = 5 \<rparr>"
  let ?st = "productListState (\<lambda>_. None) (\<lambda>d. Some d) ?q demo_loader"
  have "ls_data ?st = Some ''new''" "\<not> ls_paging ?st"
    by (simp_all add: productListState_def answer_def demo_loader_def Let_def)
  then show ?thesis using list_shows_its_question[OF demo_run, of "\<lambda>_. None" "\<lambda>d. Some d" ?q "''new''"] by simp
qed

theorem loader_settles_witness:
  "\<exists>es' l'. list_all (Not \<circ> is_op) es' \<and> async_run loader_client (demo_loader, demo_flight) es' (l', {#}) \<and> \<not> l_loading l'"
proof -
  have "Op Destroy \<notin> set demo_events" "0 < l_generation demo_loader" by (simp_all add: demo_events_def demo_loader_def)
  from loader_settles[OF demo_run this] show ?thesis by blast
qed

end
