(* ===== verification/Suggest.thy ===== *)
theory Suggest
  imports Async Knowledge
begin

text \<open>
  The debounced entity search (\<open>lib/entitySuggest.svelte.ts\<close>): a keystroke arms a timer, the
  timer issues the query, and a sequence number guards every response.  The timer and the
  backend are the environment: the timer fires or is cleared, a query settles or never does.
\<close>

section \<open>The search\<close>

text \<open>The answer of the backend, as far as the search reads it.\<close>

record 'a entity_list =
  el_entities :: "'a list option"
  el_total :: "int option"

text \<open>A pending timer holds the sequence number and the text its callback captured.\<close>

record 'a suggest =
  su_results :: "'a list"
  su_total :: int
  su_truncated :: bool
  su_loading :: bool
  su_error :: "api_err option"
  su_seq :: nat
  su_timer :: "(nat \<times> string) option"

definition createEntitySuggest :: "'a suggest" where
  "createEntitySuggest = \<lparr> su_results = [], su_total = 0, su_truncated = False, su_loading = False, su_error = None,
     su_seq = 0, su_timer = None \<rparr>"

definition reset_results :: "'a suggest \<Rightarrow> 'a suggest" where
  "reset_results s = s\<lparr> su_results := [], su_total := 0, su_truncated := False, su_error := None \<rparr>"

definition clear_search :: "'a suggest \<Rightarrow> 'a suggest" where
  "clear_search s = reset_results (s\<lparr> su_seq := Suc (su_seq s), su_timer := None, su_loading := False \<rparr>)"

definition search_text :: "string option \<Rightarrow> 'a suggest \<Rightarrow> 'a suggest" where
  "search_text text s =
     (let q = trim (nullish text []); mySeq = Suc (su_seq s); s1 = s\<lparr> su_seq := mySeq, su_timer := None \<rparr>
      in if q = [] then reset_results (s1\<lparr> su_loading := False \<rparr>)
         else s1\<lparr> su_loading := True, su_timer := Some (mySeq, q) \<rparr>)"

text \<open>The timer's callback issues the query; its context is the text asked.\<close>

definition fire_timer :: "'a suggest \<Rightarrow> 'a suggest \<times> (nat \<times> string) option" where
  "fire_timer s = (s\<lparr> su_timer := None \<rparr>, su_timer s)"

definition found :: "nat \<Rightarrow> string \<Rightarrow> 'a entity_list \<Rightarrow> 'a suggest \<Rightarrow> 'a suggest" where
  "found mySeq q res s =
     (if mySeq \<noteq> su_seq s then s
      else
        let results = nullish (el_entities res) []; n = nullish (el_total res) (int (length results))
        in s\<lparr> su_results := results, su_total := n, su_truncated := (int (length results) < n), su_error := None \<rparr>)"

definition failed :: "nat \<Rightarrow> string \<Rightarrow> api_err option \<Rightarrow> 'a suggest \<Rightarrow> 'a suggest" where
  "failed mySeq q e s =
     (if mySeq \<noteq> su_seq s then s
      else s\<lparr> su_error := e, su_results := [], su_total := 0, su_truncated := False \<rparr>)"

definition finished :: "nat \<Rightarrow> string \<Rightarrow> 'a suggest \<Rightarrow> 'a suggest" where
  "finished mySeq q s = (if mySeq = su_seq s then s\<lparr> su_loading := False \<rparr> else s)"

datatype suggest_op = Search "string option" | Clear | DestroySearch | Fire

fun apply_suggest :: "suggest_op \<Rightarrow> 'a suggest \<Rightarrow> 'a suggest \<times> (nat \<times> string) option" where
  "apply_suggest (Search text) s = (search_text text s, None)"
| "apply_suggest Clear s = (clear_search s, None)"
| "apply_suggest DestroySearch s = (clear_search s, None)"
| "apply_suggest Fire s = fire_timer s"

definition suggest_client :: "('a suggest, suggest_op, string, 'a entity_list, api_err) client" where
  "suggest_client = \<lparr> cl_token = su_seq, cl_op = apply_suggest, cl_then = found, cl_catch = failed, cl_finally = finished \<rparr>"

section \<open>The guard\<close>

lemmas suggest_defs = suggest_client_def search_text_def clear_search_def reset_results_def fire_timer_def found_def
  failed_def finished_def

text \<open>A pending timer belongs to the current search, and the truncation flag is the comparison it names.\<close>

definition timer_current :: "'a suggest \<Rightarrow> bool" where
  "timer_current s = (case su_timer s of None \<Rightarrow> True | Some (k, q) \<Rightarrow> k = su_seq s)"

lemma timer_init [simp]: "timer_current createEntitySuggest"
  by (simp add: timer_current_def createEntitySuggest_def)

interpretation sg: token_guard "suggest_client :: ('a suggest, suggest_op, string, 'a entity_list, api_err) client" timer_current
proof (unfold_locales, goal_cases)
  case (1 s o1 s' q)
  then show ?case by (cases o1) (auto simp: suggest_defs timer_current_def Let_def)
next
  case (2 s o1 s' q)
  then show ?case by (cases o1) (auto simp: suggest_defs Let_def)
next
  case (3 s o1 s' t c)
  then show ?case by (cases o1) (auto simp: suggest_defs timer_current_def)
qed (auto simp: suggest_defs timer_current_def Let_def split: option.splits)

section \<open>A cleared search stays cleared\<close>

text \<open>The operations that end a search without starting another.\<close>

fun ends_search :: "suggest_op \<Rightarrow> bool" where
  "ends_search (Search text) = (trim (nullish text []) = [])"
| "ends_search Clear = True"
| "ends_search DestroySearch = True"
| "ends_search Fire = False"

definition blank :: "'a suggest \<Rightarrow> bool" where
  "blank s = (su_results s = [] \<and> su_total s = 0 \<and> \<not> su_truncated s \<and> \<not> su_loading s \<and> su_error s = None)"

lemma ends_search_blank:
  "ends_search o1 \<Longrightarrow> apply_suggest o1 s = (s', q) \<Longrightarrow>
    blank s' \<and> su_timer s' = None \<and> su_seq s' = Suc (su_seq s) \<and> q = None"
  by (cases o1) (auto simp: suggest_defs blank_def Let_def)

lemma quiet_run:
  "async_run suggest_client cf0 es cf \<Longrightarrow> blank (fst cf0) \<Longrightarrow> su_timer (fst cf0) = None \<Longrightarrow>
   \<forall>r \<in># snd cf0. rq_token r < su_seq (fst cf0) \<Longrightarrow> \<forall>o1. Op o1 \<in> set es \<longrightarrow> o1 = Fire \<Longrightarrow>
   fst cf = fst cf0 \<and> (\<forall>r \<in># snd cf. rq_token r < su_seq (fst cf0))"
proof (induction rule: async_run.induct)
  case (run_snoc es cf e cf')
  obtain s M where cf: "cf = (s, M)" by (rule prod.exhaust)
  have s: "s = fst cf0" and M: "\<forall>r \<in># M. rq_token r < su_seq (fst cf0)" using run_snoc cf by auto
  from run_snoc.hyps(2)[unfolded cf] show ?case
  proof cases
    case (op o1 s' q)
    then have "o1 = Fire" using run_snoc.prems(4) by simp
    then show ?thesis using op s M run_snoc.prems(2) by (auto simp: suggest_defs issued_def)
  next
    case (settle t c p)
    then show ?thesis using s M by (auto dest: in_diffD)
  next
    case (callback r)
    have "run_callback suggest_client r s = s"
      using callback M s by (intro sg.stale_callback) (auto simp: suggest_client_def)
    then show ?thesis using callback s tokens_replace[OF callback(3), of "\<lambda>t. t < su_seq (fst cf0)"] M by simp
  qed
qed simp

text \<open>C16: A cleared search stays cleared.  After a clear, a teardown or a search for blank text, no response
  of any earlier search -- in whatever order their callbacks run, and with whatever timer
  events -- shows a result, a count, an error or a spinner again, until the next search.\<close>

theorem cleared_stays_cleared:
  assumes run: "async_run suggest_client (createEntitySuggest, {#}) es (s, M)"
    and ends: "ends_search o1" and op: "apply_suggest o1 s = (s1, q)"
    and later: "async_run suggest_client (s1, M) es' (s2, M2)"
    and quiet: "\<forall>o2. Op o2 \<in> set es' \<longrightarrow> o2 = Fire"
  shows "blank s2"
proof -
  have "\<forall>r \<in># M. rq_token r \<le> su_seq s"
    using sg.tokens_bounded[OF run] by (simp add: suggest_client_def)
  then have "\<forall>r \<in># M. rq_token r < su_seq s1" using ends_search_blank[OF ends op] by auto
  then show ?thesis using quiet_run[OF later] ends_search_blank[OF ends op] quiet by simp
qed

section \<open>What is listed answers the text\<close>

text \<open>The text of the search that is current after a run, if there is one.\<close>

definition next_search :: "(suggest_op, 'c, 'r, 'e) event \<Rightarrow> string option \<Rightarrow> string option" where
  "next_search e acc =
     (case e of
        Op (Search text) \<Rightarrow> (if trim (nullish text []) = [] then None else Some (trim (nullish text [])))
      | Op Clear \<Rightarrow> None
      | Op DestroySearch \<Rightarrow> None
      | _ \<Rightarrow> acc)"

definition last_search :: "(suggest_op, 'c, 'r, 'e) event list \<Rightarrow> string option" where
  "last_search es = fold next_search es None"

definition lists_answer :: "(suggest_op, string, 'a entity_list, 'e) event list \<Rightarrow> string \<Rightarrow> 'a suggest \<Rightarrow> bool" where
  "lists_answer es q s =
     (su_results s = [] \<or> (\<exists>res. delivered es q res \<and> su_results s = nullish (el_entities res) []))"

definition answered :: "('c, 'r, 'e) request \<Rightarrow> bool" where
  "answered r = (case rq_phase r of AtCatch (Fulfilled x) \<Rightarrow> True | AtFinally \<Rightarrow> True | _ \<Rightarrow> False)"

definition request_inv ::
  "(suggest_op, string, 'a entity_list, api_err) event list \<Rightarrow> 'a suggest \<Rightarrow> string option \<Rightarrow>
   (string, 'a entity_list, api_err) request \<Rightarrow> bool" where
  "request_inv es s q r =
     (rq_token r = su_seq s \<longrightarrow> q = Some (rq_ctx r) \<and> (answered r \<longrightarrow> lists_answer es (rq_ctx r) s))"

definition search_inv ::
  "(suggest_op, string, 'a entity_list, api_err) event list \<Rightarrow> 'a suggest \<Rightarrow> bool" where
  "search_inv es s =
     (case last_search es of
        None \<Rightarrow> su_results s = [] \<and> su_timer s = None
      | Some q \<Rightarrow> (\<forall>k q'. su_timer s = Some (k, q') \<longrightarrow> q' = q) \<and> (su_loading s \<or> lists_answer es q s))"

lemma lists_answer_more: "lists_answer es q s \<Longrightarrow> lists_answer (es @ es') q s"
  unfolding lists_answer_def by (metis delivered_more)

lemma last_search_snoc: "last_search (es @ [e]) = next_search e (last_search es)"
  by (simp add: last_search_def)

lemma request_inv_keep:
  "request_inv es s q r \<Longrightarrow> su_seq s' = su_seq s \<Longrightarrow> su_results s' = su_results s \<Longrightarrow> request_inv (es @ es') s' q r"
  using lists_answer_more[of es "rq_ctx r" s es'] by (auto simp: request_inv_def lists_answer_def)

lemma request_inv_stale: "rq_token r \<noteq> su_seq s \<Longrightarrow> request_inv es s q r"
  by (simp add: request_inv_def)

lemma search_inv_keep:
  "search_inv es s \<Longrightarrow> last_search (es @ es') = last_search es \<Longrightarrow> su_results s' = su_results s \<Longrightarrow>
   su_timer s' = su_timer s \<or> su_timer s' = None \<Longrightarrow> su_loading s' = su_loading s \<Longrightarrow> search_inv (es @ es') s'"
  using lists_answer_more[of es _ s es'] by (fastforce simp: search_inv_def lists_answer_def split: option.splits)

lemma search_step_op:
  assumes inv: "search_inv es s" and reqs: "\<forall>r \<in># M. request_inv es s (last_search es) r" and cur: "timer_current s"
    and bound: "\<forall>r \<in># M. rq_token r \<le> su_seq s" and op: "apply_suggest o1 s = (s', q)"
  shows "search_inv (es @ [Op o1]) s' \<and> (\<forall>r \<in># M + issued q. request_inv (es @ [Op o1]) s' (last_search (es @ [Op o1])) r)"
proof (cases "o1 = Fire")
  case True
  then have s': "s' = s\<lparr> su_timer := None \<rparr>" "q = su_timer s" using op by (auto simp: suggest_defs)
  have last: "last_search (es @ [Op o1]) = last_search es" by (simp add: True last_search_snoc next_search_def)
  have "search_inv (es @ [Op o1]) s'" using inv last by (rule search_inv_keep) (simp_all add: s')
  moreover have "\<forall>r \<in># M. request_inv (es @ [Op o1]) s' (last_search es) r"
    using reqs by (auto intro!: request_inv_keep simp: s')
  moreover have "\<forall>r \<in># issued q. request_inv (es @ [Op o1]) s' (last_search es) r"
    using inv cur by (auto simp: issued_def s' request_inv_def timer_current_def search_inv_def answered_def split: option.splits)
  ultimately show ?thesis by (auto simp: last)
next
  case False
  then have seq: "su_seq s' = Suc (su_seq s)" "q = None" using op by (cases o1; auto simp: suggest_defs Let_def)+
  have "search_inv (es @ [Op o1]) s'" using False op
    by (cases o1) (auto simp: search_inv_def last_search_snoc next_search_def suggest_defs lists_answer_def Let_def)
  moreover have "rq_token r \<noteq> su_seq s'" if "r \<in># M" for r using bound that seq by fastforce
  ultimately show ?thesis by (auto simp: seq issued_def intro: request_inv_stale)
qed

lemma found_lists: "t = su_seq s \<Longrightarrow> lists_answer (es @ [Callback (Request t q (AtThen (Fulfilled res)))]) q (found t q res s)"
  by (auto simp: lists_answer_def found_def delivered_def Let_def)

text \<open>A callback of the current request leaves an answer behind, or leaves everything as it was.\<close>

lemma callback_answers:
  assumes r: "r = Request (su_seq s) q ph" and ph: "ph \<noteq> Waiting" and ok: "answered r \<Longrightarrow> lists_answer es q s"
  shows "(lists_answer (es @ [Callback r]) q (run_callback suggest_client r s) \<or>
      su_results (run_callback suggest_client r s) = su_results s \<and> su_loading (run_callback suggest_client r s) = su_loading s \<and>
      (\<forall>x \<in># next_phase r. \<not> answered x)) \<and>
    su_timer (run_callback suggest_client r s) = su_timer s \<and> su_seq (run_callback suggest_client r s) = su_seq s"
proof -
  have more: "answered r \<Longrightarrow> lists_answer (es @ [Callback r]) q s" using ok lists_answer_more by blast
  show ?thesis
  proof (cases ph)
    case (AtThen p)
    then show ?thesis using found_lists[of "su_seq s" s es q]
      by (cases p) (auto simp: r suggest_defs answered_def Let_def)
  next
    case (AtCatch p)
    then show ?thesis using more
      by (cases p) (auto simp: r suggest_defs answered_def lists_answer_def)
  next
    case AtFinally
    then show ?thesis using more by (auto simp: r suggest_defs answered_def lists_answer_def)
  qed (use ph in simp)
qed

lemma search_step_callback:
  assumes inv: "search_inv es s" and reqs: "\<forall>r \<in># M. request_inv es s (last_search es) r"
    and r: "r \<in># M" and p: "rq_phase r \<noteq> Waiting"
  shows "search_inv (es @ [Callback r]) (run_callback suggest_client r s) \<and>
    (\<forall>x \<in># M - {# r #} + next_phase r. request_inv (es @ [Callback r]) (run_callback suggest_client r s) (last_search (es @ [Callback r])) x)"
proof -
  let ?s = "run_callback suggest_client r s"
  have last: "last_search (es @ [Callback r]) = last_search es" by (simp add: last_search_snoc next_search_def)
  show ?thesis
  proof (cases "rq_token r = su_seq s")
    case False
    then have s: "?s = s" using sg.stale_callback[of r s] by (simp add: suggest_client_def)
    have "\<forall>x \<in># M. request_inv (es @ [Callback r]) s (last_search es) x" using reqs by (auto intro: request_inv_keep)
    moreover have "\<forall>x \<in># next_phase r. request_inv (es @ [Callback r]) s (last_search es) x"
      using False by (auto intro!: request_inv_stale dest: next_phase_token)
    ultimately have "\<forall>x \<in># M - {# r #} + next_phase r. request_inv (es @ [Callback r]) s (last_search es) x"
      by (rule all_replace)
    moreover have "search_inv (es @ [Callback r]) s" using inv last by (rule search_inv_keep) simp_all
    ultimately show ?thesis unfolding s last by blast
  next
    case True
    obtain q ph where req: "r = Request (su_seq s) q ph" using True by (cases r) auto
    have q: "last_search es = Some q" and ok: "answered r \<Longrightarrow> lists_answer es q s"
      using reqs r by (auto simp: request_inv_def req)
    have ph: "ph \<noteq> Waiting" using p by (simp add: req)
    note ans = callback_answers[OF req ph ok]
    have seq: "su_seq ?s = su_seq s" and tim: "su_timer ?s = su_timer s" using ans by blast+
    have ctx: "rq_ctx x = q" if "x \<in># next_phase r" for x using that ph by (cases ph) (auto simp: req)
    have mem: "rq_ctx x = q" if "x \<in># M" "rq_token x = su_seq s" for x
      using reqs that q by (auto simp: request_inv_def)
    consider (a) "lists_answer (es @ [Callback r]) q ?s"
      | (k) "su_results ?s = su_results s" "su_loading ?s = su_loading s" "\<forall>x \<in># next_phase r. \<not> answered x"
      using ans by blast
    then show ?thesis
    proof cases
      case a
      have "\<forall>x \<in># M. request_inv (es @ [Callback r]) ?s (Some q) x" using mem a by (auto simp: request_inv_def seq)
      moreover have "\<forall>x \<in># next_phase r. request_inv (es @ [Callback r]) ?s (Some q) x" using ctx a by (auto simp: request_inv_def)
      ultimately have "\<forall>x \<in># M - {# r #} + next_phase r. request_inv (es @ [Callback r]) ?s (Some q) x" by (rule all_replace)
      moreover have "search_inv (es @ [Callback r]) ?s" using inv a by (simp add: search_inv_def last q tim)
      ultimately show ?thesis unfolding last q by blast
    next
      case k
      have "\<forall>x \<in># M. request_inv (es @ [Callback r]) ?s (Some q) x"
        using reqs unfolding q by (auto intro!: request_inv_keep simp: seq k)
      moreover have "\<forall>x \<in># next_phase r. request_inv (es @ [Callback r]) ?s (Some q) x" using ctx k by (auto simp: request_inv_def)
      ultimately have "\<forall>x \<in># M - {# r #} + next_phase r. request_inv (es @ [Callback r]) ?s (Some q) x" by (rule all_replace)
      moreover have "search_inv (es @ [Callback r]) ?s" using inv last by (rule search_inv_keep) (simp_all add: k tim)
      ultimately show ?thesis unfolding last q by blast
    qed
  qed
qed

lemma search_invariant:
  "async_run suggest_client (createEntitySuggest, {#}) es cf \<Longrightarrow>
    search_inv es (fst cf) \<and> (\<forall>r \<in># snd cf. request_inv es (fst cf) (last_search es) r)"
proof (induction rule: async_run.induct)
  case run_nil
  then show ?case by (simp add: search_inv_def last_search_def createEntitySuggest_def)
next
  case (run_snoc es cf e cf')
  obtain s M where cf: "cf = (s, M)" by (rule prod.exhaust)
  have inv: "search_inv es s" and reqs: "\<forall>r \<in># M. request_inv es s (last_search es) r" using run_snoc.IH by (simp_all add: cf)
  have cur: "timer_current s" using sg.run_token[OF run_snoc.hyps(1)] by (simp add: cf)
  have bound: "\<forall>r \<in># M. rq_token r \<le> su_seq s"
    using sg.tokens_bounded[OF run_snoc.hyps(1)] by (simp add: cf suggest_client_def)
  from run_snoc.hyps(2)[unfolded cf] show ?case
  proof cases
    case (op o1 s' q)
    then have "apply_suggest o1 s = (s', q)" by (simp add: suggest_client_def)
    from search_step_op[OF inv reqs cur bound this] op show ?thesis by simp
  next
    case (settle t c p)
    have last: "last_search (es @ [e]) = last_search es" by (simp add: settle last_search_snoc next_search_def)
    have all: "\<forall>r \<in># M. request_inv (es @ [e]) s (last_search es) r" using reqs by (auto intro: request_inv_keep)
    have new: "\<forall>x \<in># {# Request t c (AtThen p) #}. request_inv (es @ [e]) s (last_search es) x"
      using reqs settle(3) by (auto simp: request_inv_def answered_def)
    have "search_inv (es @ [e]) s" using inv last by (rule search_inv_keep) simp_all
    with all_replace[OF all new, of "Request t c Waiting"] show ?thesis unfolding last settle(2) fst_conv snd_conv by blast
  next
    case (callback r)
    from search_step_callback[OF inv reqs callback(3,4)] callback show ?thesis by simp
  qed
qed

text \<open>C15: What the search lists answers the text searched.  Whenever anything is listed and the spinner is
  off, a search is current and the list was delivered for exactly its text.\<close>

theorem search_lists_its_text:
  assumes "async_run suggest_client (createEntitySuggest, {#}) es (s, M)"
    and "\<not> su_loading s" and "su_results s \<noteq> []"
  shows "\<exists>q res. last_search es = Some q \<and> delivered es q res \<and> su_results s = nullish (el_entities res) []"
  using search_invariant[OF assms(1)] assms(2,3)
  by (auto simp: search_inv_def lists_answer_def split: option.splits)

section \<open>Typing over a slow answer\<close>

definition demo_search :: "(suggest_op, string, nat entity_list, api_err) event list" where
  "demo_search =
     [Op (Search (Some ''pa'')), Op Fire, Op (Search (Some ''pay '')), Op Fire,
      Settle (Request 1 ''pa'' Waiting) (Fulfilled \<lparr> el_entities = Some [7, 8], el_total = Some 2 \<rparr>),
      Settle (Request 2 ''pay'' Waiting) (Fulfilled \<lparr> el_entities = Some [7], el_total = None \<rparr>),
      Callback (Request 2 ''pay'' (AtThen (Fulfilled \<lparr> el_entities = Some [7], el_total = None \<rparr>))),
      Callback (Request 1 ''pa'' (AtThen (Fulfilled \<lparr> el_entities = Some [7, 8], el_total = Some 2 \<rparr>))),
      Callback (Request 2 ''pay'' (AtCatch (Fulfilled \<lparr> el_entities = Some [7], el_total = None \<rparr>))),
      Callback (Request 2 ''pay'' AtFinally)]"

definition demo_suggest :: "nat suggest" where
  "demo_suggest = \<lparr> su_results = [7], su_total = 1, su_truncated = False, su_loading = False, su_error = None,
     su_seq = 2, su_timer = None \<rparr>"

definition demo_left :: "(string, nat entity_list, api_err) request multiset" where
  "demo_left = {# Request 1 ''pa'' (AtCatch (Fulfilled \<lparr> el_entities = Some [7, 8], el_total = Some 2 \<rparr>)) #}"

lemma demo_trim: "trim ''pa'' = ''pa''" "trim ''pay '' = ''pay''" "trim [] = []"
  by (simp_all add: trim_def is_space_def)

lemma demo_search_run: "async_run suggest_client (createEntitySuggest, {#}) demo_search (demo_suggest, demo_left)"
  by (rule exec_run_sound)
    (simp add: demo_search_def demo_suggest_def demo_left_def suggest_defs createEntitySuggest_def issued_def Let_def
      numeral_2_eq_2 demo_trim)

theorem search_lists_its_text_witness:
  "\<exists>q res. last_search demo_search = Some q \<and> delivered demo_search q res \<and> [7] = nullish (el_entities res) []"
  using search_lists_its_text[OF demo_search_run] by (simp add: demo_suggest_def)

theorem cleared_stays_cleared_witness:
  "\<exists>s2 M2. async_run suggest_client (clear_search demo_suggest, demo_left)
      [Callback (Request 1 ''pa'' (AtCatch (Fulfilled \<lparr> el_entities = Some [7, 8], el_total = Some 2 \<rparr>)))] (s2, M2) \<and> blank s2"
proof -
  let ?r = "Request 1 ''pa'' (AtCatch (Fulfilled \<lparr> el_entities = Some [7, 8], el_total = Some 2 \<rparr>))"
  let ?s1 = "clear_search demo_suggest"
  have later: "async_run suggest_client (?s1, demo_left) [Callback ?r]
      (run_callback suggest_client ?r ?s1, demo_left - {# ?r #} + next_phase ?r)"
    by (intro run_one async_step.callback) (simp_all add: demo_left_def)
  have "blank (run_callback suggest_client ?r ?s1)"
    by (rule cleared_stays_cleared[OF demo_search_run, of Clear ?s1 None "[Callback ?r]"]) (use later in simp_all)
  with later show ?thesis by blast
qed

end
