(* ===== verification/Format.thy ===== *)
theory Format
  imports Readiness
begin

text \<open>
  Formatting and classification shared by the views (\<open>lib/format.ts\<close>): the status vocabulary,
  badge classes, dependency reasons, digests and counts, and the comparator that keeps
  unassessed rows last.

  A table lookup is on the table's own names: the wire values looked up here are never names
  of inherited object members.  \<open>toUpperCase\<close> is ASCII, which is what an HTTP method is.
\<close>

section \<open>Status vocabulary\<close>

definition STATUS_META :: "(string \<times> string) dict" where
  "STATUS_META =
     [(''Compliant'', ''Compliant'', ''ok''), (''Warning'', ''Warning'', ''warn''),
      (''NonCompliant'', ''Not compliant'', ''err''), (''Invalid'', ''Invalid'', ''err''),
      (''Unknown'', ''Unknown'', ''warn''), (''Reference'', ''Reference'', ''reference''),
      (''NotEvaluated'', ''Not evaluated'', ''neutral'')]"

definition statusClass :: "string option \<Rightarrow> string" where
  "statusClass status =
     (case map_of STATUS_META (or_else status []) of Some (l, t) \<Rightarrow> t | None \<Rightarrow> ''neutral'')"

definition statusLabel :: "string option \<Rightarrow> string" where
  "statusLabel status =
     (if \<not> truthy status then ''Unknown''
      else case map_of STATUS_META (the status) of Some (l, t) \<Rightarrow> l | None \<Rightarrow> the status)"

definition statusTone :: "string option \<Rightarrow> string" where
  "statusTone status = (let c = statusClass status in if c = ''reference'' then ''info'' else c)"

definition STATUS_FILTER_OPTIONS :: "string list" where
  "STATUS_FILTER_OPTIONS =
     filter (\<lambda>s. map_of STATUS_META s \<noteq> None)
       [''NonCompliant'', ''Invalid'', ''Warning'', ''Unknown'', ''NotEvaluated'', ''Compliant'']"

section \<open>Badge classes\<close>

definition complianceClass :: "int \<Rightarrow> string" where
  "complianceClass score =
     (if 80 \<le> score then ''score-ok'' else if 50 \<le> score then ''score-warn'' else ''score-err'')"

definition complianceStatusClass :: "string \<Rightarrow> string" where
  "complianceStatusClass status =
     (if status = ''OK'' then ''score-ok''
      else if status = ''WARNING'' then ''score-warn''
      else if status = ''ERROR'' then ''score-err''
      else if status = ''UNKNOWN'' then ''score-info''
      else [])"

definition referencedDocPaths :: "readiness_check list option \<Rightarrow> string list" where
  "referencedDocPaths checks =
     (case checks of
        None \<Rightarrow> []
      | Some cs \<Rightarrow> map (\<lambda>c. the (rc_docPath c)) (filter (\<lambda>c. truthy (rc_docPath c)) cs))"

definition ascii_upper :: "char \<Rightarrow> char" where
  "ascii_upper c = (if 97 \<le> (of_char c :: nat) \<and> (of_char c :: nat) \<le> 122 then char_of ((of_char c :: nat) - 32) else c)"

definition methodClass :: "string option \<Rightarrow> string" where
  "methodClass method =
     (let m = map_option (map ascii_upper) method in
      if m = Some ''GET'' then ''badge-ok''
      else if m = Some ''POST'' then ''badge-info''
      else if m = Some ''PUT'' \<or> m = Some ''PATCH'' then ''badge-warn''
      else if m = Some ''DELETE'' then ''badge-err''
      else ''badge-neutral'')"

definition classificationClass :: "string \<Rightarrow> string" where
  "classificationClass c =
     (if c = ''BREAKING'' then ''badge-err''
      else if c = ''POTENTIAL_BREAKING'' then ''badge-warn''
      else if c = ''NON_BREAKING'' then ''badge-ok''
      else ''badge-neutral'')"

definition COMPLETENESS_LABELS :: "string dict" where
  "COMPLETENESS_LABELS = [(''complete'', ''Complete''), (''partial'', ''Partial''), (''empty'', ''Empty'')]"

definition completenessLabel :: "string option \<Rightarrow> string" where
  "completenessLabel c =
     (if \<not> truthy c then ''Unknown'' else or_else (map_of COMPLETENESS_LABELS (the c)) (the c))"

definition completenessClass :: "string option \<Rightarrow> string" where
  "completenessClass c =
     (if c = Some ''complete'' then ''badge-ok'' else if c = Some ''partial'' then ''badge-warn'' else ''badge-neutral'')"

definition changeTypeClass :: "string \<Rightarrow> string" where
  "changeTypeClass t =
     (if t = ''added'' then ''diff-added''
      else if t = ''removed'' then ''diff-removed''
      else if t = ''modified'' then ''diff-modified''
      else [])"

definition escape_char :: "char \<Rightarrow> string" where
  "escape_char c =
     (if c = CHR ''&'' then ''&amp;'' else if c = CHR ''<'' then ''&lt;'' else if c = CHR ''>'' then ''&gt;'' else [c])"

text \<open>The three replacements in order escape each character once: \<open>&\<close> goes first and no
  later replacement writes one that is escaped again.\<close>

definition breakableIdentifierHtml :: "string option \<Rightarrow> string" where
  "breakableIdentifierHtml s =
     concat (map (\<lambda>c. if c \<in> set ''.[]:/_@#-'' then c # ''<wbr>'' else [c])
       (concat (map escape_char (nullish s []))))"

section \<open>Dependency reasons\<close>

definition REASON_LABELS :: "string dict" where
  "REASON_LABELS =
     [(''non_oci_ref'', ''External''), (''auth_failed'', ''Auth required''),
      (''no_semver_tags'', ''No versions''), (''not_found'', ''Not found''),
      (''pull_failed'', ''Unreachable''), (''discovering'', ''Discovering'' @ ELLIPSIS)]"

definition REASON_TOOLTIPS :: "string dict" where
  "REASON_TOOLTIPS =
     [(''non_oci_ref'', ''A dependency outside OCI with no contract of its own''),
      (''auth_failed'', ''Registry authentication failed. Run `pacto login` or check your credentials.''),
      (''no_semver_tags'', ''OCI repository found but contains no valid semver tags''),
      (''not_found'', ''OCI artifact not found in the registry''),
      (''pull_failed'', ''Registry unreachable. Check network connectivity or DNS.''),
      (''discovering'', ''Background OCI discovery is still running and may resolve this shortly.'')]"

definition REASON_BADGE_CLASSES :: "string dict" where
  "REASON_BADGE_CLASSES =
     [(''non_oci_ref'', ''badge-neutral''), (''auth_failed'', ''badge-err''),
      (''no_semver_tags'', ''badge-warn''), (''not_found'', ''badge-warn''),
      (''pull_failed'', ''badge-err''), (''discovering'', ''badge-info'')]"

definition reasonLabel :: "string option \<Rightarrow> string" where
  "reasonLabel reason =
     (if \<not> truthy reason then ''External'' else or_else (map_of REASON_LABELS (the reason)) ''External'')"

definition reasonTooltip :: "string option \<Rightarrow> string" where
  "reasonTooltip reason =
     (if \<not> truthy reason then ''External dependency''
      else or_else (map_of REASON_TOOLTIPS (the reason)) ''External dependency'')"

definition reasonBadgeClass :: "string option \<Rightarrow> string" where
  "reasonBadgeClass reason =
     (if \<not> truthy reason then ''badge-neutral''
      else or_else (map_of REASON_BADGE_CLASSES (the reason)) ''badge-neutral'')"

definition isReasonActionable :: "string option \<Rightarrow> bool" where
  "isReasonActionable reason =
     (reason = Some ''auth_failed'' \<or> reason = Some ''not_found'' \<or> reason = Some ''no_semver_tags'' \<or>
      reason = Some ''pull_failed'')"

definition SOURCE_DESCRIPTIONS :: "string dict" where
  "SOURCE_DESCRIPTIONS =
     [(''kubernetes'', ''Kubernetes '' @ EM_DASH @ '' live cluster runtime data''),
      (''oci'', ''OCI Registry '' @ EM_DASH @ '' versioned contract bundles''),
      (''local'', ''Local '' @ EM_DASH @ '' contracts from local filesystem''),
      (''cache'', ''Cache '' @ EM_DASH @ '' offline baseline from a previously pulled bundle''),
      (''target-state'', ''Target state '' @ EM_DASH @ '' a file describing where each revision runs''),
      (''evidence-http'', ''Evidence Server '' @ EM_DASH @ '' signed reports from remote environments''),
      (''evidence-ingest'', ''Evidence Server '' @ EM_DASH @ '' signed reports accepted by this server''),
      (''observation'', ''Observation '' @ EM_DASH @ '' recorded calls between services''),
      (''catalog'', ''Catalog '' @ EM_DASH @ '' contracts discovered in a registry''),
      (''mira'', ''Mira '' @ EM_DASH @ '' calls between services seen in its trace store'')]"

definition sourceTooltip :: "string \<Rightarrow> string" where
  "sourceTooltip src = or_else (map_of SOURCE_DESCRIPTIONS src) src"

section \<open>Digests and drift\<close>

definition shortDigest :: "string option \<Rightarrow> nat \<Rightarrow> string" where
  "shortDigest digest n =
     (if \<not> truthy digest then []
      else take n (nullish (strip_prefix ''sha256:'' (the digest)) (the digest)))"

text \<open>\<open>/[a-z0-9]+:([0-9a-f]{32,})/g\<close>: a run of lower-case letters and digits either starts a
  match or holds none, since every shorter start of it has the same end.\<close>

definition is_lower_alnum :: "char \<Rightarrow> bool" where
  "is_lower_alnum c = (is_digit c \<or> 97 \<le> (of_char c :: nat) \<and> (of_char c :: nat) \<le> 122)"

definition is_hex :: "char \<Rightarrow> bool" where
  "is_hex c = (is_digit c \<or> 97 \<le> (of_char c :: nat) \<and> (of_char c :: nat) \<le> 102)"

lemma dropWhile_rest: "d # r = dropWhile P s \<Longrightarrow> length r < length s"
  by (metis Suc_le_lessD length_Cons length_dropWhile_le)

function abbreviate :: "nat \<Rightarrow> string \<Rightarrow> string" where
  "abbreviate n [] = []"
| "abbreviate n (c # s) =
     (if \<not> is_lower_alnum c then c # abbreviate n s
      else
        let run = takeWhile is_lower_alnum (c # s); rest = dropWhile is_lower_alnum s in
        case rest of
          [] \<Rightarrow> run
        | d # r \<Rightarrow>
            if d \<noteq> CHR '':'' then run @ d # abbreviate n r
            else
              let hex = takeWhile is_hex r in
              if 32 \<le> length hex then take n hex @ ELLIPSIS @ abbreviate n (dropWhile is_hex r)
              else run @ d # abbreviate n r)"
  by pat_completeness auto
termination
proof (relation "measure (\<lambda>(n, s). length s)", goal_cases)
  case (3 n c s x xa x21 x22)
  then show ?case using dropWhile_rest[of x21 x22 is_lower_alnum s] by simp
next
  case (4 n c s x xa x21 x22 xb)
  have "length (dropWhile is_hex x22) \<le> length x22" by (rule length_dropWhile_le)
  then show ?case using 4 dropWhile_rest[of x21 x22 is_lower_alnum s] by simp
next
  case (5 n c s x xa x21 x22 xb)
  then show ?case using dropWhile_rest[of x21 x22 is_lower_alnum s] by simp
qed auto

definition abbreviateDigests :: "string option \<Rightarrow> nat \<Rightarrow> string" where
  "abbreviateDigests text n = (if \<not> truthy text then [] else abbreviate n (the text))"

definition driftBadgeClass :: "string option \<Rightarrow> string" where
  "driftBadgeClass status =
     (if status = Some ''locked'' then ''badge-ok'' else if status = Some ''drift'' then ''badge-warn'' else ''badge-neutral'')"

definition driftBadgeLabel :: "string option \<Rightarrow> string" where
  "driftBadgeLabel status =
     (if status = Some ''locked'' then ''Locked''
      else if status = Some ''drift'' then ''Drift''
      else if status = Some ''unlocked'' then ''Unlocked''
      else [])"

section \<open>Counts\<close>

definition HIGH_IMPACT_THRESHOLD :: nat where "HIGH_IMPACT_THRESHOLD = 3"

definition countHighImpact :: "nat option list \<Rightarrow> nat" where
  "countHighImpact blast = length (filter (\<lambda>b. HIGH_IMPACT_THRESHOLD \<le> nullish b 0) blast)"

definition compareScoresUnassessedLast :: "int \<Rightarrow> int \<Rightarrow> int \<Rightarrow> int" where
  "compareScoresUnassessedLast a b dir =
     (if a < 0 \<and> b < 0 then 0
      else if a < 0 then 1
      else if b < 0 then - 1
      else (a - b) * dir)"

text \<open>Thousands grouping, on the digits read from the right.\<close>

fun group3 :: "string \<Rightarrow> string" where
  "group3 (a # b # c # d # r) = a # b # c # CHR '','' # group3 (d # r)"
| "group3 s = s"

definition formatCount :: "nat \<Rightarrow> string" where
  "formatCount n = rev (group3 (rev (show_nat n)))"

definition countOf :: "nat \<Rightarrow> string \<Rightarrow> string \<Rightarrow> string" where
  "countOf n one many = formatCount n @ '' '' @ (if n = 1 then one else many)"

section \<open>Facts\<close>

lemma group3_digits: "CHR '','' \<notin> set s \<Longrightarrow> filter (\<lambda>c. c \<noteq> CHR '','') (group3 s) = s"
  by (induction s rule: group3.induct) auto

lemma comma_not_digit: "CHR '','' \<notin> set (show_nat n)"
  using show_nat_digits[of n] by (auto simp: is_digit_def)

text \<open>Grouping loses nothing: without its commas a formatted count is the number.\<close>

lemma formatCount_digits: "filter (\<lambda>c. c \<noteq> CHR '','') (formatCount n) = show_nat n"
  unfolding formatCount_def using group3_digits[of "rev (show_nat n)"] comma_not_digit[of n]
  by (simp add: rev_filter[symmetric])

lemma formatCount_inj: "formatCount m = formatCount n \<Longrightarrow> m = n"
  by (metis formatCount_digits show_nat_inj)

text \<open>For either direction the comparator is one a sort can rely on.\<close>

interpretation scores_up: comparator "\<lambda>a b. compareScoresUnassessedLast a b 1"
  by unfold_locales (auto simp: compareScoresUnassessedLast_def split: if_splits)

interpretation scores_down: comparator "\<lambda>a b. compareScoresUnassessedLast a b (- 1)"
  by unfold_locales (auto simp: compareScoresUnassessedLast_def split: if_splits)

text \<open>A text with no colon in it comes back untouched.\<close>

lemma abbreviate_plain: "CHR '':'' \<notin> set s \<Longrightarrow> abbreviate n s = s"
proof (induction n s rule: abbreviate.induct)
  case (2 n c s)
  show ?case
  proof (cases "is_lower_alnum c")
    case True
    have split: "takeWhile is_lower_alnum s @ dropWhile is_lower_alnum s = s" by simp
    show ?thesis
    proof (cases "dropWhile is_lower_alnum s")
      case Nil
      then have "takeWhile is_lower_alnum s = s" using split by (metis append_Nil2)
      with True show ?thesis by (simp add: Let_def Nil)
    next
      case (Cons d r)
      then have "d \<noteq> CHR '':''" "CHR '':'' \<notin> set r"
        using 2(5) split by (metis Un_iff list.set_intros set_append)+
      with 2 True Cons split show ?thesis by (simp add: Let_def)
    qed
  qed (use 2 in simp)
qed simp

section \<open>Properties\<close>

definition score_order :: "int \<Rightarrow> int \<Rightarrow> int \<Rightarrow> bool" where
  "score_order dir a b = ((a < 0 \<longrightarrow> b < 0) \<and> (0 \<le> a \<and> 0 \<le> b \<longrightarrow> (a - b) * dir \<le> 0))"

text \<open>Sorting by score keeps unassessed rows last in both directions: whichever way the list is
  sorted, no row with a real score comes after an unassessed one, and the assessed rows are in
  ascending (or descending) order.\<close>

theorem scores_unassessed_last:
  assumes "dir = 1 \<or> dir = - 1"
  shows "sorted_wrt (score_order dir) (sort_by (\<lambda>a b. compareScoresUnassessedLast a b dir) xs)"
proof -
  have *: "score_order dir a b" if "compareScoresUnassessedLast a b dir \<le> 0" for a b
    using that by (auto simp: score_order_def compareScoresUnassessedLast_def split: if_splits)
  have "sorted_wrt (\<lambda>a b. compareScoresUnassessedLast a b dir \<le> 0)
      (sort_by (\<lambda>a b. compareScoresUnassessedLast a b dir) xs)"
    using assms scores_up.sort_by_sorted scores_down.sort_by_sorted by auto
  then show ?thesis by (rule sorted_wrt_mono_rel[rotated]) (use * in blast)
qed

theorem scores_unassessed_last_witness:
  "sort_by (\<lambda>a b. compareScoresUnassessedLast a b (- 1)) [- 1, 40, 90, - 1, 70] = [90, 70, 40, - 1, - 1] \<and>
   sorted_wrt (score_order (- 1)) [90, 70, 40, - 1, - 1]"
proof -
  have "sort_by (\<lambda>a b. compareScoresUnassessedLast a b (- 1)) [- 1, 40, 90, - 1, 70] = [90, 70, 40, - 1, - 1]"
    by (simp add: sort_by_def compareScoresUnassessedLast_def)
  then show ?thesis using scores_unassessed_last[of "- 1" "[- 1, 40, 90, - 1, 70]"] by simp
qed

end
