(* ===== verification/Delivery.thy ===== *)
theory Delivery
  imports Format Uri
begin

text \<open>
  The plain helpers the delivery views share (\<open>lib/delivery.ts\<close>): the words for operation
  types, decisions, levels, gates and blockers, digests in sentences, what a check concluded,
  how far delivery runs on its own, and links to Mira.

  A table lookup is on the table's own names, as in \<open>Format\<close>.  \<open>toUpperCase\<close> and the case
  of a hex digit are ASCII; \<open>toLowerCase\<close> of a whole text is the argument \<open>lower\<close>.
\<close>

section \<open>Tables\<close>

text \<open>\<open>TABLE[x ?? ''] ?? (x || fallback)\<close>.\<close>

definition label_of :: "string dict \<Rightarrow> string option \<Rightarrow> string \<Rightarrow> string" where
  "label_of table x fallback = nullish (map_of table (nullish x [])) (or_else x fallback)"

definition TYPE_LABELS :: "string dict" where
  "TYPE_LABELS =
     [(''delivery.pacto.trianalab.io/promote'', ''Promote''),
      (''delivery.pacto.trianalab.io/rollback'', ''Roll back''),
      (''delivery.pacto.trianalab.io/override'', ''Override''),
      (''delivery.pacto.trianalab.io/unfreeze'', ''Unfreeze''),
      (''delivery.pacto.trianalab.io/freeze'', ''Freeze''),
      (''delivery.pacto.trianalab.io/autonomy'', ''Level change''),
      (''delivery.pacto.trianalab.io/acknowledge'', ''Acknowledge upstream'')]"

definition typeLabel :: "string option \<Rightarrow> string" where
  "typeLabel type = label_of TYPE_LABELS type ''Change''"

definition DECISION_LABELS :: "string dict" where
  "DECISION_LABELS =
     [(''approve'', ''Approve''), (''reject'', ''Reject''), (''accept-unknown'', ''Accept the unknown'')]"

definition decisionLabel :: "string option \<Rightarrow> string" where
  "decisionLabel d = label_of DECISION_LABELS d []"

definition PREDICTIONS :: "string dict" where
  "PREDICTIONS =
     [(''Proceeds'', ''It would go ahead with no person involved.''),
      (''Held'', ''It would wait for a person to decide.''),
      (''Rejected'', ''It would be refused.''),
      (''Waits'', ''It would wait until a person unfreezes it.'')]"

definition predictionLabel :: "string option \<Rightarrow> string" where
  "predictionLabel p = label_of PREDICTIONS p []"

definition GATE_LABELS :: "string dict" where
  "GATE_LABELS =
     [(''pacto.diff'', ''Contract diff''), (''pacto.impact'', ''Consumer impact''),
      (''pacto.contract'', ''Contract readable''), (''pacto.published'', ''Published and signed''),
      (''pacto.suites'', ''Test suites shipped''), (''pacto.environment'', ''Environment values''),
      (''pacto.autonomy'', ''Level change''), (''pacto.runtime'', ''Runtime callers''),
      (''pacto.preempted'', ''Superseded'')]"

definition gateLabel :: "string option \<Rightarrow> string" where
  "gateLabel gate = label_of GATE_LABELS gate ''Check''"

definition AUTONOMY_TYPE :: string where
  "AUTONOMY_TYPE = ''delivery.pacto.trianalab.io/autonomy''"

definition LEVELS :: "(string \<times> string) dict" where
  "LEVELS =
     [(''observe'', ''Observe'', ''Pacto plans every change and moves nothing. GitOps applies what git says.''),
      (''advise'', ''Advise'', ''Pacto shows each candidate and its plan. A person proposes or approves every promote.''),
      (''auto-nonbreaking'', ''Auto non-breaking'',
       ''Pacto promotes non-breaking changes on its own. A person approves every other change.''),
      (''autonomous'', ''Autonomous'',
       ''Pacto promotes any change the contract graph clears. Unknown still waits for a person.'')]"

definition levelLabel :: "string option \<Rightarrow> string" where
  "levelLabel level = nullish (map_option fst (map_of LEVELS (nullish level []))) (or_else level ''Not reported'')"

definition levelHelp :: "string option \<Rightarrow> string" where
  "levelHelp level = nullish (map_option snd (map_of LEVELS (nullish level [])))
     ''This Stage does not report a level. An operator older than the autonomy ladder writes none.''"

definition BLOCKERS :: "string dict" where
  "BLOCKERS =
     [(''missing-contract'', ''No contract''), (''undeclared-range'', ''No version range declared''),
      (''unlabelled-apply-ref'', ''GitOps can still write the version''),
      (''no-observed-digest'', ''The running version is not known''),
      (''no-record-store'', ''Signed records are off''), (''needs-verified'', ''Needs more verified releases''),
      (''needs-cleared-breaking'', ''Needs a breaking change the graph cleared''),
      (''incident'', ''A release failed here''), (''partial-graph'', ''The contract graph is partial'')]"

definition blockerLabel :: "string option \<Rightarrow> string" where
  "blockerLabel kind = label_of BLOCKERS kind ''Blocker''"

definition ACTOR_BADGES :: "(string \<times> string) dict" where
  "ACTOR_BADGES =
     [(''human'', ''Person'', ''badge-ok''), (''agent'', ''Agent'', ''badge-info''),
      (''controller'', ''Controller'', ''badge-neutral'')]"

definition actorBadge :: "string option \<Rightarrow> (string \<times> string) option" where
  "actorBadge cls = map_of ACTOR_BADGES (nullish cls [])"

text \<open>A caller is its class and its login time.\<close>

definition cannotApproveHere :: "(string option \<times> string option) option \<Rightarrow> bool" where
  "cannotApproveHere caller =
     (case caller of None \<Rightarrow> False | Some (cls, authTime) \<Rightarrow> cls = Some ''human'' \<and> \<not> truthy authTime)"

definition unknownHelp :: "string option \<Rightarrow> string dict option \<Rightarrow> string" where
  "unknownHelp gate citation =
     (if map_of (nullish citation []) ''provider'' = Some ''mira''
      then ''Pacto could not read enough traces to judge the release. Send the service's spans to Mira and keep the verify window long enough to collect them.''
      else if gate = Some ''pacto.contract'' \<or> gate = Some ''pacto.runtime''
      then ''Pacto could not read the service's contract status. Check that the operator evaluates the Pacto for this service and that its runtime agent reports.''
      else if gate = Some ''pacto.impact''
      then ''Pacto could not tell which services this affects. Publish a contract for each service that calls this one, with the versions it accepts.''
      else ''Pacto could not get an answer from this check. Check that it is configured and reachable.'')"

section \<open>Digests in text\<close>

definition hex_any :: "char \<Rightarrow> bool" where
  "hex_any c = (is_hex c \<or> 65 \<le> (of_char c :: nat) \<and> (of_char c :: nat) \<le> 70)"

definition shortDigest_delivery :: "string option \<Rightarrow> string" where
  "shortDigest_delivery d =
     (if \<not> truthy d then []
      else
        let hex = nullish (strip_prefix ''sha256:'' (the d)) (the d)
        in if list_all hex_any hex \<and> 13 \<le> length hex then take 12 hex else hex)"

definition versionLabel :: "string option \<Rightarrow> string dict option \<Rightarrow> string" where
  "versionLabel digest versions =
     or_else (if truthy digest then map_of (nullish versions []) (the digest) else None) (shortDigest_delivery digest)"

text \<open>The hex digits after \<open>sha256:\<close> at the start of a text.\<close>

definition digest_run :: "string \<Rightarrow> string option" where
  "digest_run s = map_option (takeWhile is_hex) (strip_prefix ''sha256:'' s)"

function short_digests :: "string dict \<Rightarrow> string \<Rightarrow> string" where
  "short_digests versions [] = []"
| "short_digests versions (c # s) =
     (case digest_run (c # s) of
        Some hex \<Rightarrow>
          if 64 \<le> length hex then
            (let d = take 71 (c # s); h = take 12 hex in
             (case map_of versions d of
                Some v \<Rightarrow> if v \<noteq> [] then v @ '' ('' @ h @ '')'' else ''sha256:'' @ h
              | None \<Rightarrow> ''sha256:'' @ h) @ short_digests versions (drop 70 s))
          else c # short_digests versions s
      | None \<Rightarrow> c # short_digests versions s)"
  by pat_completeness auto
termination by (relation "measure (length \<circ> snd)") auto

definition shortDigests :: "string option \<Rightarrow> string dict option \<Rightarrow> string" where
  "shortDigests text versions = short_digests (nullish versions []) (nullish text [])"

record digest_part =
  dp_text :: string
  dp_full :: "string option"

text \<open>Where a match of \<open>sha256:[0-9a-f]{12}(?:[0-9a-f]{52})?(?![0-9a-f])\<close> starts, its length: the
  lookahead leaves only runs of exactly 12 or 64 digits.\<close>

definition digest_match :: "string \<Rightarrow> nat option" where
  "digest_match s =
     (case digest_run s of
        Some hex \<Rightarrow> if length hex = 64 then Some 71 else if length hex = 12 then Some 19 else None
      | None \<Rightarrow> None)"

definition known_digest :: "string option list \<Rightarrow> string \<Rightarrow> digest_part" where
  "known_digest known m =
     (let hits = (if length m = 71 then [m]
        else uniq (concat (map (\<lambda>k. case k of Some x \<Rightarrow> if length x = 71 \<and> startsWith x m then [x] else [] | None \<Rightarrow> []) known)))
      in if length hits = 1 then \<lparr> dp_text = shortDigest_delivery (Some (hd hits)), dp_full = Some (hd hits) \<rparr>
         else \<lparr> dp_text = m, dp_full = None \<rparr>)"

text \<open>The pieces of a text; \<open>acc\<close> is the plain text since the last match.\<close>

function digest_parts :: "string option list \<Rightarrow> string \<Rightarrow> string \<Rightarrow> digest_part list" where
  "digest_parts known acc [] = (if acc = [] then [] else [\<lparr> dp_text = acc, dp_full = None \<rparr>])"
| "digest_parts known acc (c # s) =
     (case digest_match (c # s) of
        Some n \<Rightarrow>
          (if acc = [] then [] else [\<lparr> dp_text = acc, dp_full = None \<rparr>]) @
          known_digest known (take n (c # s)) # digest_parts known [] (drop (n - 1) s)
      | None \<Rightarrow> digest_parts known (acc @ [c]) s)"
  by pat_completeness auto
termination by (relation "measure (length \<circ> snd \<circ> snd)") auto

definition digestParts :: "string option \<Rightarrow> string option list \<Rightarrow> digest_part list" where
  "digestParts text known = digest_parts known [] (nullish text [])"

section \<open>Times, notes and reasons\<close>

text \<open>A text of a fixed shape, where \<open>0\<close> in the shape stands for any digit.\<close>

fun like :: "string \<Rightarrow> string \<Rightarrow> bool" where
  "like [] s = (s = [])"
| "like (p # ps) [] = False"
| "like (p # ps) (c # cs) = ((if p = CHR ''0'' then is_digit c else p = c) \<and> like ps cs)"

definition iso_seconds :: "string \<Rightarrow> bool" where
  "iso_seconds s =
     (s = ''Z'' \<or> like '':00Z'' s \<or>
      like '':00.'' (take 4 s) \<and> 6 \<le> length s \<and> last s = CHR ''Z'' \<and> list_all is_digit (butlast (drop 4 s)))"

definition timeLabel :: "string option \<Rightarrow> string" where
  "timeLabel time =
     (let s = nullish time [] in
      if like ''0000-00-00T00:00'' (take 16 s) \<and> iso_seconds (drop 16 s)
      then take 10 s @ '' '' @ take 5 (drop 11 s) @ '' UTC'' else s)"

definition is_lower :: "char \<Rightarrow> bool" where
  "is_lower c = (97 \<le> (of_char c :: nat) \<and> (of_char c :: nat) \<le> 122)"

definition is_upper :: "char \<Rightarrow> bool" where
  "is_upper c = (65 \<le> (of_char c :: nat) \<and> (of_char c :: nat) \<le> 90)"

definition starts_word :: "string \<Rightarrow> bool" where
  "starts_word t =
     (takeWhile is_lower t \<noteq> [] \<and>
      (case dropWhile is_lower t of [] \<Rightarrow> True | c # r \<Rightarrow> is_space c \<or> c = CHR '','' \<or> c = CHR '';''))"

definition sentence :: "string option \<Rightarrow> string" where
  "sentence text =
     (let t = trim (shortDigests text None) in
      if t = [] then []
      else (if starts_word t then ascii_upper (hd t) # tl t else t) @
        (if last t \<in> {CHR ''.'', CHR ''!'', CHR ''?''} then [] else ''.''))"

text \<open>\<open>shown.find((x) => x && (r === x || r.startsWith(`${x}: `)))\<close>.\<close>

definition shown_code :: "string option list \<Rightarrow> string \<Rightarrow> string option" where
  "shown_code shown r =
     Option.bind (find (\<lambda>x. truthy x \<and> (Some r = x \<or> startsWith r (the x @ '': ''))) shown) id"

lemma shown_codeD: "shown_code shown r = Some c \<Longrightarrow> c \<noteq> [] \<and> prefix c r"
  by (auto simp: shown_code_def bind_eq_Some_conv find_Some_iff truthy_def startsWith_def prefix_def split: option.splits)

function reason_loop :: "string option list \<Rightarrow> string \<Rightarrow> string" where
  "reason_loop shown r =
     (case shown_code shown r of
        None \<Rightarrow> r
      | Some c \<Rightarrow> let r' = drop (length c) r in reason_loop shown (nullish (strip_prefix '': '' r') r'))"
  by pat_completeness auto
termination
proof (relation "measure (length \<circ> snd)", goal_cases)
  case (2 shown r c r')
  from shown_codeD[OF 2(1)] have c: "0 < length c" "length c \<le> length r" by (auto dest: prefix_length_le)
  have "length (nullish (strip_prefix '': '' x) x) \<le> length x" for x
    by (cases "strip_prefix '': '' x") (auto simp: nullish_def strip_prefix_Some)
  from this[of "drop (length c) r"] c
  have "length (nullish (strip_prefix '': '' (drop (length c) r)) (drop (length c) r)) < length r"
    unfolding length_drop by linarith
  then show ?case unfolding 2(2) by simp
qed simp

definition reasonAfter :: "string option \<Rightarrow> string option list \<Rightarrow> string" where
  "reasonAfter reason shown = reason_loop shown (trim (nullish reason []))"

definition REASON_WORDS :: "string dict" where
  "REASON_WORDS =
     [(''ApprovalRequired'', ''Waiting for a person to approve''), (''AwaitingHuman'', ''Waiting for a person''),
      (''AcceptedUnknown'', ''A person accepted the unknown''), (''RejectedByHuman'', ''A person rejected it''),
      (''VerifyFailed'', ''A check failed after release''), (''VerifyUnknown'', ''A check after release ended Unknown''),
      (''VerifyUndecided'', ''The checks after release did not decide''), (''ApplyFailed'', ''The release did not apply''),
      (''RecheckChanged'', ''A gate no longer passes''), (''Unguarded'', ''Waiting for the admission policies''),
      (''Waiting'', ''Waiting'')]"

text \<open>A space before each upper-case letter that follows a lower-case one, and that letter lowered.\<close>

fun split_words :: "bool \<Rightarrow> string \<Rightarrow> string" where
  "split_words after_lower [] = []"
| "split_words after_lower (c # s) =
     (if after_lower \<and> is_upper c then CHR '' '' # ascii_lower c # split_words False s
      else c # split_words (is_lower c) s)"

definition reasonWords :: "string option \<Rightarrow> string" where
  "reasonWords reason =
     (let r = nullish reason [] in
      if \<not> (2 \<le> length r \<and> is_upper (hd r) \<and> list_all (\<lambda>c. is_upper c \<or> is_lower c) r) then r
      else nullish (map_of REASON_WORDS r) (split_words False r))"

text \<open>\<open>s.split(sep)\<close> for a separator of more than one character.\<close>

function split_seq :: "string \<Rightarrow> string \<Rightarrow> string \<Rightarrow> string list" where
  "split_seq sep acc [] = [acc]"
| "split_seq sep acc (c # s) =
     (if sep \<noteq> [] \<and> startsWith (c # s) sep then acc # split_seq sep [] (drop (length sep) (c # s))
      else split_seq sep (acc @ [c]) s)"
  by pat_completeness auto
termination by (relation "measure (length \<circ> snd \<circ> snd)") auto

record undo_cause =
  uc_by :: "string option"
  uc_text :: "string option"

definition undoCause :: "string option \<Rightarrow> string option \<Rightarrow> undo_cause" where
  "undoCause reason message =
     (let parts = split_seq '': '' [] (join '': '' (map the (filter truthy [reason, message])));
          code = hd parts; rest = tl parts in
      if code = ''RejectedByHuman'' then
        (if rest \<noteq> [] \<and> hd rest \<noteq> [] then \<lparr> uc_by = Some (hd rest), uc_text = None \<rparr>
         else \<lparr> uc_by = None, uc_text = Some ''a person rejected the unknown'' \<rparr>)
      else if code = ''VerifyFailed'' then \<lparr> uc_by = None, uc_text = Some ''a check failed after release'' \<rparr>
      else if code = ''ApplyFailed'' then \<lparr> uc_by = None, uc_text = Some ''the release did not apply'' \<rparr>
      else \<lparr> uc_by = None, uc_text = None \<rparr>)"

section \<open>What a change asked and where it stands\<close>

definition OUTCOMES :: "string dict" where
  "OUTCOMES =
     [(''Succeeded'', ''succeeded''), (''Failed'', ''failed''), (''Rejected'', ''was rejected''), (''Errored'', ''could not finish'')]"

definition VERIFICATIONS :: "string dict" where
  "VERIFICATIONS =
     [(''Verified'', ''verified''), (''Unverified'', ''not verified''), (''AcceptedUnknown'', ''a person accepted the unknown'')]"

definition PHASES :: "string dict" where
  "PHASES =
     [(''Held'', ''waits for a person''), (''Pending'', ''waits its turn''), (''Running'', ''is running''),
      (''Verifying'', ''is being checked''), ([], ''is not admitted yet'')]"

definition verificationLabel :: "string option \<Rightarrow> string" where
  "verificationLabel v =
     (let w = nullish (map_of VERIFICATIONS (nullish v [])) (nullish v [])
      in if w \<noteq> [] then ascii_upper (hd w) # tl w else [])"

definition outcomeTone :: "string option \<Rightarrow> string" where
  "outcomeTone outcome =
     (if outcome = Some ''Succeeded'' then ''badge-ok''
      else if outcome = Some ''Failed'' \<or> outcome = Some ''Errored'' \<or> outcome = Some ''Rejected'' then ''badge-err''
      else ''badge-neutral'')"

record change_facts =
  cf_type :: "string option"
  cf_stage :: "string option"
  cf_from :: "string option"
  cf_to :: "string option"
  cf_phase :: "string option"
  cf_outcome :: "string option"
  cf_verification :: "string option"

text \<open>\<open>TABLE[x ?? ''] ?? x\<close>, kept when it is a word.\<close>

definition word_or_raw :: "string dict \<Rightarrow> string option \<Rightarrow> string list" where
  "word_or_raw table x = (let w = nullish (map_of table (nullish x [])) (nullish x []) in if w = [] then [] else [w])"

definition changeSummary :: "(string \<Rightarrow> string) \<Rightarrow> change_facts option \<Rightarrow> string \<Rightarrow> string dict option \<Rightarrow> string" where
  "changeSummary lower e ns versions =
     (case e of
        None \<Rightarrow> []
      | Some f \<Rightarrow>
          let level_change = (cf_type f = Some AUTONOMY_TYPE);
              v = (\<lambda>d. if level_change then levelLabel d else versionLabel d versions);
              move = (if truthy (cf_from f) \<and> truthy (cf_to f) then '' from '' @ v (cf_from f) @ '' to '' @ v (cf_to f)
                else if truthy (cf_to f) then '' to '' @ v (cf_to f) else []);
              lead = (if level_change then ''The level of'' else typeLabel (cf_type f));
              what = lead @ '' '' @ nullish (cf_stage f) [] @ '' in '' @ ns @ move
          in if cf_phase f = Some ''Concluded'' then
               let ends = join '', '' (word_or_raw OUTCOMES (cf_outcome f) @ word_or_raw VERIFICATIONS (cf_verification f))
               in what @ '' '' @ (if ends \<noteq> [] then ''ended: it '' @ ends else ''ended'') @ ''.''
             else
               what @ '' '' @ nullish (map_of PHASES (nullish (cf_phase f) [])) (''is '' @ lower (nullish (cf_phase f) [])) @ ''.'')"

text \<open>What the server asks of a held operation: whether it applied, and the decision its plan named.\<close>

definition decisionAsked :: "bool \<Rightarrow> string option \<Rightarrow> string" where
  "decisionAsked applied asked = (if applied \<or> \<not> truthy asked then ''accept-unknown'' else the asked)"

definition cliDecision :: "string \<Rightarrow> string \<Rightarrow> string \<Rightarrow> string" where
  "cliDecision ns name decision = ''pacto delivery approve -n '' @ ns @ '' '' @ name @ '' --decision '' @ decision"

section \<open>How far delivery runs on its own\<close>

text \<open>The approvals key may be absent (\<open>None\<close>), null (\<open>Some None\<close>) or a list of decisions.\<close>

record autonomy_entry =
  ae_type :: "string option"
  ae_kind :: "string option"
  ae_phase :: "string option"
  ae_actorClass :: "string option"
  ae_verification :: "string option"
  ae_approvals :: "string option list option option"

definition ended_promotion :: "autonomy_entry \<Rightarrow> bool" where
  "ended_promotion e =
     (ae_type e = Some ''delivery.pacto.trianalab.io/promote'' \<and> ae_kind e \<noteq> Some ''gap'' \<and>
      ae_kind e \<noteq> Some ''unrecordable'' \<and> ae_phase e = Some ''Concluded'')"

definition approvals_of :: "autonomy_entry \<Rightarrow> string option list" where
  "approvals_of e = nullish (nullish (ae_approvals e) None) []"

definition was_unknown :: "autonomy_entry \<Rightarrow> bool" where
  "was_unknown e = (ae_verification e = Some ''AcceptedUnknown'' \<or> Some ''accept-unknown'' \<in> set (approvals_of e))"

record autonomy =
  au_total :: nat
  au_noPerson :: nat
  au_onlyUnknown :: nat

definition autonomyOf :: "autonomy_entry list \<Rightarrow> autonomy option" where
  "autonomyOf entries =
     (let done = filter ended_promotion entries in
      if list_ex (\<lambda>e. ae_approvals e = None) done then None
      else Some \<lparr>
        au_total = length done,
        au_noPerson = length (filter (\<lambda>e. ae_actorClass e \<noteq> Some ''human'' \<and> approvals_of e = [] \<and> \<not> was_unknown e) done),
        au_onlyUnknown = length (filter (\<lambda>e. was_unknown e \<and> Some ''approve'' \<notin> set (approvals_of e)) done) \<rparr>)"

section \<open>What a check concluded\<close>

definition EVIDENCE_GATES :: "string list" where
  "EVIDENCE_GATES = [''pacto.diff'', ''pacto.impact'', ''pacto.environment'']"

definition CLASSIFICATION_CHIPS :: "string dict" where
  "CLASSIFICATION_CHIPS = [(''BREAKING'', ''Breaking''), (''POTENTIAL_BREAKING'', ''May break'')]"

record verdict_badge =
  vb_label :: string
  vb_tone :: string
  vb_chip :: string

definition verdictBadge :: "string option \<Rightarrow> string option \<Rightarrow> string dict option \<Rightarrow> verdict_badge" where
  "verdictBadge gate result citation =
     (let c = nullish citation [];
          chip = nullish (map_of CLASSIFICATION_CHIPS (nullish (map_of c ''classification'') [])) [] in
      if map_of c ''applicable'' = Some ''false'' then \<lparr> vb_label = ''N/A'', vb_tone = ''badge-neutral'', vb_chip = chip \<rparr>
      else if result = Some ''Pass'' \<and> nullish gate [] \<in> set EVIDENCE_GATES
      then \<lparr> vb_label = ''Checked'', vb_tone = ''badge-neutral'', vb_chip = chip \<rparr>
      else \<lparr> vb_label = nullish result [],
             vb_tone = nullish (map_of [(''Pass'', ''badge-ok''), (''Fail'', ''badge-err''), (''Unknown'', ''badge-warn'')] (nullish result [])) ''badge-neutral'',
             vb_chip = chip \<rparr>)"

definition isBreaking :: "string dict option list option \<Rightarrow> bool" where
  "isBreaking verdicts = list_ex (\<lambda>c. map_of (nullish c []) ''classification'' = Some ''BREAKING'') (nullish verdicts [])"

text \<open>\<open>max\<close> is absent for the default of no bound.\<close>

definition andList :: "string list \<Rightarrow> nat option \<Rightarrow> string \<Rightarrow> string" where
  "andList names bound word =
     (let xs = (case bound of
          Some m \<Rightarrow> if m + 1 < length names then take m names @ [formatCount (length names - m) @ '' others''] else names
        | None \<Rightarrow> names)
      in if length xs < 2 then (if xs = [] then [] else hd xs)
         else join '', '' (butlast xs) @ '' '' @ word @ '' '' @ last xs)"

record shadow_facts =
  sf_predicted :: "string option"
  sf_owners :: "string list option"
  sf_question :: "string option"
  sf_observedAt :: "string option"

definition shadowLabel :: "shadow_facts \<Rightarrow> string" where
  "shadowLabel s =
     (if sf_predicted s = Some ''Proceeds'' then ''ship''
      else if sf_predicted s = Some ''Held'' then
        (if nullish (sf_owners s) [] \<noteq> [] then ''hold for '' @ andList (the (sf_owners s)) (Some 3) ''and''
         else ''ask: '' @ or_else (sf_question s) ''a person decides'')
      else if sf_predicted s = Some ''Rejected'' then ''refuse''
      else if sf_predicted s = Some ''Waits'' then ''wait until a person unfreezes it''
      else or_else (sf_predicted s) ''not planned yet'')"

definition heldButRan :: "shadow_facts \<Rightarrow> bool" where
  "heldButRan s = (truthy (sf_observedAt s) \<and> sf_predicted s \<noteq> Some ''Proceeds'')"

section \<open>Blockers and proposals\<close>

definition uid_like :: "string \<Rightarrow> bool" where
  "uid_like s =
     (14 \<le> length s \<and> list_all hex_any (take 8 s) \<and> s ! 8 = CHR ''-'' \<and>
      list_all hex_any (take 4 (drop 9 s)) \<and> s ! 13 = CHR ''-'')"

definition blockerService :: "string option \<Rightarrow> string option \<Rightarrow> string" where
  "blockerService kind subject =
     (let s = nullish subject [] in
      if s = [] \<or> kind = Some ''unlabelled-apply-ref'' \<or> kind = Some ''no-observed-digest'' then []
      else if CHR '':'' \<in> set s \<or> uid_like s then []
      else s)"

text \<open>\<open>\s+\<close> followed by what \<open>k\<close> accepts, greedy and backtracking.\<close>

fun after_gap :: "(string \<Rightarrow> string option) \<Rightarrow> string \<Rightarrow> string option" where
  "after_gap k [] = None"
| "after_gap k (c # s) =
     (if \<not> is_space c then None
      else case after_gap k s of Some r \<Rightarrow> Some r | None \<Rightarrow> k s)"

definition after_subject :: "string \<Rightarrow> string \<Rightarrow> string option" where
  "after_subject subject s =
     (case strip_prefix subject s of
        None \<Rightarrow> None
      | Some [] \<Rightarrow> Some []
      | Some (c # r) \<Rightarrow> if is_space c \<or> c \<in> {CHR ''.'', CHR '','', CHR '';'', CHR '':''} then Some (c # r) else None)"

definition after_preposition :: "string \<Rightarrow> string \<Rightarrow> string option" where
  "after_preposition subject s =
     (case List.find (\<lambda>w. startsWith s w) [''for'', ''of'', ''on'', ''in'', ''by''] of
        None \<Rightarrow> None
      | Some w \<Rightarrow> after_gap (after_subject subject) (drop (length w) s))"

text \<open>The text without the first such phrase.\<close>

fun without_phrase :: "string \<Rightarrow> string \<Rightarrow> string" where
  "without_phrase subject [] = []"
| "without_phrase subject (c # s) =
     (case after_gap (after_preposition subject) (c # s) of
        Some r \<Rightarrow> r
      | None \<Rightarrow> c # without_phrase subject s)"

definition blockerReason :: "string option \<Rightarrow> string option \<Rightarrow> string" where
  "blockerReason message subject =
     (let m = nullish message [] in
      if \<not> truthy subject \<or> \<not> str_includes m (the subject) then m
      else if startsWith m (the subject @ '' '') then ''It '' @ drop (length (the subject) + 1) m
      else without_phrase (the subject) m)"

text \<open>A proposal is its level and how many pieces of evidence earned it.\<close>

definition proposalText :: "string option \<Rightarrow> (string option \<times> nat) option \<Rightarrow> string" where
  "proposalText level proposal =
     (case proposal of
        None \<Rightarrow> ''Nothing to propose yet.''
      | Some (lv, n) \<Rightarrow>
          if \<not> truthy lv then ''Nothing to propose yet.''
          else
            let plural = (if n = 1 then [] else ''s'');
                what = (if level = Some ''observe'' then ''version'' @ plural @ '' GitOps ran that verified''
                  else ''verified promotion'' @ plural)
            in ''Pacto proposes '' @ levelLabel lv @ '': '' @ show_nat n @ '' '' @ what @ '', no incident.'')"

section \<open>Links to Mira\<close>

definition is_web_address :: "string \<Rightarrow> bool" where
  "is_web_address s =
     (let t = map ascii_lower s in startsWith t ''http://'' \<or> startsWith t ''https://'')"

definition strip_slashes :: "string \<Rightarrow> string" where
  "strip_slashes s = rev (dropWhile (\<lambda>c. c = CHR ''/'') (rev s))"

definition miraServiceLink :: "string \<Rightarrow> string option \<Rightarrow> string \<Rightarrow> string option" where
  "miraServiceLink name miraURL range1 =
     (if \<not> truthy miraURL \<or> \<not> is_web_address (the miraURL) then None
      else Some (strip_slashes (the miraURL) @ ''/#/traces?q='' @
        encodeURIComponent (''service.name='' @ [CHR 0x22] @ name @ [CHR 0x22]) @ ''&range='' @ encodeURIComponent range1))"

text \<open>Capabilities: the Mira address and whether permissions hide something.\<close>

definition entityMiraURL :: "(string option \<times> bool) option \<Rightarrow> string" where
  "entityMiraURL caps =
     (case caps of None \<Rightarrow> [] | Some (url, hidden) \<Rightarrow> if hidden then [] else nullish url [])"

section \<open>What the helpers keep\<close>

lemma strip_suffix: "suffix (nullish (strip_prefix p s) s) s"
  by (cases "strip_prefix p s") (auto simp: nullish_def strip_prefix_Some suffix_def)

lemma reason_loop_clean: "shown_code shown (reason_loop shown r) = None \<and> suffix (reason_loop shown r) r"
proof (induction shown r rule: reason_loop.induct)
  case (1 shown r)
  show ?case
  proof (cases "shown_code shown r")
    case None
    then show ?thesis by (subst (1 2) reason_loop.simps) simp
  next
    case (Some c)
    let ?r = "drop (length c) r"
    have IH: "shown_code shown (reason_loop shown (nullish (strip_prefix '': '' ?r) ?r)) = None"
      "suffix (reason_loop shown (nullish (strip_prefix '': '' ?r) ?r)) (nullish (strip_prefix '': '' ?r) ?r)"
      using 1[OF Some refl] by simp_all
    have "reason_loop shown r = reason_loop shown (nullish (strip_prefix '': '' ?r) ?r)"
      by (subst reason_loop.simps) (simp add: Some Let_def)
    moreover have "suffix (nullish (strip_prefix '': '' ?r) ?r) r"
      by (rule suffix_order.order_trans[OF strip_suffix]) (rule suffix_drop)
    ultimately show ?thesis using IH suffix_order.order_trans by metis
  qed
qed

text \<open>C38: The loop that drops the codes already shown ends on every reason, and what is left is the end of
  the reason with no shown code in front of it.\<close>

theorem reasonAfter_clean:
  "suffix (reasonAfter reason shown) (trim (nullish reason [])) \<and>
   list_all (\<lambda>x. x = [] \<or> reasonAfter reason shown \<noteq> x \<and> \<not> startsWith (reasonAfter reason shown) (x @ '': ''))
     (map (\<lambda>x. nullish x []) shown)"
proof -
  let ?r = "reasonAfter reason shown"
  have none: "shown_code shown ?r = None" and suf: "suffix ?r (trim (nullish reason []))"
    using reason_loop_clean[of shown "trim (nullish reason [])"] by (simp_all add: reasonAfter_def)
  have "nullish x [] = [] \<or> ?r \<noteq> nullish x [] \<and> \<not> startsWith ?r (nullish x [] @ '': '')" if "x \<in> set shown" for x
  proof (cases "truthy x")
    case False
    then show ?thesis by (cases x) (auto simp: truthy_def nullish_def)
  next
    case True
    then obtain y where y: "x = Some y" by (cases x) (auto simp: truthy_def)
    have "find (\<lambda>x. truthy x \<and> (Some ?r = x \<or> startsWith ?r (the x @ '': ''))) shown = None"
    proof (rule ccontr)
      assume "find (\<lambda>x. truthy x \<and> (Some ?r = x \<or> startsWith ?r (the x @ '': ''))) shown \<noteq> None"
      then obtain z where z: "find (\<lambda>x. truthy x \<and> (Some ?r = x \<or> startsWith ?r (the x @ '': ''))) shown = Some z" by blast
      then have "truthy z" by (auto simp: find_Some_iff)
      then show False using none z by (cases z) (simp_all add: shown_code_def truthy_def)
    qed
    then have "\<not> (truthy x \<and> (Some ?r = x \<or> startsWith ?r (the x @ '': '')))" using that by (auto simp: find_None_iff)
    with True y show ?thesis by simp
  qed
  with suf show ?thesis by (auto simp: list_all_iff)
qed

lemma digest_matchD:
  assumes "digest_match s = Some n"
  shows "n \<in> {19, 71}" "n \<le> length s" "prefix ''sha256:'' s" "list_all is_hex (take (n - 7) (drop 7 s))"
proof -
  obtain r where s: "s = ''sha256:'' @ r" and h: "length (takeWhile is_hex r) = n - 7" and n: "n \<in> {19, 71}"
    using assms by (auto simp: digest_match_def digest_run_def strip_prefix_Some split: option.splits if_splits)
  have le: "n - 7 \<le> length r" using h length_takeWhile_le[of is_hex r] by simp
  have "take (n - 7) r = takeWhile is_hex r" using h by (metis takeWhile_eq_take)
  then show "list_all is_hex (take (n - 7) (drop 7 s))" using s by (simp add: list_all_iff) (metis set_takeWhileD)
  show "n \<in> {19, 71}" by (rule n)
  show "n \<le> length s" using n le s by auto
  show "prefix ''sha256:'' s" using s by simp
qed

text \<open>What a piece stands for in the text: itself, or a digest, whole or cut to its first 12 digits.\<close>

definition piece_of :: "string \<Rightarrow> digest_part \<Rightarrow> bool" where
  "piece_of p d =
     (case dp_full d of
        None \<Rightarrow> p = dp_text d
      | Some f \<Rightarrow> length f = 71 \<and> dp_text d = shortDigest_delivery (Some f) \<and> (p = f \<or> p = take 19 f))"

lemma known_digest_piece:
  assumes "length m \<in> {19, 71}"
  shows "piece_of m (known_digest known m)"
proof -
  define hits where "hits = (if length m = 71 then [m]
    else uniq (concat (map (\<lambda>k. case k of Some x \<Rightarrow> if length x = 71 \<and> startsWith x m then [x] else [] | None \<Rightarrow> []) known)))"
  have eq: "known_digest known m =
      (if length hits = 1 then \<lparr> dp_text = shortDigest_delivery (Some (hd hits)), dp_full = Some (hd hits) \<rparr>
       else \<lparr> dp_text = m, dp_full = None \<rparr>)"
    by (simp add: known_digest_def hits_def Let_def)
  have hit: "length f = 71 \<and> prefix m f" if "f \<in> set hits" for f
    using that by (auto simp: hits_def startsWith_def split: if_splits option.splits)
  show ?thesis
  proof (cases "length hits = 1")
    case True
    then have "hd hits \<in> set hits" by (cases hits) auto
    from hit[OF this] obtain r where f: "length (hd hits) = 71" "hd hits = m @ r" by (auto simp: prefix_def)
    then have "m = hd hits \<or> m = take 19 (hd hits)" using assms by auto
    with True f show ?thesis by (simp add: eq piece_of_def)
  qed (auto simp: eq piece_of_def)
qed

lemma digest_parts_cover: "\<exists>ps. concat ps = acc @ s \<and> list_all2 piece_of ps (digest_parts known acc s)"
proof (induction known acc s rule: digest_parts.induct)
  case (1 known acc)
  then show ?case by (intro exI[of _ "if acc = [] then [] else [acc]"]) (auto simp: piece_of_def)
next
  case (2 known acc c s)
  show ?case
  proof (cases "digest_match (c # s)")
    case None
    then show ?thesis using 2(1)[OF None] by simp
  next
    case (Some n)
    note m = digest_matchD[OF Some]
    obtain ps where ps: "concat ps = drop (n - 1) s" "list_all2 piece_of ps (digest_parts known [] (drop (n - 1) s))"
      using 2(2)[OF Some] by auto
    have rest: "take n (c # s) @ drop (n - 1) s = c # s" using m(1) by (cases n) auto
    have "length (take n (c # s)) \<in> {19, 71}" using m(1,2) by (auto simp: min_def)
    then have "piece_of (take n (c # s)) (known_digest known (take n (c # s)))" by (rule known_digest_piece)
    moreover have "list_all2 piece_of (if acc = [] then [] else [acc]) (if acc = [] then [] else [\<lparr> dp_text = acc, dp_full = None \<rparr>])"
      by (simp add: piece_of_def)
    ultimately show ?thesis using ps rest Some
      by (intro exI[of _ "(if acc = [] then [] else [acc]) @ take n (c # s) # ps"])
        (auto intro!: list_all2_appendI simp del: take_Suc_Cons)
  qed
qed

text \<open>C39: Splitting a sentence around its digests loses nothing.  The pieces, each read as the text it stands for --
  a plain piece as itself, a digest as the full id shown or its first 12 digits -- put together
  are the sentence, and every full id shown has the piece's text as its short form.\<close>

theorem digestParts_cover:
  "\<exists>ps. concat ps = nullish text [] \<and> list_all2 piece_of ps (digestParts text known)"
  using digest_parts_cover[of "[]" "nullish text []" known] by (simp add: digestParts_def)

text \<open>The two shares of the promotions never overlap.\<close>

lemma autonomyOf_disjoint:
  assumes "autonomyOf entries = Some a"
  shows "au_noPerson a + au_onlyUnknown a \<le> au_total a"
proof -
  define ended where "ended = filter ended_promotion entries"
  have "a = \<lparr> au_total = length ended,
        au_noPerson = length (filter (\<lambda>e. ae_actorClass e \<noteq> Some ''human'' \<and> approvals_of e = [] \<and> \<not> was_unknown e) ended),
        au_onlyUnknown = length (filter (\<lambda>e. was_unknown e \<and> Some ''approve'' \<notin> set (approvals_of e)) ended) \<rparr>"
    using assms by (auto simp: autonomyOf_def ended_def Let_def split: if_splits)
  moreover have "length (filter (\<lambda>e. ae_actorClass e \<noteq> Some ''human'' \<and> approvals_of e = [] \<and> \<not> was_unknown e) xs) +
      length (filter (\<lambda>e. was_unknown e \<and> Some ''approve'' \<notin> set (approvals_of e)) xs) \<le> length xs" for xs
    by (induction xs) auto
  ultimately show ?thesis by simp
qed

text \<open>Green is kept for a check that judged: never for one that only gathers evidence.\<close>

lemma verdictBadge_green:
  "vb_tone (verdictBadge gate result citation) = ''badge-ok'' \<longleftrightarrow>
     result = Some ''Pass'' \<and> nullish gate [] \<notin> set EVIDENCE_GATES \<and> map_of (nullish citation []) ''applicable'' \<noteq> Some ''false''"
  by (cases result) (auto simp: verdictBadge_def Let_def nullish_def)

end
