(* ===== verification/Distributions.thy ===== *)
theory Distributions
  imports Format
begin

text \<open>
  Backend tallies as chart segments (\<open>lib/distributions.ts\<close>): the states of each taxonomy with
  their one wording, tone and filter value, the segments of a tally, the drill-down links, the
  owner ranking and its notes, and the state a signature check is shown under.

  A tally is the numbers it carries by field name; counts are integers, as the wire has them.
\<close>

section \<open>States and segments\<close>

record segment =
  sg_label :: string
  sg_value :: int
  sg_tone :: string
  sg_href :: "string option"

record bucket_state =
  bs_value :: string
  bs_field :: string
  bs_label :: string
  bs_tone :: string

text \<open>\<open>v || 0\<close>.\<close>

definition count_or_zero :: "int option \<Rightarrow> int" where
  "count_or_zero v = nullish v 0"

definition stateSegments :: "bucket_state list \<Rightarrow> int dict option \<Rightarrow> string dict \<Rightarrow> segment list" where
  "stateSegments states tally hrefs =
     (let t = nullish tally [] in
      map (\<lambda>s. \<lparr> sg_label = bs_label s, sg_value = count_or_zero (map_of t (bs_field s)), sg_tone = bs_tone s,
                 sg_href = map_of hrefs (bs_field s) \<rparr>) states)"

definition bucketLabel :: "bucket_state list \<Rightarrow> string \<Rightarrow> string" where
  "bucketLabel states value =
     or_else (map_option bs_label (find (\<lambda>s. bs_value s = value) states)) value"

definition bucket :: "string \<Rightarrow> string \<Rightarrow> string \<Rightarrow> string \<Rightarrow> bucket_state" where
  "bucket value field label tone = \<lparr> bs_value = value, bs_field = field, bs_label = label, bs_tone = tone \<rparr>"

definition COMPLIANCE_STATES :: "bucket_state list" where
  "COMPLIANCE_STATES =
     map (\<lambda>(value, field). bucket value field (statusLabel (Some value)) (statusTone (Some value)))
       [(''Compliant'', ''compliant''), (''NonCompliant'', ''nonCompliant''), (''Unknown'', ''unknown''),
        (''Warning'', ''warning''), (''Invalid'', ''invalid''), (''Reference'', ''reference''),
        (''NotEvaluated'', ''notEvaluated'')] @
     [bucket [] ''other'' ''Other'' ''neutral'']"

definition complianceSegments :: "int dict option \<Rightarrow> string dict \<Rightarrow> segment list" where
  "complianceSegments t hrefs = stateSegments COMPLIANCE_STATES t hrefs"

text \<open>\<open>Object.fromEntries(states.filter((s) => s.value).map((s) => [s.field, url(s.value)]))\<close>.\<close>

definition state_hrefs :: "bucket_state list \<Rightarrow> (string \<Rightarrow> string) \<Rightarrow> string dict" where
  "state_hrefs states url =
     fold (\<lambda>s acc. AList.update (bs_field s) (url (bs_value s)) acc) (filter (\<lambda>s. bs_value s \<noteq> []) states) []"

definition statusHrefs :: "(string \<Rightarrow> string) \<Rightarrow> string dict" where
  "statusHrefs url = state_hrefs COMPLIANCE_STATES url"

definition plain_segment :: "string \<Rightarrow> int \<Rightarrow> string \<Rightarrow> segment" where
  "plain_segment label v tone = \<lparr> sg_label = label, sg_value = v, sg_tone = tone, sg_href = None \<rparr>"

definition linkSegments :: "int dict option \<Rightarrow> segment list" where
  "linkSegments t =
     (let l = nullish t []; v = (\<lambda>f. count_or_zero (map_of l f)) in
      [plain_segment ''Exact'' (v ''exact'') ''ok'', plain_segment ''Inferred'' (v ''inferred'') ''info'',
       plain_segment ''Ambiguous'' (v ''ambiguous'') ''warn'', plain_segment ''Unresolved'' (v ''unresolved'') ''warn''])"

definition SEVERITY_STATES :: "bucket_state list" where
  "SEVERITY_STATES =
     [bucket ''error'' ''errors'' ''Errors'' ''err'', bucket ''warning'' ''warnings'' ''Warnings'' ''warn'',
      bucket ''info'' ''infos'' ''Info'' ''info'', bucket [] ''unknown'' ''Unknown severity'' ''neutral'']"

definition severitySegments :: "int dict option \<Rightarrow> string dict \<Rightarrow> segment list" where
  "severitySegments t hrefs = stateSegments SEVERITY_STATES t hrefs"

definition severityHrefs :: "(string \<Rightarrow> string) \<Rightarrow> string dict" where
  "severityHrefs url = state_hrefs SEVERITY_STATES url"

definition evidenceSegments :: "int dict option \<Rightarrow> segment list" where
  "evidenceSegments e =
     (let w = nullish e []; v = (\<lambda>f. count_or_zero (map_of w f)) in
      [plain_segment ''Fresh evidence'' (max 0 (v ''withEvidence'' - v ''stale'')) ''ok'',
       plain_segment ''Stale evidence'' (v ''stale'') ''warn'',
       plain_segment ''No evidence'' (v ''withoutEvidence'') ''neutral''])"

definition OWNERSHIP_STATES :: "bucket_state list" where
  "OWNERSHIP_STATES =
     [bucket ''consistent'' ''consistent'' ''One declared owner'' ''ok'',
      bucket ''conflicting'' ''conflicting'' ''Revisions name different owners'' ''err'',
      bucket ''unowned'' ''unowned'' ''No declared owner'' ''warn'']"

definition ownershipSegments :: "int dict option \<Rightarrow> string dict \<Rightarrow> segment list" where
  "ownershipSegments t hrefs = stateSegments OWNERSHIP_STATES t hrefs"

definition ownershipHrefs :: "(string \<Rightarrow> string) \<Rightarrow> string dict" where
  "ownershipHrefs url =
     fold (\<lambda>s acc. AList.update (bs_field s) (url (bs_value s)) acc) OWNERSHIP_STATES []"

definition READINESS_STATES :: "bucket_state list" where
  "READINESS_STATES =
     [bucket ''passing'' ''passing'' ''Passing'' ''ok'',
      bucket ''below-threshold'' ''belowThreshold'' ''Below its own threshold'' ''warn'',
      bucket ''expired'' ''expired'' ''Assessment expired'' ''warn'',
      bucket ''not-declared'' ''notDeclared'' ''Not assessed'' ''neutral'']"

definition readinessSegments :: "int dict option \<Rightarrow> string dict \<Rightarrow> segment list" where
  "readinessSegments t hrefs = stateSegments READINESS_STATES t hrefs"

definition SIGNATURE_STATES :: "bucket_state list" where
  "SIGNATURE_STATES =
     [bucket ''verified'' ''verified'' ''Verified'' ''ok'', bucket ''unverified'' ''unverified'' ''Unverified'' ''err'',
      bucket ''unsigned'' ''unsigned'' ''Unsigned'' ''warn'', bucket ''unknown'' ''unknown'' ''Unknown'' ''neutral'',
      bucket ''not-checked'' ''notChecked'' ''Not checked'' ''neutral'']"

definition signatureSegments :: "int dict option \<Rightarrow> segment list" where
  "signatureSegments t = stateSegments SIGNATURE_STATES t []"

text \<open>A signature check is its status and its signer.\<close>

definition signatureState :: "(string option \<times> string option) option \<Rightarrow> bucket_state" where
  "signatureState sig =
     (let v = (case sig of
          None \<Rightarrow> Some ''not-checked''
        | Some (status, signer) \<Rightarrow> if status = Some ''verified'' \<and> \<not> truthy signer then Some ''unknown'' else status)
      in nullish (find (\<lambda>s. Some (bs_value s) = v) SIGNATURE_STATES) (SIGNATURE_STATES ! 3))"

definition changeSegments :: "int dict option \<Rightarrow> segment list" where
  "changeSegments c =
     (let x = nullish c []; v = (\<lambda>f. count_or_zero (map_of x f)) in
      [plain_segment ''Breaking'' (v ''breaking'') ''err'', plain_segment ''Potentially breaking'' (v ''potential'') ''warn'',
       plain_segment ''Non-breaking'' (v ''nonBreaking'') ''ok''])"

definition VERDICT_META :: "(string \<times> string) dict" where
  "VERDICT_META =
     [(''incompatible'', ''Incompatible'', ''err''), (''compatible'', ''Compatible'', ''ok''),
      (''unknown'', ''Compatibility unknown'', ''warn'')]"

definition CONFIDENCE_META :: "(string \<times> string) dict" where
  "CONFIDENCE_META =
     [(''corroborated'', ''Declared and observed'', ''ok''), (''contractual'', ''Declared with a range'', ''ok''),
      (''declared'', ''Declared only'', ''info''), (''observed'', ''Observed only'', ''info''),
      (''inferred'', ''Reached through another service'', ''neutral''), (''unknown'', ''Evidence incomplete'', ''warn'')]"

definition buckets :: "(string option \<times> int option) list option \<Rightarrow> (string \<times> string) dict \<Rightarrow> segment list" where
  "buckets items meta =
     map (\<lambda>(key, c).
       let m = map_of meta (or_else key [])
       in plain_segment (nullish (map_option fst m) (or_else key ''Unknown'')) (count_or_zero c) (nullish (map_option snd m) ''neutral''))
       (nullish items [])"

definition verdictSegments :: "(string option \<times> int option) list option \<Rightarrow> segment list" where
  "verdictSegments items = buckets items VERDICT_META"

definition confidenceSegments :: "(string option \<times> int option) list option \<Rightarrow> segment list" where
  "confidenceSegments items = buckets items CONFIDENCE_META"

definition segmentTotal :: "segment list \<Rightarrow> int" where
  "segmentTotal segments = sum_list (map sg_value segments)"

section \<open>The owner ranking\<close>

record owner_count =
  oc_key :: "string option"
  oc_label :: "string option"
  oc_kind :: "string option"
  oc_ambiguous :: bool
  oc_services :: "int option"
  oc_targets :: "int option"

record ranking_tally =
  rt_byOwner :: "owner_count list option"
  rt_beyond :: "int option"
  rt_unidentified :: "int option"
  rt_ranked :: "int option"
  rt_distinct :: "int option"

record ranking =
  rk_distinct :: int
  rk_ranked :: int
  rk_services :: "segment list"
  rk_targets :: "segment list"
  rk_note :: string
  rk_unidentified :: int
  rk_unidentifiedNote :: string

definition kindOf :: "owner_count \<Rightarrow> string" where
  "kindOf o1 = (if oc_kind o1 = Some ''dri'' then ''DRI'' else if oc_kind o1 = Some ''team'' then ''Team'' else [])"

definition rowLabel :: "owner_count \<Rightarrow> string" where
  "rowLabel o1 =
     (let label = or_else (oc_label o1) (or_else (oc_key o1) []); kind = kindOf o1
      in if oc_ambiguous o1 \<and> kind \<noteq> [] then label @ '' ('' @ kind @ '')'' else label)"

definition owner_row :: "(string \<Rightarrow> string) \<Rightarrow> owner_count \<Rightarrow> int option \<Rightarrow> segment" where
  "owner_row href o1 v =
     \<lparr> sg_label = rowLabel o1, sg_value = count_or_zero v, sg_tone = ''info'', sg_href = Some (href (or_else (oc_key o1) [])) \<rparr>"

definition ranking_scope :: "int \<Rightarrow> int \<Rightarrow> int \<Rightarrow> string" where
  "ranking_scope shown ranked distinct1 =
     (let owners = (if ranked = 1 then ''owner'' else ''owners'') in
      if ranked = distinct1 then
        ''Top '' @ show_int shown @ '' of '' @ show_int ranked @ '' named '' @ owners @ '' by service count.''
      else
        ''Top '' @ show_int shown @ '' of '' @ show_int ranked @ '' rankable '' @ owners @ '' by service count, out of '' @
        show_int distinct1 @ '' named across these services. The other '' @ show_int (distinct1 - ranked) @ '' '' @
        (if distinct1 - ranked = 1 then ''is named only by services whose revisions disagree''
         else ''are named only by services whose revisions disagree'') @ ''.'')"

definition ranking_tail :: "int \<Rightarrow> int \<Rightarrow> int \<Rightarrow> string" where
  "ranking_tail shown ranked beyond =
     (let rest = ranked - shown in
      if 0 < beyond then
        '' '' @ (if rest = 1 then ''The remaining owner accounts''
          else ''The remaining '' @ show_int rest @ '' of '' @ show_int ranked @ '' owners account'') @
        '' for '' @ show_int beyond @ '' more '' @ (if beyond = 1 then ''service'' else ''services'') @ ''.''
      else [])"

definition ownerRanking :: "ranking_tally option \<Rightarrow> (string \<Rightarrow> string) \<Rightarrow> ranking" where
  "ownerRanking agg href =
     (let rows = nullish (Option.bind agg rt_byOwner) [];
          num = (\<lambda>f. count_or_zero (Option.bind agg f));
          shown = int (length rows);
          un = num rt_unidentified
      in \<lparr> rk_distinct = num rt_distinct, rk_ranked = num rt_ranked,
           rk_services = map (\<lambda>o1. owner_row href o1 (oc_services o1)) rows,
           rk_targets = map (\<lambda>o1. owner_row href o1 (oc_targets o1)) rows,
           rk_note = (if rows \<noteq> [] then
               ranking_scope shown (num rt_ranked) (num rt_distinct) @ ranking_tail shown (num rt_ranked) (num rt_beyond) @
               '' Services with no declared owner, or whose revisions name different owners, appear in no row here.''
             else []),
           rk_unidentified = un,
           rk_unidentifiedNote = (if 0 < un then
               show_int un @ '' '' @ (if un = 1 then ''service'' else ''services'') @ '' '' @ (if un = 1 then ''is'' else ''are'') @
               '' consistently owned by a declaration that names no team or DRI, only contacts. It has no team or person to rank or link to, so it appears in no row above.''
             else []) \<rparr>)"

section \<open>A legend row and its filter name the same slice\<close>

lemma state_hrefs_get:
  "distinct (map bs_field states) \<Longrightarrow> s \<in> set states \<Longrightarrow>
    map_of (state_hrefs states url) (bs_field s) = (if bs_value s = [] then None else Some (url (bs_value s)))"
proof -
  have gen: "map_of (fold (\<lambda>s acc. AList.update (bs_field s) (url (bs_value s)) acc) xs acc) f =
      (case find (\<lambda>s. bs_field s = f) (rev xs) of Some s \<Rightarrow> Some (url (bs_value s)) | None \<Rightarrow> map_of acc f)" for xs acc f
    by (induction xs rule: rev_induct) (auto simp: AList.update_conv' split: option.splits)
  assume d: "distinct (map bs_field states)" and s: "s \<in> set states"
  let ?xs = "filter (\<lambda>s. bs_value s \<noteq> []) states"
  have inj: "\<And>t. t \<in> set states \<Longrightarrow> bs_field t = bs_field s \<Longrightarrow> t = s" using d s by (auto simp: distinct_map inj_on_def)
  show ?thesis
  proof (cases "find (\<lambda>t. bs_field t = bs_field s) (rev ?xs)")
    case None
    then have "bs_value s = []" using s by (auto simp: find_None_iff)
    with None show ?thesis by (simp add: state_hrefs_def gen)
  next
    case (Some t)
    then obtain i where i: "i < length (rev ?xs)" "bs_field (rev ?xs ! i) = bs_field s" "t = rev ?xs ! i"
      unfolding find_Some_iff by blast
    from nth_mem[OF i(1)] have "t \<in> set ?xs" unfolding i(3) set_rev .
    moreover have "bs_field t = bs_field s" using i(2,3) by simp
    ultimately have "t \<in> set ?xs" "bs_field t = bs_field s" by blast+
    then have "t = s" "bs_value s \<noteq> []" using inj by auto
    with Some show ?thesis by (simp add: state_hrefs_def gen)
  qed
qed

text \<open>A segment that shows its state and links to it.\<close>

definition same_slice :: "int dict option \<Rightarrow> (string \<Rightarrow> string) \<Rightarrow> bucket_state \<Rightarrow> segment \<Rightarrow> bool" where
  "same_slice t url s g =
     (sg_label g = bs_label s \<and> sg_tone g = bs_tone s \<and> sg_value g = count_or_zero (map_of (nullish t []) (bs_field s)) \<and>
      sg_href g = (if bs_value s = [] then None else Some (url (bs_value s))))"

lemma stateSegments_slices:
  "distinct (map bs_field states) \<Longrightarrow> list_all2 (same_slice t url) states (stateSegments states t (state_hrefs states url))"
  by (auto simp: stateSegments_def list_all2_conv_all_nth same_slice_def state_hrefs_get Let_def)

text \<open>C40: A legend row and the filter it drills into name the same slice.  For the compliance and the severity
  distributions alike, each segment shows its state's own count, wording and tone, links to the
  list filtered by exactly that state's wire value, and has no link exactly when the state has
  no wire value; no two states share a field or a non-empty wire value.\<close>

theorem drilldown_same_slice:
  "list_all2 (same_slice t url) COMPLIANCE_STATES (complianceSegments t (statusHrefs url)) \<and>
   list_all2 (same_slice t url) SEVERITY_STATES (severitySegments t (severityHrefs url)) \<and>
   distinct (map bs_value COMPLIANCE_STATES) \<and> distinct (map bs_value SEVERITY_STATES)"
proof -
  have "distinct (map bs_field COMPLIANCE_STATES)" "distinct (map bs_field SEVERITY_STATES)"
    "distinct (map bs_value COMPLIANCE_STATES)" "distinct (map bs_value SEVERITY_STATES)"
    by (simp_all add: COMPLIANCE_STATES_def SEVERITY_STATES_def bucket_def)
  then show ?thesis
    by (simp add: complianceSegments_def severitySegments_def statusHrefs_def severityHrefs_def stateSegments_slices)
qed

text \<open>Only a signature verified with a named signer is shown as good.\<close>

lemma signatureState_ok:
  "bs_tone (signatureState sig) = ''ok'' \<longleftrightarrow> (\<exists>signer. sig = Some (Some ''verified'', signer) \<and> truthy signer)"
  by (cases sig) (auto simp: signatureState_def SIGNATURE_STATES_def bucket_def nullish_def Let_def split: option.splits if_splits)

text \<open>Fresh, stale and missing evidence add up to the population when no more is stale than has evidence.\<close>

lemma evidence_total:
  assumes "count_or_zero (map_of e ''stale'') \<le> count_or_zero (map_of e ''withEvidence'')"
  shows "segmentTotal (evidenceSegments (Some e)) =
    count_or_zero (map_of e ''withEvidence'') + count_or_zero (map_of e ''withoutEvidence'')"
  using assms by (simp add: segmentTotal_def evidenceSegments_def plain_segment_def nullish_def Let_def)

end
