(* ===== verification/GraphState.thy ===== *)
theory GraphState
  imports Uri Numbers
begin

text \<open>
  The shareable state of the operational graph (\<open>lib/graphState.ts\<close>): what the route
  parameters mean, with defaults and bounds, the knowledge-view toggle, which perspectives a
  focus may be projected in, and the canonical focus a perspective switch adopts.

  Wire strings stay strings, as in the source; a perspective is one of the three the source's
  union type names.
\<close>

section \<open>Data\<close>

datatype perspective = PService | PRevision | PTarget

fun perspective_str :: "perspective \<Rightarrow> string" where
  "perspective_str PService = ''service''"
| "perspective_str PRevision = ''revision''"
| "perspective_str PTarget = ''target''"

definition GRAPH_PERSPECTIVES :: "perspective list" where
  "GRAPH_PERSPECTIVES = [PService, PRevision, PTarget]"

definition DEFAULT_VIEWS :: "string list" where
  "DEFAULT_VIEWS = [''expected'', ''differences'']"

definition MAX_DEPTH :: int where "MAX_DEPTH = 6"
definition DEFAULT_MAX_NODES :: int where "DEFAULT_MAX_NODES = 40"
definition MAX_NODES_STEPS :: "int list" where "MAX_NODES_STEPS = [40, 100, 200]"
definition MAX_NODES :: int where "MAX_NODES = last MAX_NODES_STEPS"

record graph_state =
  gs_kind :: string
  gs_key :: string
  gs_perspective :: perspective
  gs_views :: "string list"
  gs_direction :: string
  gs_depth :: int
  gs_maxNodes :: int

definition KNOWN_VIEWS :: "string list" where
  "KNOWN_VIEWS = [''expected'', ''observed'', ''differences'']"

definition KNOWN_DIRECTIONS :: "string list" where
  "KNOWN_DIRECTIONS = [''dependencies'', ''dependents'', ''both'']"

section \<open>State from the route\<close>

definition hasFocus :: "string dict \<Rightarrow> bool" where
  "hasFocus params = (truthy (map_of params ''kind'') \<and> truthy (map_of params ''sel''))"

definition clampDepth :: "jsnum \<Rightarrow> int" where
  "clampDepth d =
     (case d of
        Fin m e \<Rightarrow> let t = fin_trunc m e in if t < 1 then 1 else min MAX_DEPTH t
      | _ \<Rightarrow> 1)"

definition clampMaxNodes :: "jsnum \<Rightarrow> int" where
  "clampMaxNodes n =
     (case n of
        Fin m e \<Rightarrow> let t = fin_trunc m e in if t < 1 then DEFAULT_MAX_NODES else min MAX_NODES t
      | _ \<Rightarrow> DEFAULT_MAX_NODES)"

definition dedupeViews :: "string list \<Rightarrow> string list" where
  "dedupeViews views = foldl (\<lambda>out v. if v \<in> set out then out else out @ [v]) [] views"

text \<open>\<open>parseInt(undefined, 10)\<close> is NaN.\<close>

definition parse_param :: "string option \<Rightarrow> jsnum" where
  "parse_param v = (case v of None \<Rightarrow> NaN | Some s \<Rightarrow> parseInt10 s)"

definition graphStateFromParams :: "string dict \<Rightarrow> graph_state" where
  "graphStateFromParams params =
     (let views =
        filter (\<lambda>v. v \<in> set KNOWN_VIEWS)
          (map trim (case map_of params ''views'' of
             Some v \<Rightarrow> if v = [] then [] else split_on (CHR '','') v
           | None \<Rightarrow> []));
          perspective =
            nullish (find (\<lambda>p. map_of params ''perspective'' = Some (perspective_str p)) GRAPH_PERSPECTIVES) PService;
          direction =
            (case map_of params ''direction'' of
               Some d \<Rightarrow> if d \<in> set KNOWN_DIRECTIONS then d else ''both''
             | None \<Rightarrow> ''both'')
      in \<lparr> gs_kind = or_else (map_of params ''kind'') [],
           gs_key = or_else (map_of params ''sel'') [],
           gs_perspective = perspective,
           gs_views = (if views \<noteq> [] then dedupeViews views else DEFAULT_VIEWS),
           gs_direction = direction,
           gs_depth = clampDepth (parse_param (map_of params ''depth'')),
           gs_maxNodes = clampMaxNodes (parse_param (map_of params ''maxNodes'')) \<rparr>)"

definition maxEdgesFor :: "int \<Rightarrow> int" where
  "maxEdgesFor maxNodes = min 1000 (2 * maxNodes)"

definition nextMaxNodes :: "int \<Rightarrow> int option" where
  "nextMaxNodes current = find (\<lambda>s. current < s) MAX_NODES_STEPS"

definition toggleView :: "string list \<Rightarrow> string \<Rightarrow> string list" where
  "toggleView views v =
     (if v \<in> set views then
        (let next = filter (\<lambda>x. x \<noteq> v) views in if next \<noteq> [] then next else views)
      else filter (\<lambda>x. x \<in> set views \<or> x = v) [''expected'', ''observed'', ''differences''])"

section \<open>Vocabularies\<close>

definition differenceLabel :: "string option \<Rightarrow> string" where
  "differenceLabel d =
     (if d = Some ''matched'' then ''Matched''
      else if d = Some ''expected-not-observed'' then ''Expected, not observed''
      else if d = Some ''observed-not-expected'' then ''Observed, not expected''
      else if d = Some ''insufficient'' then ''Insufficient evidence''
      else or_else d ''Unknown'')"

definition differenceTone :: "string option \<Rightarrow> string" where
  "differenceTone d =
     (if d = Some ''matched'' then ''ok''
      else if d = Some ''observed-not-expected'' then ''warn''
      else if d = Some ''expected-not-observed'' then ''info''
      else ''neutral'')"

definition differenceDescription :: "string option \<Rightarrow> string" where
  "differenceDescription d =
     (if d = Some ''matched'' then ''Declared and corroborated by observed traffic.''
      else if d = Some ''expected-not-observed'' then
        ''Declared, but not seen in the observation window. It may still be in use.''
      else if d = Some ''observed-not-expected'' then ''Observed at runtime but never declared.''
      else if d = Some ''insufficient'' then
        ''Declared, but there is no observation data to reconcile against.''
      else [])"

definition relationLabel :: "string option \<Rightarrow> string" where
  "relationLabel rel =
     (if rel = Some ''runs'' then ''Runs''
      else if rel = Some ''configuration_reference'' then ''Takes configuration from''
      else ''Depends on'')"

definition corroborationLabel :: "string option \<Rightarrow> string" where
  "corroborationLabel c =
     (if c = Some ''matched'' then ''Service traffic corroborates it''
      else if c = Some ''expected-not-observed'' then ''Declared, service traffic did not witness it''
      else if c = Some ''insufficient'' then ''No service observation to corroborate''
      else [])"

definition corroborationTone :: "string option \<Rightarrow> string" where
  "corroborationTone c =
     (if c = Some ''matched'' then ''ok''
      else if c = Some ''expected-not-observed'' then ''info''
      else ''neutral'')"

definition serviceScopedCaveat :: "string \<Rightarrow> string" where
  "serviceScopedCaveat perspective =
     (if perspective = ''revision'' then
        ''Observation is recorded per service, so it supports the service as a whole and cannot confirm this specific revision edge.''
      else if perspective = ''target'' then
        ''Observation is recorded per service, so it supports the service as a whole and cannot confirm this specific deployment edge.''
      else [])"

section \<open>Focus and perspective\<close>

definition defaultPerspectiveForKind :: "string \<Rightarrow> perspective" where
  "defaultPerspectiveForKind kind =
     (if kind = ''revision'' then PRevision else if kind = ''target'' then PTarget else PService)"

definition availablePerspectives :: "string \<Rightarrow> bool \<Rightarrow> perspective list" where
  "availablePerspectives kind targetRevisionAuthoritative =
     (if kind = ''revision'' then [PService, PRevision]
      else if kind = ''target'' then
        (if targetRevisionAuthoritative then [PService, PRevision, PTarget] else [PService, PTarget])
      else [PService])"

definition revisionLinkAuthoritative :: "string option \<Rightarrow> bool" where
  "revisionLinkAuthoritative revisionState =
     (revisionState = Some ''exact'' \<or> revisionState = Some ''inferred'')"

record canon_ref =
  cr_kind :: string
  cr_key :: string

record canon_edge =
  ce_relation :: "string option"
  ce_to :: "canon_ref option"

record canon_neighborhood =
  cn_focusService :: "canon_ref option"
  cn_projectionFocus :: "canon_ref option"
  cn_edges :: "canon_edge list option"

definition ref_pair :: "canon_ref option \<Rightarrow> (string \<times> string) option" where
  "ref_pair r =
     (case r of
        None \<Rightarrow> None
      | Some x \<Rightarrow> if cr_kind x \<noteq> [] \<and> cr_key x \<noteq> [] then Some (cr_kind x, cr_key x) else None)"

definition canonicalFocusForPerspective ::
  "canon_neighborhood option \<Rightarrow> string \<Rightarrow> perspective \<Rightarrow> (string \<times> string) option" where
  "canonicalFocusForPerspective nb currentKind perspective =
     (case nb of
        None \<Rightarrow> None
      | Some n \<Rightarrow>
          if perspective = PService then ref_pair (cn_focusService n)
          else if perspective = PRevision \<and> currentKind = ''target'' then
            ref_pair
              (case find (\<lambda>e. ce_relation e = Some ''runs'') (nullish (cn_edges n) []) of
                 None \<Rightarrow> None
               | Some e \<Rightarrow> ce_to e)
          else None)"

definition projectionFocusMismatch ::
  "canon_neighborhood option \<Rightarrow> string \<Rightarrow> string \<Rightarrow> (string \<times> string) option" where
  "projectionFocusMismatch nb currentKind currentKey =
     (case ref_pair (case nb of None \<Rightarrow> None | Some n \<Rightarrow> cn_projectionFocus n) of
        None \<Rightarrow> None
      | Some (k, key) \<Rightarrow> if k = currentKind \<and> key = currentKey then None else Some (k, key))"

definition perspectiveSupportsDepth :: "string \<Rightarrow> bool" where
  "perspectiveSupportsDepth perspective = (perspective \<noteq> ''target'')"

text \<open>\<open>edges?.length\<close> and \<open>unresolvedDependencies?.count\<close> of a neighborhood.\<close>

definition neighborhoodIsEmpty :: "(nat option \<times> int option) option \<Rightarrow> bool" where
  "neighborhoodIsEmpty nb =
     (case nb of None \<Rightarrow> False | Some (edges, unresolved) \<Rightarrow> nullish edges 0 = 0 \<and> nullish unresolved 0 = 0)"

section \<open>Views\<close>

lemma dedupeViews_snoc: "dedupeViews (vs @ [v]) = (if v \<in> set vs then dedupeViews vs else dedupeViews vs @ [v])"
proof -
  have "set (dedupeViews vs) = set vs"
    by (induction vs rule: rev_induct) (auto simp: dedupeViews_def)
  then show ?thesis by (simp add: dedupeViews_def)
qed

lemma dedupeViews_set [simp]: "set (dedupeViews vs) = set vs"
  by (induction vs rule: rev_induct) (auto simp: dedupeViews_snoc dedupeViews_def[of "[]"])

lemma dedupeViews_distinct [simp]: "distinct (dedupeViews vs)"
  by (induction vs rule: rev_induct) (auto simp: dedupeViews_snoc dedupeViews_def[of "[]"])

lemma dedupeViews_id: "distinct vs \<Longrightarrow> dedupeViews vs = vs"
  by (induction vs rule: rev_induct) (auto simp: dedupeViews_snoc dedupeViews_def[of "[]"])

lemma dedupeViews_empty [simp]: "dedupeViews vs = [] \<longleftrightarrow> vs = []"
  by (metis dedupeViews_set set_empty)

text \<open>A well-formed state: what the URL may hold and the backend accepts.\<close>

definition wf_views :: "string list \<Rightarrow> bool" where
  "wf_views vs = (vs \<noteq> [] \<and> distinct vs \<and> set vs \<subseteq> set KNOWN_VIEWS)"

definition wf_graph :: "graph_state \<Rightarrow> bool" where
  "wf_graph g = (wf_views (gs_views g) \<and> gs_direction g \<in> set KNOWN_DIRECTIONS \<and>
     1 \<le> gs_depth g \<and> gs_depth g \<le> MAX_DEPTH \<and> 1 \<le> gs_maxNodes g \<and> gs_maxNodes g \<le> MAX_NODES)"

lemmas graph_consts = MAX_DEPTH_def MAX_NODES_def MAX_NODES_STEPS_def DEFAULT_MAX_NODES_def
  KNOWN_VIEWS_def KNOWN_DIRECTIONS_def DEFAULT_VIEWS_def

lemma clampDepth_bounds: "1 \<le> clampDepth d \<and> clampDepth d \<le> MAX_DEPTH"
  by (simp add: clampDepth_def graph_consts Let_def split: jsnum.splits)

lemma clampMaxNodes_bounds: "1 \<le> clampMaxNodes d \<and> clampMaxNodes d \<le> MAX_NODES"
  by (simp add: clampMaxNodes_def graph_consts Let_def split: jsnum.splits)

section \<open>Reading a written number back\<close>

lemma parse_show_nat:
  assumes "n < 2 ^ 53"
  shows "\<exists>m e. parseInt10 (show_nat n) = Fin m e \<and> fin_trunc m e = int n"
  using round_ratio_exact[OF assms] fin_trunc_exact by (metis parseInt10_show_nat)

lemma clampDepth_show:
  assumes "1 \<le> d" "d \<le> MAX_DEPTH"
  shows "clampDepth (parseInt10 (show_int d)) = d"
proof -
  have "nat d < 2 ^ 53" using assms by (simp add: MAX_DEPTH_def nat_less_iff)
  then obtain m e where "parseInt10 (show_nat (nat d)) = Fin m e" "fin_trunc m e = d"
    using parse_show_nat assms by (metis int_nat_eq order_trans zero_le_one)
  with assms show ?thesis by (simp add: clampDepth_def show_int_def)
qed

lemma clampMaxNodes_show:
  assumes "1 \<le> d" "d \<le> MAX_NODES"
  shows "clampMaxNodes (parseInt10 (show_int d)) = d"
proof -
  have "nat d < 2 ^ 53" using assms by (simp add: graph_consts nat_less_iff)
  then obtain m e where "parseInt10 (show_nat (nat d)) = Fin m e" "fin_trunc m e = d"
    using parse_show_nat assms by (metis int_nat_eq order_trans zero_le_one)
  with assms show ?thesis by (simp add: clampMaxNodes_def show_int_def)
qed

section \<open>Properties\<close>

text \<open>C30: Whatever a URL says, the graph state read from it is one the backend honours: at
  least one knowledge view, all of them known and none twice; a known direction; a depth in
  \<open>1..6\<close> and a node budget in \<open>1..200\<close>.\<close>

theorem graphState_bounded: "wf_graph (graphStateFromParams params)"
proof -
  let ?vs = "filter (\<lambda>v. v \<in> set KNOWN_VIEWS)
    (map trim (case map_of params ''views'' of Some v \<Rightarrow> if v = [] then [] else split_on (CHR '','') v | None \<Rightarrow> []))"
  have views: "gs_views (graphStateFromParams params) = (if ?vs \<noteq> [] then dedupeViews ?vs else DEFAULT_VIEWS)"
    by (simp add: graphStateFromParams_def Let_def)
  have "wf_views DEFAULT_VIEWS" by (simp add: wf_views_def graph_consts)
  moreover have "wf_views (dedupeViews ?vs)" if "?vs \<noteq> []" using that by (auto simp: wf_views_def)
  ultimately have "wf_views (gs_views (graphStateFromParams params))" unfolding views by (cases "?vs = []") simp_all
  moreover have "gs_direction (graphStateFromParams params) \<in> set KNOWN_DIRECTIONS"
    by (auto simp: graphStateFromParams_def Let_def KNOWN_DIRECTIONS_def split: option.splits)
  ultimately show ?thesis
    using clampDepth_bounds clampMaxNodes_bounds by (simp add: wf_graph_def graphStateFromParams_def Let_def)
qed

text \<open>Toggling a knowledge view keeps the set of views meaningful and does what it says:
  from well-formed views the result is well-formed (never empty, no duplicates, known views
  only), every other view is untouched, and the toggled view flips unless it is the last one
  left, which stays on.\<close>

theorem toggleView_wf:
  assumes "wf_views vs" "v \<in> set KNOWN_VIEWS"
  shows "wf_views (toggleView vs v) \<and>
    set (toggleView vs v) - {v} = set vs - {v} \<and>
    (v \<in> set (toggleView vs v) \<longleftrightarrow> v \<notin> set vs \<or> set vs = {v})"
proof (cases "v \<in> set vs")
  case True
  have fl: "set (filter (\<lambda>x. x \<noteq> v) vs) = set vs - {v}" by auto
  show ?thesis
  proof (cases "filter (\<lambda>x. x \<noteq> v) vs = []")
    case only: True
    then have "set vs = {v}" using fl True by (metis insert_Diff set_empty)
    moreover have "toggleView vs v = vs" using True only by (simp add: toggleView_def)
    ultimately show ?thesis using assms(1) by simp
  next
    case False
    have tv: "toggleView vs v = filter (\<lambda>x. x \<noteq> v) vs" using True False by (simp add: toggleView_def)
    have "set vs \<noteq> {v}" using False fl by (metis Diff_cancel set_empty)
    then show ?thesis
      unfolding tv wf_views_def fl using assms(1) False True by (auto simp only: wf_views_def distinct_filter)
  qed
next
  case False
  have sub: "set vs \<subseteq> set KNOWN_VIEWS" using assms by (simp add: wf_views_def)
  have tv: "toggleView vs v = filter (\<lambda>x. x \<in> set vs \<or> x = v) KNOWN_VIEWS"
    using False by (simp only: toggleView_def KNOWN_VIEWS_def if_False)
  then have s: "set (toggleView vs v) = insert v (set vs)"
    using sub assms(2) by auto
  have "distinct (toggleView vs v)" unfolding tv by (rule distinct_filter) (simp add: KNOWN_VIEWS_def)
  moreover have "toggleView vs v \<noteq> []" using s by (metis insert_not_empty set_empty)
  moreover have "set vs \<noteq> {v}" using False by blast
  ultimately show ?thesis
    unfolding wf_views_def s using sub assms(2) False by blast
qed

theorem toggleView_wf_witness:
  "toggleView [''expected''] ''expected'' = [''expected''] \<and>
   wf_views (toggleView [''expected'', ''differences''] ''observed'')"
  using toggleView_wf[of "[''expected'', ''differences'']" "''observed''"]
  by (simp add: toggleView_def wf_views_def KNOWN_VIEWS_def)

end
