(* ===== verification/Router.thy ===== *)
theory Router
  imports Paging GraphState
begin

text \<open>
  The hash router (\<open>lib/router.ts\<close>): \<open>parseHash\<close> with its fleet and delivery parts, the URL
  builders, the legacy redirects, and the two ways of changing the location.

  A thrown \<open>URIError\<close> (a malformed percent escape in a path segment) is \<open>None\<close>.  A regular
  expression is a function on strings; its dot matches any character, since a hash holds no
  raw line terminator.  A record of parameters is an insertion-ordered dictionary.  Looking
  a name up in an object literal also finds what the literal inherits from
  \<open>Object.prototype\<close>; \<open>VInherited\<close> is such a value used as a view.
\<close>

section \<open>Data\<close>

datatype view =
    VList | VDetail | VDiff | VGraph | VOwners | VOwnerDetail | VReadiness
  | VFleet | VChanges | VFleetOverview | VFleetServices | VFleetOwners | VFleetSources
  | VFleetDomains | VFleetOfferings | VFleetEntity | VFleetEntityList | VFleetAttention
  | VDeliveryInbox | VDeliveryEnvironments | VDeliveryAutonomy | VDeliveryChange
  | VDeliveryHistory | VDeliveryPublish
  | VInherited string

record route =
  rt_view :: view
  rt_params :: "string dict"

definition KIND_PLURAL :: "string dict" where
  "KIND_PLURAL =
     [(''service'', ''services''), (''revision'', ''revisions''), (''target'', ''targets''),
      (''owner'', ''owners''), (''source'', ''sources''), (''domain'', ''domains''),
      (''offering'', ''offerings'')]"

definition PLURAL_KIND :: "string dict" where
  "PLURAL_KIND =
     [(''services'', ''service''), (''revisions'', ''revision''), (''targets'', ''target''),
      (''owners'', ''owner''), (''sources'', ''source''), (''domains'', ''domain''),
      (''offerings'', ''offering'')]"

text \<open>The members every object literal inherits.\<close>

definition OBJECT_PROTO :: "string list" where
  "OBJECT_PROTO =
     [''constructor'', ''__defineGetter__'', ''__defineSetter__'', ''hasOwnProperty'',
      ''__lookupGetter__'', ''__lookupSetter__'', ''isPrototypeOf'', ''propertyIsEnumerable'',
      ''toString'', ''valueOf'', ''__proto__'', ''toLocaleString'']"

section \<open>Regular expressions and query keys\<close>

text \<open>\<open>hash.replace(/^#\/?/, '')\<close>.\<close>

definition strip_hash :: "string \<Rightarrow> string" where
  "strip_hash h =
     (case strip_prefix ''#'' h of
        None \<Rightarrow> h
      | Some r \<Rightarrow> nullish (strip_prefix ''/'' r) r)"

text \<open>\<open>^p(?:\?(.*))?$\<close>: the outer option is the match, the inner the query group.\<close>

definition opt_query :: "string \<Rightarrow> string \<Rightarrow> string option option" where
  "opt_query p s =
     (case strip_prefix p s of
        None \<Rightarrow> None
      | Some [] \<Rightarrow> Some None
      | Some (c # q) \<Rightarrow> if c = CHR ''?'' then Some (Some q) else None)"

text \<open>\<open>(.+?)\<close> followed by \<open>m\<close>: the shortest non-empty prefix whose rest matches.\<close>

fun lazy_plus :: "(string \<Rightarrow> 'a option) \<Rightarrow> string \<Rightarrow> (string \<times> 'a) option" where
  "lazy_plus m [] = None"
| "lazy_plus m (c # s) =
     (case m s of
        Some x \<Rightarrow> Some ([c], x)
      | None \<Rightarrow> map_option (\<lambda>(p, x). (c # p, x)) (lazy_plus m s))"

text \<open>\<open>^p(.+)$\<close>.\<close>

definition plus_after :: "string \<Rightarrow> string \<Rightarrow> string option" where
  "plus_after p s = (case strip_prefix p s of Some (c # r) \<Rightarrow> Some (c # r) | _ \<Rightarrow> None)"

text \<open>\<open>([^/]+)/(.+)$\<close>.\<close>

definition segment_rest :: "string \<Rightarrow> (string \<times> string) option" where
  "segment_rest s =
     (case cut_at (CHR ''/'') s of
        (a, Some b) \<Rightarrow> if a \<noteq> [] \<and> b \<noteq> [] then Some (a, b) else None
      | _ \<Rightarrow> None)"

text \<open>\<open>for (const k of keys) { const v = qs.get(k); if (v) params[k] = v; }\<close>\<close>

definition take_keys :: "string list \<Rightarrow> params \<Rightarrow> string dict \<Rightarrow> string dict" where
  "take_keys ks qs params =
     foldl (\<lambda>ps k. case qs_get qs k of
         Some v \<Rightarrow> if v \<noteq> [] then AList.update k v ps else ps
       | None \<Rightarrow> ps) params ks"

section \<open>Parsing\<close>

definition FLEET_GRAPH_KEYS :: "string list" where
  "FLEET_GRAPH_KEYS = [''perspective'', ''views'', ''direction'', ''depth'', ''sel'', ''kind'', ''maxNodes'']"

definition FLEET_ATTENTION_KEYS :: "string list" where
  "FLEET_ATTENTION_KEYS =
     [''category'', ''offset'', ''limit'', ''owner'', ''ownerKey'', ''source'', ''service'',
      ''businessDomain'', ''severity'', ''status'', ''staleOnly'']"

definition FLEET_SERVICES_KEYS :: "string list" where
  "FLEET_SERVICES_KEYS =
     [''text'', ''owner'', ''ownerKey'', ''ownership'', ''status'', ''domain'', ''businessDomain'',
      ''capability'', ''offering'', ''consumes'', ''offset'', ''limit'', ''sort'']"

definition parse_fleet_graph :: "string \<Rightarrow> params \<Rightarrow> route option" where
  "parse_fleet_graph rest qs =
     (let params = take_keys FLEET_GRAPH_KEYS qs [] in
      case strip_prefix ''graph/'' rest of
        None \<Rightarrow> Some \<lparr> rt_view = VFleet, rt_params = params \<rparr>
      | Some r \<Rightarrow>
          (case segment_rest r of
             None \<Rightarrow> Some \<lparr> rt_view = VFleet, rt_params = params \<rparr>
           | Some (k, s) \<Rightarrow>
               (case decodeURIComponent k of
                  None \<Rightarrow> None
                | Some kind \<Rightarrow>
                    (case decodeURIComponent s of
                       None \<Rightarrow> None
                     | Some sel \<Rightarrow>
                         Some \<lparr> rt_view = VFleet,
                                rt_params = AList.update ''sel'' sel (AList.update ''kind'' kind params) \<rparr>))))"

definition parse_fleet_changes :: "string \<Rightarrow> params \<Rightarrow> route option" where
  "parse_fleet_changes rest qs =
     (let params = take_keys [''name'', ''old'', ''new'', ''observed''] qs [] in
      case (case plus_after ''changes/'' rest of Some x \<Rightarrow> Some x | None \<Rightarrow> plus_after ''impact/'' rest) of
        None \<Rightarrow> Some \<lparr> rt_view = VChanges, rt_params = params \<rparr>
      | Some x \<Rightarrow>
          map_option (\<lambda>svc. \<lparr> rt_view = VChanges, rt_params = AList.update ''svc'' svc params \<rparr>)
            (decodeURIComponent x))"

definition fleet_list_view :: "string \<Rightarrow> view" where
  "fleet_list_view rest =
     (if rest = ''owners'' then VFleetOwners
      else if rest = ''sources'' then VFleetSources
      else if rest = ''domains'' then VFleetDomains
      else VFleetOfferings)"

definition parse_fleet_entity :: "string \<Rightarrow> route option" where
  "parse_fleet_entity rest =
     (case segment_rest rest of
        Some (plural, r) \<Rightarrow>
          (case map_of PLURAL_KIND plural of
             Some kind \<Rightarrow>
               map_option
                 (\<lambda>key. \<lparr> rt_view = VFleetEntity, rt_params = [(''kind'', kind), (''key'', key)] \<rparr>)
                 (decodeURIComponent r)
           | None \<Rightarrow> Some \<lparr> rt_view = VFleetOverview, rt_params = [] \<rparr>)
      | None \<Rightarrow> Some \<lparr> rt_view = VFleetOverview, rt_params = [] \<rparr>)"

definition parseFleet :: "string \<Rightarrow> string \<Rightarrow> route option" where
  "parseFleet path query =
     (if path = ''fleet'' then Some \<lparr> rt_view = VFleetOverview, rt_params = [] \<rparr>
      else
        let rest = drop (length ''fleet/'') path; qs = qs_parse query in
        if rest = ''graph'' \<or> startsWith rest ''graph/'' then parse_fleet_graph rest qs
        else if rest = ''attention'' then
          Some \<lparr> rt_view = VFleetAttention, rt_params = take_keys FLEET_ATTENTION_KEYS qs [] \<rparr>
        else if rest = ''changes'' \<or> startsWith rest ''changes/'' \<or> startsWith rest ''impact/'' then
          parse_fleet_changes rest qs
        else if rest = ''services'' then
          Some \<lparr> rt_view = VFleetServices, rt_params = take_keys FLEET_SERVICES_KEYS qs [] \<rparr>
        else if rest = ''revisions'' \<or> rest = ''targets'' then
          (let keys = [''text'', ''service'', ''status'', ''scope'', ''offset'', ''limit'', ''sort''];
               ks = (if rest = ''revisions'' then keys @ [''readiness''] else keys @ [''environment''])
           in Some \<lparr> rt_view = VFleetEntityList,
                     rt_params = take_keys ks qs
                       [(''kind'', if rest = ''revisions'' then ''revision'' else ''target'')] \<rparr>)
        else if rest = ''owners'' \<or> rest = ''sources'' \<or> rest = ''domains'' \<or> rest = ''offerings'' then
          Some \<lparr> rt_view = fleet_list_view rest,
                 rt_params = take_keys [''text'', ''sourceHealth'', ''offset'', ''limit'', ''sort''] qs [] \<rparr>
        else parse_fleet_entity rest)"

definition DELIVERY_QUERY :: "string list" where
  "DELIVERY_QUERY =
     [''namespace'', ''stage'', ''offset'', ''limit'', ''q'', ''environment'', ''tier'', ''held'',
      ''frozen'', ''errored'', ''blockers'', ''show'', ''service'', ''domain'']"

text \<open>\<open>^changes/([^/]+)/([^/]+)$\<close>.\<close>

definition change_segments :: "string \<Rightarrow> (string \<times> string) option" where
  "change_segments rest =
     (case strip_prefix ''changes/'' rest of
        None \<Rightarrow> None
      | Some r \<Rightarrow>
          (case segment_rest r of
             Some (a, b) \<Rightarrow> if CHR ''/'' \<in> set b then None else Some (a, b)
           | None \<Rightarrow> None))"

definition delivery_view :: "string \<Rightarrow> view" where
  "delivery_view rest =
     (if rest = ''environments'' then VDeliveryEnvironments
      else if rest = ''autonomy'' then VDeliveryAutonomy
      else if rest = ''publish'' then VDeliveryPublish
      else if rest = ''history'' then VDeliveryHistory
      else if rest \<in> set OBJECT_PROTO then VInherited rest
      else VDeliveryInbox)"

definition delivery_params :: "params \<Rightarrow> string dict" where
  "delivery_params qs =
     (let p = take_keys DELIVERY_QUERY qs [];
          p1 = (if truthy (map_of p ''namespace'') \<and> truthy (map_of p ''stage'') then p
                else AList.delete ''stage'' (AList.delete ''namespace'' p))
      in if truthy (map_of p1 ''service'') then p1 else AList.delete ''domain'' p1)"

definition parseDelivery :: "string \<Rightarrow> string \<Rightarrow> route option" where
  "parseDelivery path query =
     (let r0 = drop (length ''delivery'') path; rest = nullish (strip_prefix ''/'' r0) r0 in
      case change_segments rest of
        Some (a, b) \<Rightarrow>
          (case decodeURIComponent a of
             None \<Rightarrow> None
           | Some ns \<Rightarrow>
               map_option
                 (\<lambda>nm. \<lparr> rt_view = VDeliveryChange, rt_params = [(''namespace'', ns), (''name'', nm)] \<rparr>)
                 (decodeURIComponent b))
      | None \<Rightarrow>
          Some \<lparr> rt_view = delivery_view rest, rt_params = delivery_params (qs_parse query) \<rparr>)"

text \<open>The standalone and the same-service diff routes.\<close>

definition standalone_diff :: "string option \<Rightarrow> route" where
  "standalone_diff q =
     (let qs = (case q of Some s \<Rightarrow> if s = [] then [] else qs_parse s | None \<Rightarrow> []);
          put = (\<lambda>k p ps. case qs_get qs k of Some v \<Rightarrow> if v \<noteq> [] then AList.update p v ps else ps | None \<Rightarrow> ps)
      in \<lparr> rt_view = VDiff,
           rt_params = put ''to_ver'' ''toVer'' (put ''to_name'' ''toName''
             (put ''from_ver'' ''fromVer'' (put ''from_name'' ''fromName'' []))) \<rparr>)"

definition service_diff :: "string \<Rightarrow> string option \<Rightarrow> route" where
  "service_diff name q =
     (let qs = (case q of Some s \<Rightarrow> if s = [] then [] else qs_parse s | None \<Rightarrow> []);
          put = (\<lambda>k p ps. case qs_get qs k of
              Some v \<Rightarrow> if v \<noteq> [] then AList.update p v (AList.update k v ps) else ps
            | None \<Rightarrow> ps)
      in \<lparr> rt_view = VDiff,
           rt_params = put ''to'' ''toVer'' (put ''from'' ''fromVer''
             [(''name'', name), (''fromName'', name), (''toName'', name)]) \<rparr>)"

definition match_service_diff :: "string \<Rightarrow> (string \<times> string option) option" where
  "match_service_diff raw =
     (case strip_prefix ''services/'' raw of None \<Rightarrow> None | Some r \<Rightarrow> lazy_plus (opt_query ''/diff'') r)"

definition match_version :: "string \<Rightarrow> (string \<times> string) option" where
  "match_version path =
     (case strip_prefix ''services/'' path of None \<Rightarrow> None | Some r \<Rightarrow> lazy_plus (plus_after ''/versions/'') r)"

text \<open>The routes whose path is matched without its query.\<close>

definition parse_path :: "string \<Rightarrow> string \<Rightarrow> route option" where
  "parse_path path query =
     (case match_version path of
        Some (n, v) \<Rightarrow>
          (case decodeURIComponent n of
             None \<Rightarrow> None
           | Some name \<Rightarrow>
               map_option
                 (\<lambda>version. \<lparr> rt_view = VDetail, rt_params = [(''name'', name), (''version'', version)] \<rparr>)
                 (decodeURIComponent v))
      | None \<Rightarrow>
        case plus_after ''services/'' path of
          Some n \<Rightarrow>
            map_option (\<lambda>name. \<lparr> rt_view = VDetail, rt_params = [(''name'', name)] \<rparr>) (decodeURIComponent n)
        | None \<Rightarrow>
          if path = ''graph'' then Some \<lparr> rt_view = VGraph, rt_params = [] \<rparr>
          else if path = ''readiness'' then Some \<lparr> rt_view = VReadiness, rt_params = [] \<rparr>
          else if path = ''fleet'' \<or> startsWith path ''fleet/'' then parseFleet path query
          else if path = ''delivery'' \<or> startsWith path ''delivery/'' then parseDelivery path query
          else if path = ''impact'' then
            Some \<lparr> rt_view = VChanges,
                   rt_params = take_keys [''svc'', ''old'', ''new'', ''observed''] (qs_parse query) [] \<rparr>
          else
            case plus_after ''owners/'' path of
              Some k \<Rightarrow>
                map_option (\<lambda>owner. \<lparr> rt_view = VOwnerDetail, rt_params = [(''owner'', owner)] \<rparr>)
                  (decodeURIComponent k)
            | None \<Rightarrow>
                Some \<lparr> rt_view = (if path = ''owners'' then VOwners else VList), rt_params = [] \<rparr>)"

definition parseHash :: "string option \<Rightarrow> route option" where
  "parseHash hash =
     (let raw = strip_hash (or_else hash []) in
      if raw = [] \<or> raw = ''/'' then Some \<lparr> rt_view = VList, rt_params = [] \<rparr>
      else
        case opt_query ''diff'' raw of
          Some q \<Rightarrow> Some (standalone_diff q)
        | None \<Rightarrow>
          case match_service_diff raw of
            Some (n, q) \<Rightarrow> map_option (\<lambda>name. service_diff name q) (decodeURIComponent n)
          | None \<Rightarrow>
              (case cut_at (CHR ''?'') raw of (path, q) \<Rightarrow> parse_path path (nullish q [])))"

section \<open>Building URLs\<close>

text \<open>\<open>if (v) qs.set(k, v);\<close> and a sequence of them.\<close>

definition set_if :: "params \<Rightarrow> string \<times> string option \<Rightarrow> params" where
  "set_if qs kv =
     (case snd kv of Some v \<Rightarrow> if v \<noteq> [] then qs_set (fst kv) v qs else qs | None \<Rightarrow> qs)"

definition set_all :: "(string \<times> string option) list \<Rightarrow> params" where
  "set_all kvs = foldl set_if [] kvs"

record list_paging =
  lp_offset :: "int option"
  lp_limit :: "int option"
  lp_sort :: "string option"

definition no_paging :: list_paging where
  "no_paging = \<lparr> lp_offset = None, lp_limit = None, lp_sort = None \<rparr>"

definition pos_string :: "int option \<Rightarrow> string option" where
  "pos_string n = (case n of Some i \<Rightarrow> if 0 < i then Some (show_int i) else None | None \<Rightarrow> None)"

definition setPaging :: "params \<Rightarrow> list_paging \<Rightarrow> params" where
  "setPaging qs p =
     foldl set_if qs
       [(''offset'', pos_string (lp_offset p)), (''limit'', pos_string (lp_limit p)), (''sort'', lp_sort p)]"

definition serviceUrl :: "string \<Rightarrow> string" where
  "serviceUrl name = ''#/services/'' @ encodeURIComponent name"

definition serviceVersionUrl :: "string \<Rightarrow> string \<Rightarrow> string" where
  "serviceVersionUrl name version =
     ''#/services/'' @ encodeURIComponent name @ ''/versions/'' @ encodeURIComponent version"

definition diffUrl :: "string \<Rightarrow> string option \<Rightarrow> string option \<Rightarrow> string" where
  "diffUrl name from to =
     with_query (''#/services/'' @ encodeURIComponent name @ ''/diff'') (set_all [(''from'', from), (''to'', to)])"

definition graphUrl :: string where "graphUrl = ''#/graph''"
definition ownersUrl :: string where "ownersUrl = ''#/owners''"
definition readinessUrl :: string where "readinessUrl = ''#/readiness''"
definition fleetUrl :: string where "fleetUrl = ''#/fleet/graph''"
definition fleetOverviewUrl :: string where "fleetOverviewUrl = ''#/fleet''"

definition hashForHref :: "string option \<Rightarrow> string" where
  "hashForHref href =
     (case href of
        None \<Rightarrow> ''#/fleet''
      | Some h \<Rightarrow> if h = [] then ''#/fleet'' else if startsWith h ''#'' then h else ''#'' @ h)"

record services_opts =
  so_text :: "string option"
  so_owner :: "string option"
  so_ownerKey :: "string option"
  so_ownership :: "string option"
  so_status :: "string option"
  so_domain :: "string option"
  so_businessDomain :: "string option"
  so_capability :: "string option"
  so_offering :: "string option"
  so_consumes :: "string option"

definition no_services_opts :: services_opts where
  "no_services_opts =
     \<lparr> so_text = None, so_owner = None, so_ownerKey = None, so_ownership = None, so_status = None,
       so_domain = None, so_businessDomain = None, so_capability = None, so_offering = None,
       so_consumes = None \<rparr>"

definition services_fields :: "services_opts \<Rightarrow> (string \<times> string option) list" where
  "services_fields o' =
     [(''text'', so_text o'), (''owner'', so_owner o'), (''ownerKey'', so_ownerKey o'),
      (''ownership'', so_ownership o'), (''status'', so_status o'), (''domain'', so_domain o'),
      (''businessDomain'', so_businessDomain o'), (''capability'', so_capability o'),
      (''offering'', so_offering o'), (''consumes'', so_consumes o')]"

definition fleetServicesUrl :: "services_opts \<Rightarrow> list_paging \<Rightarrow> string" where
  "fleetServicesUrl opts p = with_query ''#/fleet/services'' (setPaging (set_all (services_fields opts)) p)"

definition fleetOwnersUrl :: "string option \<Rightarrow> list_paging \<Rightarrow> string" where
  "fleetOwnersUrl text p = with_query ''#/fleet/owners'' (setPaging (set_all [(''text'', text)]) p)"

definition fleetDomainsUrl :: "string option \<Rightarrow> list_paging \<Rightarrow> string" where
  "fleetDomainsUrl text p = with_query ''#/fleet/domains'' (setPaging (set_all [(''text'', text)]) p)"

definition fleetOfferingsUrl :: "string option \<Rightarrow> list_paging \<Rightarrow> string" where
  "fleetOfferingsUrl text p = with_query ''#/fleet/offerings'' (setPaging (set_all [(''text'', text)]) p)"

definition fleetSourcesUrl :: "string option \<Rightarrow> string option \<Rightarrow> list_paging \<Rightarrow> string" where
  "fleetSourcesUrl text sourceHealth p =
     with_query ''#/fleet/sources'' (setPaging (set_all [(''text'', text), (''sourceHealth'', sourceHealth)]) p)"

record entity_list_opts =
  eo_service :: "string option"
  eo_text :: "string option"
  eo_status :: "string option"
  eo_scope :: "string option"
  eo_readiness :: "string option"
  eo_environment :: "string option"

definition no_entity_opts :: entity_list_opts where
  "no_entity_opts =
     \<lparr> eo_service = None, eo_text = None, eo_status = None, eo_scope = None, eo_readiness = None,
       eo_environment = None \<rparr>"

definition entity_fields :: "string \<Rightarrow> entity_list_opts \<Rightarrow> (string \<times> string option) list" where
  "entity_fields kind o' =
     [(''service'', eo_service o'), (''text'', eo_text o'), (''status'', eo_status o'),
      (''scope'', eo_scope o'),
      (''readiness'', if kind = ''revision'' then eo_readiness o' else None),
      (''environment'', if kind = ''target'' then eo_environment o' else None)]"

definition fleetEntityListUrl :: "string \<Rightarrow> entity_list_opts \<Rightarrow> list_paging \<Rightarrow> string" where
  "fleetEntityListUrl kind opts p =
     (if kind \<noteq> ''revision'' \<and> kind \<noteq> ''target'' then
        (if kind = ''owner'' then fleetOwnersUrl None no_paging
         else if kind = ''source'' then fleetSourcesUrl None None no_paging
         else if kind = ''domain'' then fleetDomainsUrl None no_paging
         else if kind = ''offering'' then fleetOfferingsUrl None no_paging
         else fleetServicesUrl no_services_opts no_paging)
      else
        with_query (''#/fleet/'' @ (if kind = ''revision'' then ''revisions'' else ''targets''))
          (setPaging (set_all (entity_fields kind opts)) p))"

definition fleetEntityUrl :: "string \<Rightarrow> string \<Rightarrow> string" where
  "fleetEntityUrl kind key =
     ''#/fleet/'' @ nullish (map_of KIND_PLURAL kind) ''services'' @ ''/'' @ encodeURIComponent key"

definition fleetGraphDiscoveryUrl :: string where
  "fleetGraphDiscoveryUrl = ''#/fleet/graph''"

definition sameViews :: "string list \<Rightarrow> string list \<Rightarrow> bool" where
  "sameViews a b = (length a = length b \<and> (\<forall>v \<in> set b. v \<in> set a))"

text \<open>The optional part of a graph state.\<close>

record graph_opts =
  go_perspective :: "perspective option"
  go_views :: "string list option"
  go_direction :: "string option"
  go_depth :: "int option"
  go_maxNodes :: "int option"

definition graph_fields :: "graph_opts \<Rightarrow> (string \<times> string option) list" where
  "graph_fields g =
     [(''perspective'',
         case go_perspective g of
           Some p \<Rightarrow> if p \<noteq> PService then Some (perspective_str p) else None
         | None \<Rightarrow> None),
      (''views'',
         case go_views g of
           Some vs \<Rightarrow> if vs \<noteq> [] \<and> \<not> sameViews vs DEFAULT_VIEWS then Some (join '','' vs) else None
         | None \<Rightarrow> None),
      (''direction'',
         case go_direction g of Some d \<Rightarrow> if d \<noteq> ''both'' then Some d else None | None \<Rightarrow> None),
      (''depth'',
         case go_depth g of Some d \<Rightarrow> if d \<noteq> 0 \<and> d \<noteq> 1 then Some (show_int d) else None | None \<Rightarrow> None),
      (''maxNodes'',
         case go_maxNodes g of
           Some n \<Rightarrow> if n \<noteq> 0 \<and> n \<noteq> DEFAULT_MAX_NODES then Some (show_int n) else None
         | None \<Rightarrow> None)]"

definition fleetGraphFocusUrl :: "string \<Rightarrow> string \<Rightarrow> graph_opts \<Rightarrow> string" where
  "fleetGraphFocusUrl kind key state =
     (if key = [] then fleetGraphDiscoveryUrl
      else
        with_query (''#/fleet/graph/'' @ encodeURIComponent kind @ ''/'' @ encodeURIComponent key)
          (set_all (graph_fields state)))"

record attention_opts =
  ao_category :: "string option"
  ao_owner :: "string option"
  ao_ownerKey :: "string option"
  ao_source :: "string option"
  ao_service :: "string option"
  ao_businessDomain :: "string option"
  ao_severity :: "string option"
  ao_status :: "string option"
  ao_staleOnly :: bool

definition attention_fields :: "attention_opts \<Rightarrow> (string \<times> string option) list" where
  "attention_fields o' =
     [(''category'', ao_category o'), (''owner'', ao_owner o'), (''ownerKey'', ao_ownerKey o'),
      (''source'', ao_source o'), (''service'', ao_service o'), (''businessDomain'', ao_businessDomain o'),
      (''severity'', ao_severity o'), (''status'', ao_status o'),
      (''staleOnly'', if ao_staleOnly o' then Some ''1'' else None)]"

definition fleetAttentionUrl :: "attention_opts \<Rightarrow> list_paging \<Rightarrow> string" where
  "fleetAttentionUrl opts p = with_query ''#/fleet/attention'' (setPaging (set_all (attention_fields opts)) p)"

definition fleetChangesUrl ::
  "string \<Rightarrow> string option \<Rightarrow> string option \<Rightarrow> string option \<Rightarrow> bool \<Rightarrow> string" where
  "fleetChangesUrl serviceKey name old new observed =
     with_query
       (if serviceKey \<noteq> [] then ''#/fleet/changes/'' @ encodeURIComponent serviceKey else ''#/fleet/changes'')
       (set_all
          [(''name'', if serviceKey = [] then name else None), (''old'', old), (''new'', new),
           (''observed'', if observed then Some ''1'' else None)])"

definition ownerUrl :: "string \<Rightarrow> string" where
  "ownerUrl key = ''#/owners/'' @ encodeURIComponent key"

definition compareDiffUrl ::
  "string option \<Rightarrow> string option \<Rightarrow> string option \<Rightarrow> string option \<Rightarrow> string" where
  "compareDiffUrl fromName fromVer toName toVer =
     with_query ''#/diff''
       (set_all [(''from_name'', fromName), (''from_ver'', fromVer), (''to_name'', toName), (''to_ver'', toVer)])"

definition deliveryInboxUrl :: "(string \<times> pval) list \<Rightarrow> string" where
  "deliveryInboxUrl q = pagedHash ''#/delivery/inbox'' q"

definition deliveryEnvironmentsUrl :: "(string \<times> pval) list \<Rightarrow> string" where
  "deliveryEnvironmentsUrl q = pagedHash ''#/delivery/environments'' q"

definition deliveryAutonomyUrl :: "(string \<times> pval) list \<Rightarrow> string" where
  "deliveryAutonomyUrl q = pagedHash ''#/delivery/autonomy'' q"

definition deliveryPublishUrl :: "(string \<times> pval) list \<Rightarrow> string" where
  "deliveryPublishUrl q = pagedHash ''#/delivery/publish'' q"

text \<open>\<open>{ namespace, stage, ...q }\<close>: keys of the spread are not \<open>namespace\<close> or \<open>stage\<close>.\<close>

definition deliveryHistoryUrl :: "string option \<Rightarrow> string option \<Rightarrow> (string \<times> pval) list \<Rightarrow> string" where
  "deliveryHistoryUrl namespace stage q =
     pagedHash ''#/delivery/history''
       (if truthy namespace \<and> truthy stage then
          (''namespace'', PStr (the namespace)) # (''stage'', PStr (the stage)) # q
        else q)"

definition deliveryChangeUrl :: "string \<Rightarrow> string \<Rightarrow> string" where
  "deliveryChangeUrl namespace name =
     ''#/delivery/changes/'' @ encodeURIComponent namespace @ ''/'' @ encodeURIComponent name"

section \<open>Redirects and navigation\<close>

text \<open>\<open>None\<close> when a segment does not decode, \<open>Some None\<close> for a URL that is not redirected.\<close>

definition legacyRedirectTarget :: "string option \<Rightarrow> string option option" where
  "legacyRedirectTarget hash =
     (let full = strip_hash (or_else hash []) in
      case cut_at (CHR ''?'') full of (raw, q) \<Rightarrow>
      let qs = qs_parse (nullish q []) in
      case (case strip_prefix ''services/'' raw of
              None \<Rightarrow> None
            | Some r \<Rightarrow> lazy_plus (\<lambda>s. if s = ''/diff'' then Some () else None) r) of
        Some (n, _) \<Rightarrow>
          map_option (\<lambda>name. Some (fleetChangesUrl [] (Some name) None None False)) (decodeURIComponent n)
      | None \<Rightarrow>
        case plus_after ''fleet/impact/'' raw of
          Some k \<Rightarrow> map_option (\<lambda>key. Some (fleetChangesUrl key None None None False)) (decodeURIComponent k)
        | None \<Rightarrow>
          Some
           (if raw = [] \<or> raw = ''/'' then Some fleetOverviewUrl
            else if raw = ''services'' then Some (fleetServicesUrl no_services_opts no_paging)
            else if raw = ''graph'' then Some fleetGraphDiscoveryUrl
            else if raw = ''owners'' then Some (fleetOwnersUrl None no_paging)
            else if raw = ''readiness'' then Some (fleetEntityListUrl ''revision'' no_entity_opts no_paging)
            else if raw = ''diff'' then
              Some (fleetChangesUrl [] (Some (or_else (qs_get qs ''from_name'') (or_else (qs_get qs ''to_name'') [])))
                      None None False)
            else if raw = ''impact'' then
              Some (fleetChangesUrl (or_else (qs_get qs ''svc'') []) None
                      (Some (or_else (qs_get qs ''old'') [])) (Some (or_else (qs_get qs ''new'') []))
                      (qs_get qs ''observed'' = Some ''1''))
            else None))"

text \<open>The session history, newest entry last and current, and the hashchange events seen.\<close>

record browser =
  br_entries :: "string list"
  br_events :: nat

definition br_hash :: "browser \<Rightarrow> string" where
  "br_hash b = last (br_entries b)"

text \<open>\<open>location.hash = h\<close>: a new entry and an event, unless the hash is already current.\<close>

definition assign_hash :: "browser \<Rightarrow> string \<Rightarrow> browser" where
  "assign_hash b h =
     (if h = br_hash b then b
      else b\<lparr> br_entries := br_entries b @ [h], br_events := Suc (br_events b) \<rparr>)"

definition replaceHash :: "browser \<Rightarrow> string \<Rightarrow> browser" where
  "replaceHash b hash =
     (let h = (if startsWith hash ''#'' then hash else ''#'' @ hash) in
      if h = br_hash b then b
      else b\<lparr> br_entries := butlast (br_entries b) @ [h], br_events := Suc (br_events b) \<rparr>)"

definition navigate_hash :: "string \<Rightarrow> string dict \<Rightarrow> string" where
  "navigate_hash view params =
     (let name = map_of params ''name''; version = map_of params ''version''; owner = map_of params ''owner'' in
      if view = ''detail'' \<and> truthy name then
        (if truthy version then serviceVersionUrl (the name) (the version) else serviceUrl (the name))
      else if view = ''diff'' \<and> truthy name then
        ''#/services/'' @ encodeURIComponent (the name) @ ''/diff''
      else if view = ''graph'' then ''#/graph''
      else if view = ''readiness'' then ''#/readiness''
      else if view = ''fleet'' then fleetUrl
      else if view = ''fleet-overview'' then fleetOverviewUrl
      else if view = ''changes'' then fleetChangesUrl (or_else (map_of params ''svc'') []) None None None False
      else if view = ''owners'' then ''#/owners''
      else if view = ''owner-detail'' \<and> truthy owner then ''#/owners/'' @ encodeURIComponent (the owner)
      else ''#/'')"

definition navigate :: "browser \<Rightarrow> string \<Rightarrow> string dict \<Rightarrow> browser" where
  "navigate b view params = assign_hash b (navigate_hash view params)"

end
