(* ===== verification/RouterFacts.thy ===== *)
theory RouterFacts
  imports Router
begin

text \<open>
  What the router promises: the URLs the builders make parse back to the route they were
  built for, a redirect ends in one step at a product URL, and a delivery route never names
  half a Stage.
\<close>

section \<open>Query keys\<close>

definition present :: "string option \<Rightarrow> string option" where
  "present v = (case v of Some s \<Rightarrow> if s \<noteq> [] then Some s else None | None \<Rightarrow> None)"

lemma take_keys_get:
  "map_of (take_keys ks qs ps) k =
     (if k \<in> set ks then (case present (qs_get qs k) of Some v \<Rightarrow> Some v | None \<Rightarrow> map_of ps k)
      else map_of ps k)"
  unfolding take_keys_def
  by (induction ks arbitrary: ps) (auto simp: present_def AList.update_conv' split: option.splits)

lemma set_if_get:
  "qs_get (set_if qs (k, v)) k' =
     (if k' = k then (case present v of Some s \<Rightarrow> Some s | None \<Rightarrow> qs_get qs k') else qs_get qs k')"
  by (auto simp: set_if_def present_def qs_get_set split: option.splits)

lemma foldl_set_if_get:
  assumes "distinct (map fst kvs)"
  shows "qs_get (foldl set_if qs kvs) k =
    (case map_of kvs k of
       Some v \<Rightarrow> (case present v of Some s \<Rightarrow> Some s | None \<Rightarrow> qs_get qs k)
     | None \<Rightarrow> qs_get qs k)"
  using assms
proof (induction kvs arbitrary: qs)
  case Nil
  then show ?case by simp
next
  case (Cons kv kvs)
  obtain k0 v0 where kv: "kv = (k0, v0)" by (cases kv)
  with Cons.prems have fresh: "map_of kvs k0 = None" by (simp add: map_of_eq_None_iff)
  show ?case
    using Cons.IH[of "set_if qs kv"] Cons.prems fresh kv
    by (auto simp: set_if_get split: option.splits)
qed

lemma set_all_get:
  assumes "distinct (map fst kvs)"
  shows "qs_get (set_all kvs) k = (case map_of kvs k of Some v \<Rightarrow> present v | None \<Rightarrow> None)"
  unfolding set_all_def using foldl_set_if_get[OF assms, of "[]" k]
  by (auto simp: qs_get_def split: option.splits)

definition utf8_fields :: "(string \<times> string option) list \<Rightarrow> bool" where
  "utf8_fields kvs = (\<forall>(k, v) \<in> set kvs. utf8 k \<and> (case v of Some s \<Rightarrow> utf8 s | None \<Rightarrow> True))"

lemma utf8_set_if: "utf8_params qs \<Longrightarrow> utf8_fields kvs \<Longrightarrow> utf8_params (foldl set_if qs kvs)"
proof (induction kvs arbitrary: qs)
  case Nil
  then show ?case by simp
next
  case (Cons kv kvs)
  have "utf8_params (set_if qs kv)"
    using Cons.prems by (auto simp: set_if_def utf8_fields_def utf8_params_set split: option.splits)
  moreover have "utf8_fields kvs" using Cons.prems(2) by (simp add: utf8_fields_def)
  ultimately show ?case using Cons.IH by simp
qed

lemma utf8_set_all: "utf8_fields kvs \<Longrightarrow> utf8_params (set_all kvs)"
  unfolding set_all_def by (rule utf8_set_if) simp

section \<open>Segments\<close>

lemma encode_facts [simp]:
  "CHR ''/'' \<notin> set (encodeURIComponent s)" "CHR ''?'' \<notin> set (encodeURIComponent s)"
  "CHR ''#'' \<notin> set (encodeURIComponent s)"
  by (rule url.enc_no)+

lemma segment_rest_encode:
  "segment_rest (encodeURIComponent k @ CHR ''/'' # r) = (if k \<noteq> [] \<and> r \<noteq> [] then Some (encodeURIComponent k, r) else None)"
  by (simp add: segment_rest_def encode_empty)

lemma plus_after_append: "plus_after p (p @ s) = (if s = [] then None else Some s)"
  using strip_prefix_append[of p s] by (cases s) (simp_all add: plus_after_def)

lemma strip_hash_route: "strip_hash (CHR ''#'' # CHR ''/'' # s) = s"
  by (simp add: strip_hash_def)

text \<open>What a parsed hash is when it is neither the home route nor a diff.\<close>

lemma parseHash_path:
  assumes "raw \<noteq> []" "raw \<noteq> ''/''" "opt_query ''diff'' raw = None" "match_service_diff raw = None"
    and "cut_at (CHR ''?'') raw = (path, q)"
  shows "parseHash (Some (CHR ''#'' # CHR ''/'' # raw)) = parse_path path (nullish q [])"
  using assms by (simp add: parseHash_def strip_hash_route)

lemma parseHash_fleet:
  assumes "CHR ''?'' \<notin> set rest" "utf8_params ps"
  shows "parseHash (Some (with_query (''#/fleet/'' @ rest) ps)) =
    parseFleet (''fleet/'' @ rest) (nullish (if ps = [] then None else Some (qs_string ps)) [])"
proof -
  let ?raw = "with_query (''fleet/'' @ rest) ps"
  have w: "with_query (''#/fleet/'' @ rest) ps = CHR ''#'' # CHR ''/'' # ?raw"
    by (simp add: with_query_def)
  have c: "cut_at (CHR ''?'') ?raw = (''fleet/'' @ rest, if ps = [] then None else Some (qs_string ps))"
    by (rule cut_with_query) (use assms in simp)
  have r: "?raw \<noteq> []" "?raw \<noteq> ''/''" "opt_query ''diff'' ?raw = None" "match_service_diff ?raw = None"
    by (simp_all add: with_query_def opt_query_def match_service_diff_def)
  show ?thesis
    unfolding w parseHash_path[OF r c]
    by (simp add: parse_path_def match_version_def plus_after_def startsWith_simps)
qed

lemma parsed_query:
  assumes "utf8_params ps"
  shows "qs_parse (nullish (if ps = [] then None else Some (qs_string ps)) []) = ps"
  using assms by (simp add: qs_parse_string)

section \<open>Entity pages\<close>

text \<open>C9: Every entity page is reachable at its own URL: for each entity kind and every
  non-empty key -- slashes, percent signs, spaces and non-ASCII text included -- the URL built
  for the entity parses to the entity page of exactly that kind and key.\<close>

theorem fleetEntityUrl_roundtrip:
  assumes "kind \<in> set (keys_of KIND_PLURAL)" "utf8 key" "key \<noteq> []"
  shows "parseHash (Some (fleetEntityUrl kind key)) =
    Some \<lparr> rt_view = VFleetEntity, rt_params = [(''kind'', kind), (''key'', key)] \<rparr>"
proof -
  obtain plural where pl: "map_of KIND_PLURAL kind = Some plural" "map_of PLURAL_KIND plural = Some kind"
      and known: "plural \<in> set (map snd KIND_PLURAL)"
    using assms(1) by (auto simp: KIND_PLURAL_def PLURAL_KIND_def)
  let ?rest = "plural @ CHR ''/'' # encodeURIComponent key"
  have noq: "CHR ''?'' \<notin> set plural" "CHR ''/'' \<notin> set plural" "plural \<noteq> []"
    using known by (auto simp: KIND_PLURAL_def)
  have url: "fleetEntityUrl kind key = with_query (''#/fleet/'' @ ?rest) []"
    by (simp add: fleetEntityUrl_def pl with_query_def qs_string_def)
  have seg: "segment_rest ?rest = Some (plural, encodeURIComponent key)"
    using noq assms(3) by (simp add: segment_rest_def encode_empty)
  have "parseFleet (''fleet/'' @ ?rest) [] = parse_fleet_entity ?rest"
    using known by (auto simp: parseFleet_def KIND_PLURAL_def startsWith_simps)
  then show ?thesis
    unfolding url using parseHash_fleet[of ?rest "[]"] noq assms(2)
    by (simp add: parse_fleet_entity_def seg pl decode_encode)
qed

theorem fleetEntityUrl_roundtrip_witness:
  "parseHash (Some ''#/fleet/revisions/ghcr.io%2Facme%2Fapi%401.2'') =
    Some \<lparr> rt_view = VFleetEntity, rt_params = [(''kind'', ''revision''), (''key'', ''ghcr.io/acme/api@1.2'')] \<rparr>"
proof -
  have "fleetEntityUrl ''revision'' ''ghcr.io/acme/api@1.2'' = ''#/fleet/revisions/ghcr.io%2Facme%2Fapi%401.2''"
    by code_simp
  moreover have "utf8 ''ghcr.io/acme/api@1.2''" by code_simp
  ultimately show ?thesis
    using fleetEntityUrl_roundtrip[of "''revision''" "''ghcr.io/acme/api@1.2''"] by (simp add: KIND_PLURAL_def)
qed

section \<open>The graph's URL\<close>

definition graph_opts_of :: "graph_state \<Rightarrow> graph_opts" where
  "graph_opts_of g =
     \<lparr> go_perspective = Some (gs_perspective g), go_views = Some (gs_views g),
       go_direction = Some (gs_direction g), go_depth = Some (gs_depth g), go_maxNodes = Some (gs_maxNodes g) \<rparr>"

text \<open>The default view set may come back in its canonical order.\<close>

definition canonical_views :: "string list \<Rightarrow> string list" where
  "canonical_views vs = (if sameViews vs DEFAULT_VIEWS then DEFAULT_VIEWS else vs)"

lemma known_view_plain:
  assumes "v \<in> set KNOWN_VIEWS"
  shows "trim v = v" "CHR '','' \<notin> set v" "utf8 v" "v \<noteq> []"
  using assms by (auto simp: KNOWN_VIEWS_def trim_def is_space_def)

lemma views_recovered:
  assumes "wf_views vs"
  shows "map trim (split_on (CHR '','') (join '','' vs)) = vs"
    and "filter (\<lambda>v. v \<in> set KNOWN_VIEWS) vs = vs" and "join '','' vs \<noteq> []"
proof -
  have k: "\<And>v. v \<in> set vs \<Longrightarrow> v \<in> set KNOWN_VIEWS" and ne: "vs \<noteq> []"
    using assms by (auto simp: wf_views_def)
  have "split_on (CHR '','') (join '','' vs) = vs"
    using k known_view_plain(2) ne by (intro split_on_join) auto
  moreover have "map trim vs = vs" using k known_view_plain(1) by (intro map_idI) auto
  ultimately show "map trim (split_on (CHR '','') (join '','' vs)) = vs" by simp
  show "filter (\<lambda>v. v \<in> set KNOWN_VIEWS) vs = vs" using k by (simp add: filter_id_conv)
  obtain v vs' where vs: "vs = v # vs'" using ne by (cases vs) auto
  then have "v \<noteq> []" using k known_view_plain(4) by simp
  with vs show "join '','' vs \<noteq> []" by (cases vs') auto
qed

lemma join_utf8_views: "wf_views vs \<Longrightarrow> utf8 (join '','' vs)"
proof -
  assume wf: "wf_views vs"
  have "\<forall>c \<in> set v. byte c < 0x80" if "v \<in> set KNOWN_VIEWS" for v
    using that by (auto simp: KNOWN_VIEWS_def)
  then have "\<forall>v \<in> set vs. \<forall>c \<in> set v. byte c < 0x80"
    using wf unfolding wf_views_def by blast
  then have "\<forall>c \<in> set (join '','' vs). byte c < 0x80"
    by (induction "'',''" vs rule: join.induct) auto
  then show ?thesis by (rule utf8_ascii)
qed

lemma utf8_graph_fields:
  assumes "wf_graph g"
  shows "utf8_fields (graph_fields (graph_opts_of g))"
proof -
  have "utf8 (perspective_str p)" for p by (cases p) (simp_all add: utf8_ascii)
  moreover have "utf8 (gs_direction g)"
    using assms by (auto simp: wf_graph_def KNOWN_DIRECTIONS_def)
  moreover have "utf8 (join '','' (gs_views g))" using assms join_utf8_views by (simp add: wf_graph_def)
  ultimately show ?thesis
    by (simp add: utf8_fields_def graph_fields_def graph_opts_of_def utf8_show_int)
qed

lemma graph_fields_keys: "map fst (graph_fields g) = [''perspective'', ''views'', ''direction'', ''depth'', ''maxNodes'']"
  by (simp add: graph_fields_def)

lemma show_int_nonempty [simp]: "show_int n \<noteq> []"
  by (simp add: show_int_def)

text \<open>The state a focused graph URL's parameters stand for.\<close>

lemma graph_state_recovered:
  assumes wf: "wf_graph g"
    and get: "\<And>k. map_of ps k =
      (if k = ''sel'' then Some (gs_key g) else if k = ''kind'' then Some (gs_kind g)
       else case map_of (graph_fields (graph_opts_of g)) k of Some v \<Rightarrow> present v | None \<Rightarrow> None)"
    and ne: "gs_kind g \<noteq> []" "gs_key g \<noteq> []"
  shows "graphStateFromParams ps = g\<lparr> gs_views := canonical_views (gs_views g) \<rparr>"
proof -
  have wfv: "wf_views (gs_views g)" using wf by (simp add: wf_graph_def)
  note rec = views_recovered[OF wfv]
  have dir: "gs_direction g \<in> set KNOWN_DIRECTIONS" using wf by (simp add: wf_graph_def)
  then have dne: "gs_direction g \<noteq> []" by (auto simp: KNOWN_DIRECTIONS_def)
  have v: "map_of ps ''views'' =
      (if sameViews (gs_views g) DEFAULT_VIEWS then None else Some (join '','' (gs_views g)))"
    using rec(3) wfv by (simp add: get graph_fields_def graph_opts_of_def present_def wf_views_def)
  have p: "map_of ps ''perspective'' =
      (if gs_perspective g = PService then None else Some (perspective_str (gs_perspective g)))"
    by (cases "gs_perspective g") (simp_all add: get graph_fields_def graph_opts_of_def present_def)
  have d: "map_of ps ''direction'' = (if gs_direction g = ''both'' then None else Some (gs_direction g))"
    using dne by (simp add: get graph_fields_def graph_opts_of_def present_def)
  have b: "1 \<le> gs_depth g" "gs_depth g \<le> MAX_DEPTH" "1 \<le> gs_maxNodes g" "gs_maxNodes g \<le> MAX_NODES"
    using wf by (simp_all add: wf_graph_def)
  have dp: "clampDepth (parse_param (map_of ps ''depth'')) = gs_depth g"
    using b clampDepth_show[OF b(1,2)]
    by (simp add: get graph_fields_def graph_opts_of_def present_def parse_param_def clampDepth_def[of NaN])
  have mn: "clampMaxNodes (parse_param (map_of ps ''maxNodes'')) = gs_maxNodes g"
    using b clampMaxNodes_show[OF b(3,4)]
    by (simp add: get graph_fields_def graph_opts_of_def present_def parse_param_def clampMaxNodes_def[of NaN])
  have kk: "map_of ps ''kind'' = Some (gs_kind g)" "map_of ps ''sel'' = Some (gs_key g)"
    by (simp_all add: get)
  have "gs_views (graphStateFromParams ps) = canonical_views (gs_views g)"
    using rec wfv by (simp add: graphStateFromParams_def v Let_def canonical_views_def dedupeViews_id wf_views_def)
  moreover have "gs_perspective (graphStateFromParams ps) = gs_perspective g"
    by (cases "gs_perspective g") (simp_all add: graphStateFromParams_def p Let_def GRAPH_PERSPECTIVES_def)
  moreover have "gs_direction (graphStateFromParams ps) = gs_direction g"
    using dir by (simp add: graphStateFromParams_def d Let_def)
  moreover have "gs_kind (graphStateFromParams ps) = gs_kind g" "gs_key (graphStateFromParams ps) = gs_key g"
    using ne by (simp_all add: graphStateFromParams_def kk Let_def or_else_def)
  moreover have "gs_depth (graphStateFromParams ps) = gs_depth g" "gs_maxNodes (graphStateFromParams ps) = gs_maxNodes g"
    by (simp_all add: graphStateFromParams_def dp mn Let_def)
  ultimately show ?thesis by simp
qed

text \<open>C27: A focused graph is shareable: the URL built for a well-formed graph state parses to the
  graph view, and the state read from its parameters is the same state -- kind, key,
  perspective, direction, depth and node budget exactly, and the same knowledge views (the
  default pair in its canonical order) -- although every default is left out of the URL.\<close>

theorem fleetGraphFocusUrl_roundtrip:
  assumes "wf_graph g" "gs_kind g \<noteq> []" "gs_key g \<noteq> []" "utf8 (gs_kind g)" "utf8 (gs_key g)"
  shows "\<exists>r. parseHash (Some (fleetGraphFocusUrl (gs_kind g) (gs_key g) (graph_opts_of g))) = Some r \<and>
    rt_view r = VFleet \<and>
    graphStateFromParams (rt_params r) = g\<lparr> gs_views := canonical_views (gs_views g) \<rparr>"
proof -
  let ?f = "graph_fields (graph_opts_of g)"
  let ?seg = "encodeURIComponent (gs_kind g) @ CHR ''/'' # encodeURIComponent (gs_key g)"
  let ?rest = "''graph/'' @ ?seg"
  define qs where "qs = set_all ?f"
  have ok: "utf8_params qs" unfolding qs_def by (rule utf8_set_all[OF utf8_graph_fields[OF assms(1)]])
  have url: "fleetGraphFocusUrl (gs_kind g) (gs_key g) (graph_opts_of g) = with_query (''#/fleet/'' @ ?rest) qs"
    using assms(3) by (simp add: fleetGraphFocusUrl_def qs_def)
  define ps where "ps = AList.update ''sel'' (gs_key g) (AList.update ''kind'' (gs_kind g) (take_keys FLEET_GRAPH_KEYS qs []))"
  have sp: "strip_prefix ''graph/'' ?rest = Some ?seg" by (rule strip_prefix_append)
  have sg: "segment_rest ?seg = Some (encodeURIComponent (gs_kind g), encodeURIComponent (gs_key g))"
    using assms(2,3) by (simp add: segment_rest_encode encode_empty)
  have "parse_fleet_graph ?rest qs = Some \<lparr> rt_view = VFleet, rt_params = ps \<rparr>"
    unfolding parse_fleet_graph_def sp
    using assms(4,5) by (simp add: sg decode_encode ps_def)
  then have "parseFleet (''fleet/'' @ ?rest) (nullish (if qs = [] then None else Some (qs_string qs)) [])
      = Some \<lparr> rt_view = VFleet, rt_params = ps \<rparr>"
    unfolding parseFleet_def Let_def parsed_query[OF ok] by (simp add: startsWith_simps)
  then have parsed: "parseHash (Some (fleetGraphFocusUrl (gs_kind g) (gs_key g) (graph_opts_of g))) =
      Some \<lparr> rt_view = VFleet, rt_params = ps \<rparr>"
    unfolding url using parseHash_fleet[OF _ ok, of ?rest] by simp
  have "qs_get qs k = (case map_of ?f k of Some v \<Rightarrow> present v | None \<Rightarrow> None)" for k
    unfolding qs_def by (rule set_all_get) (simp add: graph_fields_keys)
  moreover have "map_of ?f k = None" if "k \<notin> set FLEET_GRAPH_KEYS" for k
    using that by (auto simp: map_of_eq_None_iff graph_fields_def FLEET_GRAPH_KEYS_def)
  moreover have "present (case v of Some w \<Rightarrow> present w | None \<Rightarrow> None) = (case v of Some w \<Rightarrow> present w | None \<Rightarrow> None)" for v
    by (auto simp: present_def split: option.splits)
  ultimately have "map_of ps k = (if k = ''sel'' then Some (gs_key g) else if k = ''kind'' then Some (gs_kind g)
       else case map_of ?f k of Some v \<Rightarrow> present v | None \<Rightarrow> None)" for k
    by (cases "k \<in> set FLEET_GRAPH_KEYS")
      (simp_all add: ps_def AList.update_conv' take_keys_get split: option.split)
  then show ?thesis using parsed graph_state_recovered[OF assms(1) _ assms(2,3), of ps] by simp
qed

theorem fleetGraphFocusUrl_roundtrip_witness:
  "\<exists>r. parseHash (Some ''#/fleet/graph/target/prod%2Fapi?views=observed&depth=3'') = Some r \<and>
    rt_view r = VFleet \<and>
    graphStateFromParams (rt_params r) =
      \<lparr> gs_kind = ''target'', gs_key = ''prod/api'', gs_perspective = PService, gs_views = [''observed''],
        gs_direction = ''both'', gs_depth = 3, gs_maxNodes = 40 \<rparr>"
proof -
  let ?g = "\<lparr> gs_kind = ''target'', gs_key = ''prod/api'', gs_perspective = PService, gs_views = [''observed''],
        gs_direction = ''both'', gs_depth = 3, gs_maxNodes = 40 \<rparr>"
  have "wf_graph ?g" by (simp add: wf_graph_def wf_views_def graph_consts)
  moreover have "canonical_views [''observed''] = [''observed'']"
    by (simp add: canonical_views_def sameViews_def DEFAULT_VIEWS_def)
  moreover have "fleetGraphFocusUrl ''target'' ''prod/api'' (graph_opts_of ?g) =
      ''#/fleet/graph/target/prod%2Fapi?views=observed&depth=3''" by code_simp
  moreover have "utf8 ''target''" "utf8 ''prod/api''" by code_simp+
  ultimately show ?thesis using fleetGraphFocusUrl_roundtrip[of ?g] by simp
qed

section \<open>Service pages\<close>

text \<open>A pattern that starts with a slash matches nowhere inside a segment.\<close>

definition slash_first :: "(string \<Rightarrow> 'a option) \<Rightarrow> bool" where
  "slash_first m = (\<forall>s. s = [] \<or> hd s \<noteq> CHR ''/'' \<longrightarrow> m s = None)"

lemma slash_firstD: "slash_first m \<Longrightarrow> CHR ''/'' \<notin> set t \<Longrightarrow> m (t @ s) = None \<or> t = []"
  by (cases t) (auto simp: slash_first_def)

lemma slash_first_patterns: "slash_first (opt_query (CHR ''/'' # p))" "slash_first (plus_after (CHR ''/'' # p))"
proof -
  have "strip_prefix (CHR ''/'' # p) s = None" if "s = [] \<or> hd s \<noteq> CHR ''/''" for s
    using that by (cases s) auto
  then show "slash_first (opt_query (CHR ''/'' # p))" "slash_first (plus_after (CHR ''/'' # p))"
    by (simp_all add: slash_first_def opt_query_def plus_after_def)
qed

lemma lazy_plus_segment:
  assumes "slash_first m" "n \<noteq> []" "CHR ''/'' \<notin> set n"
  shows "lazy_plus m (n @ CHR ''/'' # s) =
    (case m (CHR ''/'' # s) of
       Some x \<Rightarrow> Some (n, x)
     | None \<Rightarrow> map_option (\<lambda>(p, x). (n @ p, x)) (lazy_plus m (CHR ''/'' # s)))"
  using assms(2,3)
proof (induction n)
  case Nil
  then show ?case by simp
next
  case (Cons c n)
  show ?case
  proof (cases "n = []")
    case True
    then show ?thesis by (simp split: option.splits)
  next
    case False
    then have "m (n @ CHR ''/'' # s) = None" using slash_firstD[OF assms(1)] Cons.prems by auto
    with Cons False show ?thesis
      by (cases "lazy_plus m (CHR ''/'' # s)")
        (auto simp del: lazy_plus.simps(2) simp: lazy_plus.simps(2)[of m c] split: option.splits)
  qed
qed

lemma lazy_plus_last:
  assumes "slash_first m" "CHR ''/'' \<notin> set v"
  shows "lazy_plus m v = None"
  using assms(2)
proof (induction v)
  case (Cons c v)
  have "m v = None" using slash_firstD[OF assms(1), of v "[]"] assms(1) Cons.prems
    by (cases v) (auto simp: slash_first_def)
  with Cons show ?case by simp
qed simp

lemma lazy_plus_slash:
  assumes "slash_first m" "CHR ''/'' \<notin> set t" "t \<noteq> []"
  shows "lazy_plus m (CHR ''/'' # t @ s) = map_option (\<lambda>(p, x). (CHR ''/'' # p, x)) (lazy_plus m (t @ s))"
  using slash_firstD[OF assms(1,2), of s] assms(3) by simp

lemma version_tail_no_diff:
  assumes "n \<noteq> []" "CHR ''/'' \<notin> set n" "CHR ''/'' \<notin> set v" "v \<noteq> []" "CHR ''?'' \<notin> set v" "v \<noteq> ''diff''"
  shows "lazy_plus (opt_query ''/diff'') (n @ CHR ''/'' # ''versions'' @ CHR ''/'' # v) = None"
proof -
  have sf: "slash_first (opt_query ''/diff'')" by (rule slash_first_patterns)
  have a: "opt_query ''/diff'' (CHR ''/'' # ''versions'' @ CHR ''/'' # v) = None"
    by (simp add: opt_query_def)
  have b: "opt_query ''/diff'' (CHR ''/'' # v) = None"
    using assms(5,6) by (auto simp: opt_query_def strip_prefix_Some split: option.splits list.splits)
  have c: "lazy_plus (opt_query ''/diff'') (CHR ''/'' # v) = None"
    using lazy_plus_slash[OF sf assms(3,4), of "[]"] lazy_plus_last[OF sf assms(3)] by simp
  have "lazy_plus (opt_query ''/diff'') (''versions'' @ CHR ''/'' # v) = None"
    using lazy_plus_segment[OF sf, of "''versions''" v] b c by simp
  then have "lazy_plus (opt_query ''/diff'') (CHR ''/'' # ''versions'' @ CHR ''/'' # v) = None"
    using lazy_plus_slash[OF sf, of "''versions''" "CHR ''/'' # v"] by simp
  then show ?thesis using lazy_plus_segment[OF sf assms(1,2), of "''versions'' @ CHR ''/'' # v"] a by simp
qed

text \<open>A service version's page is reachable at its own URL: for every service name and every
  version other than \<open>diff\<close>, the URL built for the pair parses to the detail page of exactly
  that service at that version.\<close>

theorem serviceVersionUrl_roundtrip:
  assumes "utf8 name" "utf8 version" "name \<noteq> []" "version \<noteq> []" "version \<noteq> ''diff''"
  shows "parseHash (Some (serviceVersionUrl name version)) =
    Some \<lparr> rt_view = VDetail, rt_params = [(''name'', name), (''version'', version)] \<rparr>"
proof -
  let ?n = "encodeURIComponent name" and ?v = "encodeURIComponent version"
  let ?tail = "?n @ CHR ''/'' # ''versions'' @ CHR ''/'' # ?v"
  have ne: "?n \<noteq> []" "?v \<noteq> []" using assms by (simp_all add: encode_empty)
  have "?v \<noteq> ''diff''"
  proof
    assume v: "?v = ''diff''"
    have "decodeURIComponent ''diff'' = Some ''diff''" by (rule decode_plain) simp
    then show False using decode_encode[OF assms(2)] assms(5) v by simp
  qed
  then have nd: "match_service_diff (''services/'' @ ?tail) = None"
    using version_tail_no_diff[of ?n ?v] ne by (simp add: match_service_diff_def)
  have sf: "slash_first (plus_after ''/versions/'')" by (rule slash_first_patterns)
  have "plus_after ''/versions/'' (''/versions/'' @ ?v) = Some ?v"
    unfolding plus_after_append using ne by simp
  then have mv: "match_version (''services/'' @ ?tail) = Some (?n, ?v)"
    using lazy_plus_segment[OF sf ne(1), of "''versions'' @ CHR ''/'' # ?v"] by (simp add: match_version_def)
  have cut: "cut_at (CHR ''?'') (''services/'' @ ?tail) = (''services/'' @ ?tail, None)"
    by (rule cut_at_absent) simp
  have oq: "opt_query ''diff'' (''services/'' @ ?tail) = None" by (simp add: opt_query_def)
  have "parseHash (Some (CHR ''#'' # CHR ''/'' # ''services/'' @ ?tail)) = parse_path (''services/'' @ ?tail) (nullish None [])"
    by (rule parseHash_path[OF _ _ oq nd cut]) simp_all
  then show ?thesis
    using assms(1,2) by (simp add: serviceVersionUrl_def parse_path_def mv[simplified] decode_encode)
qed

theorem serviceVersionUrl_roundtrip_witness:
  "parseHash (Some ''#/services/pay%2Fapi/versions/1.4.0'') =
    Some \<lparr> rt_view = VDetail, rt_params = [(''name'', ''pay/api''), (''version'', ''1.4.0'')] \<rparr>"
proof -
  have "serviceVersionUrl ''pay/api'' ''1.4.0'' = ''#/services/pay%2Fapi/versions/1.4.0''" by code_simp
  moreover have "utf8 ''pay/api''" "utf8 ''1.4.0''" by code_simp+
  ultimately show ?thesis using serviceVersionUrl_roundtrip[of "''pay/api''" "''1.4.0''"] by simp
qed

text \<open>The version named \<open>diff\<close> is the one the router cannot reach: its URL parses as the
  comparison page of a service called \<open>api/versions\<close>.\<close>

lemma serviceVersionUrl_diff:
  "parseHash (Some (serviceVersionUrl ''api'' ''diff'')) =
    Some \<lparr> rt_view = VDiff,
           rt_params = [(''name'', ''api/versions''), (''fromName'', ''api/versions''), (''toName'', ''api/versions'')] \<rparr>"
  by code_simp

text \<open>A malformed escape makes the router throw, and an inherited name is taken for a view.\<close>

lemma parseHash_malformed: "parseHash (Some ''#/fleet/services/%'') = None"
  by code_simp

lemma parseHash_inherited:
  "parseHash (Some ''#/delivery/constructor'') =
    Some \<lparr> rt_view = VInherited ''constructor'', rt_params = [] \<rparr>"
proof -
  have v: "delivery_view ''constructor'' = VInherited ''constructor''"
    by (simp add: delivery_view_def OBJECT_PROTO_def)
  have p: "delivery_params [] = []"
    by (simp add: delivery_params_def take_keys_def DELIVERY_QUERY_def qs_get_def truthy_def Let_def)
  have d: "parseDelivery ''delivery/constructor'' [] = Some \<lparr> rt_view = VInherited ''constructor'', rt_params = [] \<rparr>"
    by (simp add: parseDelivery_def v p change_segments_def)
  have r: "opt_query ''diff'' ''delivery/constructor'' = None" "match_service_diff ''delivery/constructor'' = None"
    "cut_at (CHR ''?'') ''delivery/constructor'' = (''delivery/constructor'', None)"
    by (simp_all add: opt_query_def match_service_diff_def)
  show ?thesis
    using parseHash_path[OF _ _ r] d
    by (simp add: parse_path_def match_version_def plus_after_def startsWith_simps)
qed

section \<open>Redirects\<close>

lemma not_redirected:
  assumes "CHR ''?'' \<notin> set r" "plus_after ''fleet/impact/'' (''fleet'' @ r) = None"
  shows "legacyRedirectTarget (Some (with_query (''#/fleet'' @ r) ps)) = Some None"
proof -
  have w: "strip_hash (with_query (''#/fleet'' @ r) ps) = with_query (''fleet'' @ r) ps"
    by (simp add: with_query_def strip_hash_def)
  have c: "cut_at (CHR ''?'') (with_query (''fleet'' @ r) ps) = (''fleet'' @ r, if ps = [] then None else Some (qs_string ps))"
    by (rule cut_with_query) (use assms in simp)
  have t: "or_else (Some (with_query (''#/fleet'' @ r) ps)) [] = with_query (''#/fleet'' @ r) ps"
    by (simp add: with_query_def or_else_def)
  show ?thesis
    unfolding legacyRedirectTarget_def Let_def t w c using assms(2) by simp
qed

lemma with_query_Nil [simp]: "with_query base [] = base"
  by (simp add: with_query_def qs_string_def)

lemma changes_not_redirected:
  "legacyRedirectTarget (Some (fleetChangesUrl key nm old new obs)) = Some None"
proof -
  define r where "r = (if key \<noteq> [] then ''/changes/'' @ encodeURIComponent key else ''/changes'')"
  have q: "CHR ''?'' \<notin> set r" and i: "plus_after ''fleet/impact/'' (''fleet'' @ r) = None"
    by (simp_all add: r_def plus_after_def)
  show ?thesis
    using not_redirected[OF q i] by (cases "key = []") (simp_all add: fleetChangesUrl_def r_def)
qed

lemma changes_product: "startsWith (fleetChangesUrl key nm old new obs) ''#/fleet''"
  by (simp add: fleetChangesUrl_def with_query_def startsWith_simps)

lemma static_targets:
  "t \<in> {fleetOverviewUrl, fleetServicesUrl no_services_opts no_paging, fleetGraphDiscoveryUrl,
        fleetOwnersUrl None no_paging, fleetEntityListUrl ''revision'' no_entity_opts no_paging} \<Longrightarrow>
   startsWith t ''#/fleet'' \<and> legacyRedirectTarget (Some t) = Some None"
proof -
  have e: "fleetOverviewUrl = ''#/fleet''" "fleetServicesUrl no_services_opts no_paging = ''#/fleet/services''"
    "fleetGraphDiscoveryUrl = ''#/fleet/graph''" "fleetOwnersUrl None no_paging = ''#/fleet/owners''"
    "fleetEntityListUrl ''revision'' no_entity_opts no_paging = ''#/fleet/revisions''"
    by code_simp+
  have r: "legacyRedirectTarget (Some (''#/fleet'' @ r)) = Some None"
    if "r \<in> {[], ''/services'', ''/graph'', ''/owners'', ''/revisions''}" for r
    using not_redirected[of r "[]"] that by (auto simp: plus_after_def)
  assume "t \<in> {fleetOverviewUrl, fleetServicesUrl no_services_opts no_paging, fleetGraphDiscoveryUrl,
        fleetOwnersUrl None no_paging, fleetEntityListUrl ''revision'' no_entity_opts no_paging}"
  then have "t \<in> {''#/fleet'', ''#/fleet/services'', ''#/fleet/graph'', ''#/fleet/owners'', ''#/fleet/revisions''}"
    unfolding e .
  then obtain r where "t = ''#/fleet'' @ r" "r \<in> {[], ''/services'', ''/graph'', ''/owners'', ''/revisions''}"
    by auto
  with r show ?thesis by (simp add: startsWith_simps)
qed

definition settled :: "string \<Rightarrow> bool" where
  "settled t = (startsWith t ''#/fleet'' \<and> legacyRedirectTarget (Some t) = Some None)"

lemma settled_targets [simp]:
  "settled (fleetChangesUrl key nm old new obs)" "settled fleetOverviewUrl"
  "settled (fleetServicesUrl no_services_opts no_paging)" "settled fleetGraphDiscoveryUrl"
  "settled (fleetOwnersUrl None no_paging)"
  "settled (fleetEntityListUrl ''revision'' no_entity_opts no_paging)"
  using changes_not_redirected changes_product static_targets by (simp_all add: settled_def)

text \<open>C29: A redirect of an old bookmark ends in one step: whatever legacy hash is redirected, the
  target is a product URL (under \<open>#/fleet\<close>), and the target itself is never redirected again.\<close>

theorem legacyRedirect_settles:
  assumes "legacyRedirectTarget h = Some (Some t)"
  shows "startsWith t ''#/fleet'' \<and> legacyRedirectTarget (Some t) = Some None"
proof -
  have "settled t"
    using assms unfolding legacyRedirectTarget_def Let_def
    by (auto split: prod.splits option.splits if_splits)
  then show ?thesis by (simp add: settled_def)
qed

theorem legacyRedirect_settles_witness:
  "legacyRedirectTarget (Some ''#/services/a%20b/diff?from=1&to=2'') = Some (Some ''#/fleet/changes?name=a+b'') \<and>
   legacyRedirectTarget (Some ''#/fleet/changes?name=a+b'') = Some None"
proof -
  have "legacyRedirectTarget (Some ''#/services/a%20b/diff?from=1&to=2'') = Some (Some ''#/fleet/changes?name=a+b'')"
    by code_simp
  then show ?thesis using legacyRedirect_settles by blast
qed

section \<open>Lists\<close>

definition paging_fields :: "list_paging \<Rightarrow> (string \<times> string option) list" where
  "paging_fields p =
     [(''offset'', pos_string (lp_offset p)), (''limit'', pos_string (lp_limit p)), (''sort'', lp_sort p)]"

lemma setPaging_fields: "setPaging (set_all kvs) p = set_all (kvs @ paging_fields p)"
  by (simp add: setPaging_def set_all_def paging_fields_def)

lemma utf8_pos_string: "case pos_string n of Some s \<Rightarrow> utf8 s | None \<Rightarrow> True"
  by (simp add: pos_string_def utf8_show_int split: option.split)

lemma present_idem: "present (present v) = present v"
  by (auto simp: present_def split: option.splits)

lemma take_fields:
  assumes "distinct (map fst kvs)" "set (map fst kvs) \<subseteq> set ks"
  shows "map_of (take_keys ks (set_all kvs) []) k = (case map_of kvs k of Some v \<Rightarrow> present v | None \<Rightarrow> None)"
proof (cases "map_of kvs k")
  case None
  then show ?thesis by (simp add: take_keys_get set_all_get[OF assms(1)] present_def)
next
  case (Some v)
  then have "k \<in> set ks" using assms(2) by (auto dest!: map_of_SomeD)
  with Some show ?thesis
    by (simp add: take_keys_get set_all_get[OF assms(1)] present_idem split: option.split)
qed

lemma services_url_params:
  assumes "utf8_fields (services_fields o')" "utf8_fields [(''sort'', lp_sort p)]"
  shows "\<exists>r. parseHash (Some (fleetServicesUrl o' p)) = Some r \<and> rt_view r = VFleetServices \<and>
    (\<forall>k. map_of (rt_params r) k =
      (case map_of (services_fields o' @ paging_fields p) k of Some v \<Rightarrow> present v | None \<Rightarrow> None))"
proof -
  define kvs where "kvs = services_fields o' @ paging_fields p"
  have "utf8 ''offset''" "utf8 ''limit''" by (simp_all add: utf8_ascii)
  then have "utf8_fields kvs"
    using assms utf8_pos_string by (auto simp: kvs_def utf8_fields_def paging_fields_def)
  then have ok: "utf8_params (set_all kvs)" by (rule utf8_set_all)
  have dist: "distinct (map fst kvs)" "set (map fst kvs) \<subseteq> set FLEET_SERVICES_KEYS"
    by (simp_all add: kvs_def services_fields_def paging_fields_def FLEET_SERVICES_KEYS_def)
  have url: "fleetServicesUrl o' p = with_query (''#/fleet/'' @ ''services'') (set_all kvs)"
    by (simp add: fleetServicesUrl_def setPaging_fields kvs_def)
  have "parseHash (Some (fleetServicesUrl o' p)) =
      Some \<lparr> rt_view = VFleetServices, rt_params = take_keys FLEET_SERVICES_KEYS (set_all kvs) [] \<rparr>"
    unfolding url using parseHash_fleet[OF _ ok, of "''services''"] parsed_query[OF ok]
    by (simp add: parseFleet_def startsWith_simps)
  then show ?thesis using take_fields[OF dist] by (simp add: kvs_def)
qed

text \<open>C28: A filtered, paged service list is restored by its link: each of the ten filters, the order,
  the offset and the page size given to the builder comes back under its own name from the parsed
  URL, unchanged whatever characters it holds; an empty filter and an offset or size that is not
  positive are absent, and nothing else is added.\<close>

theorem fleetServicesUrl_roundtrip:
  assumes "list_all (case_option True utf8)
    [so_text o', so_owner o', so_ownerKey o', so_ownership o', so_status o', so_domain o', so_businessDomain o', so_capability o',
     so_offering o', so_consumes o', lp_sort p]"
  shows "\<exists>r. parseHash (Some (fleetServicesUrl o' p)) = Some r \<and> rt_view r = VFleetServices \<and>
    map_of (rt_params r) ''text'' = present (so_text o') \<and>
    map_of (rt_params r) ''owner'' = present (so_owner o') \<and>
    map_of (rt_params r) ''ownerKey'' = present (so_ownerKey o') \<and>
    map_of (rt_params r) ''ownership'' = present (so_ownership o') \<and>
    map_of (rt_params r) ''status'' = present (so_status o') \<and>
    map_of (rt_params r) ''domain'' = present (so_domain o') \<and>
    map_of (rt_params r) ''businessDomain'' = present (so_businessDomain o') \<and>
    map_of (rt_params r) ''capability'' = present (so_capability o') \<and>
    map_of (rt_params r) ''offering'' = present (so_offering o') \<and>
    map_of (rt_params r) ''consumes'' = present (so_consumes o') \<and>
    map_of (rt_params r) ''sort'' = present (lp_sort p) \<and>
    map_of (rt_params r) ''offset'' = (case lp_offset p of Some i \<Rightarrow> if 0 < i then Some (show_int i) else None | None \<Rightarrow> None) \<and>
    map_of (rt_params r) ''limit'' = (case lp_limit p of Some i \<Rightarrow> if 0 < i then Some (show_int i) else None | None \<Rightarrow> None) \<and>
    fst ` set (rt_params r) \<subseteq>
      {''text'', ''owner'', ''ownerKey'', ''ownership'', ''status'', ''domain'', ''businessDomain'', ''capability'', ''offering'', ''consumes'',
       ''sort'', ''offset'', ''limit''}"
proof -
  have u: "utf8_fields (services_fields o')" "utf8_fields [(''sort'', lp_sort p)]"
    using assms by (simp_all add: utf8_fields_def services_fields_def utf8_ascii split: option.splits)
  obtain r where r: "parseHash (Some (fleetServicesUrl o' p)) = Some r" "rt_view r = VFleetServices"
      "\<forall>k. map_of (rt_params r) k = (case map_of (services_fields o' @ paging_fields p) k of Some v \<Rightarrow> present v | None \<Rightarrow> None)"
    using services_url_params[OF u] by blast
  have pos: "present (pos_string n) = (case n of Some i \<Rightarrow> if 0 < i then Some (show_int i) else None | None \<Rightarrow> None)" for n
    by (simp add: present_def pos_string_def show_int_def split: option.split)
  have "fst ` set (rt_params r) \<subseteq> fst ` set (services_fields o' @ paging_fields p)"
  proof
    fix k assume "k \<in> fst ` set (rt_params r)"
    then have "map_of (rt_params r) k \<noteq> None" by (simp add: map_of_eq_None_iff)
    then have "map_of (services_fields o' @ paging_fields p) k \<noteq> None" using r(3) by (auto split: option.splits)
    then show "k \<in> fst ` set (services_fields o' @ paging_fields p)" by (simp only: map_of_eq_None_iff not_not)
  qed
  then have k: "fst ` set (rt_params r) \<subseteq>
      {''text'', ''owner'', ''ownerKey'', ''ownership'', ''status'', ''domain'', ''businessDomain'', ''capability'', ''offering'', ''consumes'',
       ''sort'', ''offset'', ''limit''}"
    by (rule subset_trans) (simp add: services_fields_def paging_fields_def)
  show ?thesis
    by (rule exI[of _ r]) (use r k in \<open>simp add: services_fields_def paging_fields_def pos\<close>)
qed

theorem fleetServicesUrl_roundtrip_witness:
  "\<exists>r. parseHash (Some (fleetServicesUrl (no_services_opts\<lparr> so_owner := Some ''a&b'', so_consumes := Some ''x=y'' \<rparr>)
        \<lparr> lp_offset = Some 50, lp_limit = None, lp_sort = None \<rparr>)) = Some r \<and>
     map_of (rt_params r) ''owner'' = Some ''a&b'' \<and> map_of (rt_params r) ''consumes'' = Some ''x=y'' \<and>
     map_of (rt_params r) ''offset'' = Some (show_int 50) \<and> map_of (rt_params r) ''limit'' = None"
proof -
  let ?o = "no_services_opts\<lparr> so_owner := Some ''a&b'', so_consumes := Some ''x=y'' \<rparr>"
  let ?p = "\<lparr> lp_offset = Some 50, lp_limit = None, lp_sort = None \<rparr>"
  have "list_all (case_option True utf8)
    [so_text ?o, so_owner ?o, so_ownerKey ?o, so_ownership ?o, so_status ?o, so_domain ?o, so_businessDomain ?o, so_capability ?o,
     so_offering ?o, so_consumes ?o, lp_sort ?p]"
    by (simp add: no_services_opts_def utf8_ascii)
  from fleetServicesUrl_roundtrip[OF this]
  show ?thesis by (auto simp: no_services_opts_def present_def)
qed

section \<open>Delivery\<close>

text \<open>A delivery list never names half a Stage: the parameters parsed for it hold a namespace
  exactly when they hold a stage, and they hold a domain only beside the exact service it
  narrows.\<close>

theorem delivery_stage_whole:
  assumes "parseDelivery path query = Some r" "rt_view r \<noteq> VDeliveryChange"
  shows "(map_of (rt_params r) ''namespace'' = None \<longleftrightarrow> map_of (rt_params r) ''stage'' = None) \<and>
    (map_of (rt_params r) ''service'' = None \<longrightarrow> map_of (rt_params r) ''domain'' = None)"
proof -
  define p where "p = take_keys DELIVERY_QUERY (qs_parse query) []"
  have r: "rt_params r = delivery_params (qs_parse query)"
    using assms unfolding parseDelivery_def Let_def by (auto split: option.splits prod.splits)
  have pres: "map_of p k = None \<longleftrightarrow> \<not> truthy (map_of p k)" for k
    by (auto simp: p_def take_keys_get present_def truthy_def split: option.splits if_splits)
  show ?thesis
    unfolding r delivery_params_def Let_def p_def[symmetric]
    using pres[of "''namespace''"] pres[of "''stage''"] pres[of "''service''"]
    by (auto simp: AList.delete_conv' truthy_def)
qed

theorem delivery_stage_whole_witness:
  "\<exists>r. parseDelivery ''delivery/history'' ''namespace=pay&offset=25'' = Some r \<and>
    map_of (rt_params r) ''namespace'' = None \<and> map_of (rt_params r) ''offset'' = Some ''25''"
proof -
  let ?r = "\<lparr> rt_view = VDeliveryHistory, rt_params = [(''offset'', ''25'')] \<rparr>"
  have e: "parseDelivery ''delivery/history'' ''namespace=pay&offset=25'' = Some ?r" by code_simp
  have "map_of (rt_params ?r) ''namespace'' = None"
    using delivery_stage_whole[OF e] by simp
  with e show ?thesis by simp
qed

end
