(* ===== verification/GraphModel.thy ===== *)
theory GraphModel
  imports Format
begin

text \<open>
  Dependency graphs as data (\<open>lib/graph.ts\<close>, \<open>lib/graph-aggregate.ts\<close>): the node and edge
  shapes, the focused subgraph, the graph of one service version, the subgraph around a
  team's services, and the graph collapsed to one node per owner.

  A \<open>Map\<close> built from an array keeps the last entry of a repeated key, as in the language.
\<close>

section \<open>Data\<close>

record gedge =
  ge_targetId :: string
  ge_required :: "bool option"
  ge_type :: "string option"
  ge_driftStatus :: "string option"
  ge_edgeState :: "string option"
  ge_refused :: "bool option"
  ge_label :: "string option"

record gnode =
  gn_id :: string
  gn_serviceName :: string
  gn_status :: string
  gn_version :: "string option"
  gn_reason :: "string option"
  gn_kind :: "string option"
  gn_edges :: "gedge list option"
  gn_depth :: "int option"
  gn_owner :: "string option"
  gn_group :: "nat option"
  gn_side :: "int option"
  gn_lane :: "bool option"
  gn_parent :: "string option"

definition plain_edge :: "string \<Rightarrow> gedge" where
  "plain_edge t = \<lparr> ge_targetId = t, ge_required = None, ge_type = None, ge_driftStatus = None,
     ge_edgeState = None, ge_refused = None, ge_label = None \<rparr>"

definition plain_node :: "string \<Rightarrow> string \<Rightarrow> string \<Rightarrow> gnode" where
  "plain_node i n s = \<lparr> gn_id = i, gn_serviceName = n, gn_status = s, gn_version = None, gn_reason = None,
     gn_kind = None, gn_edges = None, gn_depth = None, gn_owner = None, gn_group = None, gn_side = None,
     gn_lane = None, gn_parent = None \<rparr>"

text \<open>\<open>node.edges || []\<close>.\<close>

definition edges_of :: "gnode \<Rightarrow> gedge list" where
  "edges_of n = nullish (gn_edges n) []"

definition targets_of :: "gnode \<Rightarrow> string list" where
  "targets_of n = map ge_targetId (edges_of n)"

text \<open>\<open>new Map(nodes.map((n) => [n.id, n]))\<close>.\<close>

definition node_map :: "gnode list \<Rightarrow> gnode dict" where
  "node_map nodes = foldl (\<lambda>m n. AList.update (gn_id n) n m) [] nodes"

definition fullName :: "gnode \<Rightarrow> string" where
  "fullName node =
     (let raw = (if gn_serviceName node \<noteq> [] then gn_serviceName node else gn_id node) in
      case gn_group node of
        Some g \<Rightarrow>
          if g \<noteq> 0 then or_else (gn_owner node) raw @ '': '' @ show_nat g @ '' entities. Select to show them.''
          else if truthy (gn_version node) then raw @ '' '' @ the (gn_version node) else raw
      | None \<Rightarrow> if truthy (gn_version node) then raw @ '' '' @ the (gn_version node) else raw)"

definition isFocusNode :: "gnode \<Rightarrow> string option \<Rightarrow> bool" where
  "isFocusNode n focusId =
     (truthy focusId \<and> (gn_serviceName n = the focusId \<or> gn_id n = the focusId))"

section \<open>The subgraph around a focus\<close>

definition visit_edge :: "gnode dict \<Rightarrow> string list \<times> string list \<Rightarrow> string \<Rightarrow> string list \<times> string list" where
  "visit_edge m vq t =
     (case vq of (visited, queue) \<Rightarrow>
        if t \<notin> set visited \<and> map_of m t \<noteq> None then (visited @ [t], queue @ [t]) else (visited, queue))"

definition visit_node :: "gnode dict \<Rightarrow> gnode \<Rightarrow> string list \<times> string list \<Rightarrow> string list \<times> string list" where
  "visit_node m n vq = foldl (visit_edge m) vq (targets_of n)"

lemma visit_fold:
  "\<exists>new. foldl (visit_edge m) (v, q) ts = (v @ new, q @ new) \<and> distinct new \<and>
     set new = {t \<in> set ts. t \<notin> set v \<and> map_of m t \<noteq> None}"
proof (induction ts arbitrary: v q)
  case Nil
  then show ?case by simp
next
  case (Cons t ts)
  show ?case
  proof (cases "t \<notin> set v \<and> map_of m t \<noteq> None")
    case True
    then have step: "foldl (visit_edge m) (v, q) (t # ts) = foldl (visit_edge m) (v @ [t], q @ [t]) ts"
      by (simp add: visit_edge_def)
    obtain new where new: "foldl (visit_edge m) (v @ [t], q @ [t]) ts = ((v @ [t]) @ new, (q @ [t]) @ new)"
        "distinct new" "set new = {x \<in> set ts. x \<notin> set (v @ [t]) \<and> map_of m x \<noteq> None}"
      using Cons.IH by blast
    have "foldl (visit_edge m) (v, q) (t # ts) = (v @ (t # new), q @ (t # new))"
      using step new(1) by simp
    moreover have "distinct (t # new)" using new(2,3) by simp
    moreover have "set (t # new) = {x \<in> set (t # ts). x \<notin> set v \<and> map_of m x \<noteq> None}"
      using new(3) True by auto
    ultimately show ?thesis by blast
  next
    case False
    then have step: "foldl (visit_edge m) (v, q) (t # ts) = foldl (visit_edge m) (v, q) ts"
      by (auto simp: visit_edge_def)
    have "{x \<in> set (t # ts). x \<notin> set v \<and> map_of m x \<noteq> None} = {x \<in> set ts. x \<notin> set v \<and> map_of m x \<noteq> None}"
      using False by auto
    with Cons.IH[of v q] step show ?thesis by simp
  qed
qed

text \<open>The nodes still to be discovered: what the loop's termination rests on.\<close>

definition unvisited :: "gnode dict \<Rightarrow> string list \<Rightarrow> nat" where
  "unvisited m visited = card (set (keys_of m) - set visited)"

lemma visit_progress:
  assumes "foldl (visit_edge m) (v, q) ts = (v', q')"
  shows "unvisited m v' < unvisited m v \<or> v' = v \<and> q' = q"
proof -
  obtain new where n: "foldl (visit_edge m) (v, q) ts = (v @ new, q @ new)"
      "set new = {t \<in> set ts. t \<notin> set v \<and> map_of m t \<noteq> None}"
    using visit_fold by blast
  show ?thesis
  proof (cases new)
    case Nil
    with n assms show ?thesis by simp
  next
    case (Cons t rest)
    then have "t \<in> set new" by simp
    then have t: "t \<notin> set v" "t \<in> set (keys_of m)" using n(2) by (auto simp: map_of_eq_None_iff)
    have "set (keys_of m) - set (v @ new) \<subset> set (keys_of m) - set v" using t Cons by auto
    then have "unvisited m (v @ new) < unvisited m v"
      unfolding unvisited_def by (intro psubset_card_mono) auto
    with n(1) assms show ?thesis by simp
  qed
qed

function bfs :: "gnode dict \<Rightarrow> string list \<Rightarrow> string list \<Rightarrow> string list" where
  "bfs m visited [] = visited"
| "bfs m visited (i # queue) =
     (case map_of m i of
        None \<Rightarrow> bfs m visited queue
      | Some n \<Rightarrow> (case visit_node m n (visited, queue) of (visited', queue') \<Rightarrow> bfs m visited' queue'))"
  by pat_completeness auto
termination
proof (relation "measures [\<lambda>(m, v, q). unvisited m v, \<lambda>(m, v, q). length q]", goal_cases)
  case (3 m v i q n v' q')
  then have "foldl (visit_edge m) (v, q) (targets_of n) = (v', q')" by (simp add: visit_node_def)
  with visit_progress[of m v q "targets_of n" v' q'] show ?case by auto
qed auto

text \<open>The scan that adds what points at a visited node; it reads the set it is growing.\<close>

definition add_dependents :: "gnode list \<Rightarrow> string list \<Rightarrow> string list" where
  "add_dependents nodes visited =
     foldl (\<lambda>v n. foldl (\<lambda>v' t. if t \<in> set v' then set_add (gn_id n) v' else v') v (targets_of n)) visited nodes"

definition extractSubgraph :: "gnode list \<Rightarrow> string option \<Rightarrow> gnode list option" where
  "extractSubgraph nodes focusId =
     (if nodes = [] \<or> \<not> truthy focusId then None
      else
        let m = node_map nodes; f = the focusId in
        if map_of m f = None then None
        else
          let visited = add_dependents nodes (bfs m [f] [f]);
              subNodes = filter (\<lambda>n. gn_id n \<in> set visited) nodes
          in if 1 < length subNodes then Some subNodes else None)"

section \<open>A service at one version\<close>

record version_detail =
  vd_name :: string
  vd_contractStatus :: "string option"
  vd_version :: "string option"
  vd_dependencies :: "(string option \<times> bool option) list"

record fleet_entry =
  fe_name :: string
  fe_contractStatus :: "string option"
  fe_version :: "string option"

definition dep_node :: "(string, fleet_entry) map \<Rightarrow> string \<Rightarrow> gnode" where
  "dep_node byName d =
     (let svc = byName d in
      (plain_node d d (or_else (case svc of Some s \<Rightarrow> fe_contractStatus s | None \<Rightarrow> None) ''external''))
        \<lparr> gn_version := Some (or_else (case svc of Some s \<Rightarrow> fe_version s | None \<Rightarrow> None) []),
          gn_edges := Some [] \<rparr>)"

text \<open>The loop's state: the root's edges, the names seen and the dependency nodes.\<close>

definition version_step ::
  "string \<Rightarrow> (string, fleet_entry) map \<Rightarrow> gedge list \<times> string list \<times> gnode list \<Rightarrow>
   string option \<times> bool option \<Rightarrow> gedge list \<times> string list \<times> gnode list" where
  "version_step self byName st dep =
     (case st of (edges, seen, nodes) \<Rightarrow>
        if \<not> truthy (fst dep) \<or> fst dep = Some self then st
        else
          let d = the (fst dep);
              edges' = edges @ [(plain_edge d)\<lparr> ge_required := snd dep, ge_type := Some ''dependency'' \<rparr>]
          in if d \<in> set seen then (edges', seen, nodes)
             else (edges', set_add d seen, nodes @ [dep_node byName d]))"

definition fleet_map :: "fleet_entry list \<Rightarrow> (string, fleet_entry) map" where
  "fleet_map services = map_of (foldl (\<lambda>m s. AList.update (fe_name s) s m) [] services)"

definition buildVersionSubgraph :: "version_detail \<Rightarrow> fleet_entry list \<Rightarrow> string \<Rightarrow> gnode list" where
  "buildVersionSubgraph detail services version =
     (case foldl (version_step (vd_name detail) (fleet_map services)) ([], [vd_name detail], []) (vd_dependencies detail) of
        (edges, seen, nodes) \<Rightarrow>
          (plain_node (vd_name detail) (vd_name detail) (or_else (vd_contractStatus detail) ''Unknown''))
            \<lparr> gn_version := Some (if version \<noteq> [] then version else or_else (vd_version detail) []),
              gn_edges := Some edges \<rparr>
          # nodes)"

section \<open>Aggregation\<close>

definition STATUS_SEVERITY :: "int dict" where
  "STATUS_SEVERITY =
     [(''Invalid'', 5), (''NonCompliant'', 4), (''Unknown'', 3), (''Warning'', 2), (''external'', 1),
      (''Reference'', 0), (''NotEvaluated'', 0), (''Compliant'', 0)]"

definition severity :: "string \<Rightarrow> int" where
  "severity s = nullish (map_of STATUS_SEVERITY s) 0"

definition worstStatus :: "string list \<Rightarrow> string" where
  "worstStatus statuses =
     fst (foldl (\<lambda>(worst, sev) s. if sev < severity s then (s, severity s) else (worst, sev))
       (''Compliant'', - 1) statuses)"

definition relatedSubgraph :: "gnode list \<Rightarrow> (gnode \<Rightarrow> bool) \<Rightarrow> bool \<Rightarrow> gnode list" where
  "relatedSubgraph nodes isCore includeDependents =
     (let core = uniq (map gn_id (filter isCore nodes)) in
      if core = [] then []
      else
        let keep =
          foldl (\<lambda>keep n.
            let keep1 = (if gn_id n \<in> set core then foldl (\<lambda>k t. set_add t k) keep (targets_of n) else keep)
            in if includeDependents
               then foldl (\<lambda>k t. if t \<in> set core then set_add (gn_id n) k else k) keep1 (targets_of n)
               else keep1) core nodes
        in filter (\<lambda>n. gn_id n \<in> set keep) nodes)"

definition owner_map :: "(gnode \<Rightarrow> string) \<Rightarrow> gnode list \<Rightarrow> string dict" where
  "owner_map ownerLabelOf nodes = foldl (\<lambda>m n. AList.update (gn_id n) (ownerLabelOf n) m) [] nodes"

definition add_stat :: "string dict \<Rightarrow> (nat \<times> string list) dict \<Rightarrow> gnode \<Rightarrow> (nat \<times> string list) dict" where
  "add_stat ownerOf stats n =
     (let o' = map_of ownerOf (gn_id n) in
      if \<not> truthy o' then stats
      else
        let a = nullish (map_of stats (the o')) (0, [])
        in AList.update (the o') (Suc (fst a), snd a @ [gn_status n]) stats)"

definition target_step :: "string dict \<Rightarrow> string \<Rightarrow> string list dict \<Rightarrow> string \<Rightarrow> string list dict" where
  "target_step ownerOf i ts t =
     (let so = map_of ownerOf i; to = map_of ownerOf t in
      if truthy so \<and> truthy to \<and> so \<noteq> to then
        (case map_of ts (the so) of Some s \<Rightarrow> AList.update (the so) (set_add (the to) s) ts | None \<Rightarrow> ts)
      else ts)"

definition add_targets :: "string dict \<Rightarrow> string list dict \<Rightarrow> gnode \<Rightarrow> string list dict" where
  "add_targets ownerOf targets n = foldl (target_step ownerOf (gn_id n)) targets (targets_of n)"

definition owner_node :: "string list dict \<Rightarrow> string \<times> nat \<times> string list \<Rightarrow> gnode" where
  "owner_node targets e =
     (case e of (owner, n, statuses) \<Rightarrow>
        (plain_node owner owner (worstStatus statuses))
          \<lparr> gn_version := Some (formatCount n @ '' service'' @ (if n \<noteq> 1 then ''s'' else [])),
            gn_edges := Some (map (\<lambda>t. (plain_edge t)\<lparr> ge_type := Some ''dependency'', ge_required := Some True \<rparr>)
              (nullish (map_of targets owner) [])) \<rparr>)"

definition aggregateGraphByOwner :: "gnode list \<Rightarrow> (gnode \<Rightarrow> string) \<Rightarrow> gnode list" where
  "aggregateGraphByOwner nodes ownerLabelOf =
     (let ownerOf = owner_map ownerLabelOf nodes;
          stats = foldl (add_stat ownerOf) [] nodes;
          targets0 = map (\<lambda>o'. (o', [])) (keys_of stats);
          targets = foldl (add_targets ownerOf) targets0 nodes
      in map (owner_node targets) stats)"

section \<open>What the subgraph holds\<close>

text \<open>One followed edge: from a node of the graph to a node of the graph.\<close>

definition link :: "gnode dict \<Rightarrow> string \<Rightarrow> string \<Rightarrow> bool" where
  "link m x y = (\<exists>n. map_of m x = Some n \<and> y \<in> set (targets_of n) \<and> map_of m y \<noteq> None)"

lemma bfs_reaches:
  assumes "\<forall>x \<in> set v. (link m)\<^sup>*\<^sup>* f x" "set q \<subseteq> set v"
  shows "\<forall>x \<in> set (bfs m v q). (link m)\<^sup>*\<^sup>* f x"
  using assms
proof (induction m v q rule: bfs.induct)
  case (1 m v)
  then show ?case by simp
next
  case (2 m v i q)
  show ?case
  proof (cases "map_of m i")
    case None
    with 2 show ?thesis by simp
  next
    case (Some n)
    obtain new where new: "visit_node m n (v, q) = (v @ new, q @ new)"
        "set new = {t \<in> set (targets_of n). t \<notin> set v \<and> map_of m t \<noteq> None}"
      using visit_fold[of m v q "targets_of n"] unfolding visit_node_def by blast
    have "link m i t" if "t \<in> set new" for t using that new(2) Some by (auto simp: link_def)
    moreover have "(link m)\<^sup>*\<^sup>* f i" using 2 by simp
    ultimately have "\<forall>x \<in> set (v @ new). (link m)\<^sup>*\<^sup>* f x"
      using 2(3) by (metis Un_iff rtranclp.rtrancl_into_rtrancl set_append)
    moreover have "set (q @ new) \<subseteq> set (v @ new)" using 2(4) by auto
    ultimately have "\<forall>x \<in> set (bfs m (v @ new) (q @ new)). (link m)\<^sup>*\<^sup>* f x"
      using 2(2)[OF Some new(1)[symmetric]] by blast
    then show ?thesis using Some new(1) by simp
  qed
qed

lemma bfs_closed:
  assumes "\<forall>x \<in> set v. x \<in> set q \<or> (\<forall>y. link m x y \<longrightarrow> y \<in> set v)"
  shows "set v \<subseteq> set (bfs m v q) \<and> (\<forall>x \<in> set (bfs m v q). \<forall>y. link m x y \<longrightarrow> y \<in> set (bfs m v q))"
  using assms
proof (induction m v q rule: bfs.induct)
  case (1 m v)
  then show ?case by simp
next
  case (2 m v i q)
  show ?case
  proof (cases "map_of m i")
    case None
    then have "\<not> link m i y" for y by (simp add: link_def)
    then have "\<forall>x \<in> set v. x \<in> set q \<or> (\<forall>y. link m x y \<longrightarrow> y \<in> set v)" using 2(3) by auto
    from 2(1)[OF None this] None show ?thesis by simp
  next
    case (Some n)
    obtain new where new: "visit_node m n (v, q) = (v @ new, q @ new)"
        "set new = {t \<in> set (targets_of n). t \<notin> set v \<and> map_of m t \<noteq> None}"
      using visit_fold[of m v q "targets_of n"] unfolding visit_node_def by blast
    have "y \<in> set (v @ new)" if "link m i y" for y
      using that Some new(2) by (auto simp: link_def)
    then have "\<forall>x \<in> set (v @ new). x \<in> set (q @ new) \<or> (\<forall>y. link m x y \<longrightarrow> y \<in> set (v @ new))"
      using 2(3) by (metis Un_iff set_ConsD set_append)
    from 2(2)[OF Some new(1)[symmetric] this] Some new(1) show ?thesis by auto
  qed
qed

text \<open>The traversal visits exactly what the focus reaches.\<close>

lemma bfs_reachable: "set (bfs m [f] [f]) = {x. (link m)\<^sup>*\<^sup>* f x}"
proof -
  have cl: "f \<in> set (bfs m [f] [f])" "\<And>x y. x \<in> set (bfs m [f] [f]) \<Longrightarrow> link m x y \<Longrightarrow> y \<in> set (bfs m [f] [f])"
    using bfs_closed[of "[f]" "[f]" m] by auto
  have "x \<in> set (bfs m [f] [f])" if "(link m)\<^sup>*\<^sup>* f x" for x
    using that by (induction rule: rtranclp_induct) (use cl in blast)+
  then show ?thesis using bfs_reaches[of "[f]" m f "[f]"] by auto
qed

lemma add_targets_scan:
  "set (foldl (\<lambda>v' t. if t \<in> set v' then set_add i v' else v') v ts) =
     set v \<union> (if \<exists>t \<in> set ts. t \<in> set v then {i} else {})"
proof (induction ts arbitrary: v)
  case (Cons t ts)
  then show ?case by (auto split: if_splits)
qed simp

definition points_at :: "gnode list \<Rightarrow> string \<Rightarrow> string \<Rightarrow> bool" where
  "points_at nodes x y = (\<exists>n \<in> set nodes. gn_id n = x \<and> y \<in> set (targets_of n))"

lemma add_dependents_Cons:
  "set (add_dependents (n # nodes) v) =
    set (add_dependents nodes (if \<exists>t \<in> set (targets_of n). t \<in> set v then set_add (gn_id n) v else v))"
proof -
  have e: "add_dependents ns a = foldl (\<lambda>v n. foldl (\<lambda>v' t. if t \<in> set v' then set_add (gn_id n) v' else v') v (targets_of n)) a ns" for ns a
    by (simp add: add_dependents_def)
  have cong: "set (add_dependents ns a) = set (add_dependents ns b)" if "set a = set b" for ns a b
    using that
  proof (induction ns arbitrary: a b)
    case (Cons k ns)
    show ?case unfolding e foldl_Cons unfolding e[symmetric]
      by (rule Cons.IH) (simp add: add_targets_scan Cons.prems)
  qed (simp add: add_dependents_def)
  show ?thesis
    unfolding e[of "n # nodes"] foldl_Cons unfolding e[symmetric]
    by (rule cong) (simp add: add_targets_scan)
qed

lemma add_dependents_bounds:
  "set v \<subseteq> set (add_dependents nodes v) \<and>
   (\<forall>n \<in> set nodes. (\<exists>t \<in> set (targets_of n). t \<in> set v) \<longrightarrow> gn_id n \<in> set (add_dependents nodes v)) \<and>
   (\<forall>x \<in> set (add_dependents nodes v). \<exists>y \<in> set v. (points_at nodes)\<^sup>*\<^sup>* x y)"
proof (induction nodes arbitrary: v)
  case Nil
  then show ?case by (auto simp: add_dependents_def)
next
  case (Cons n nodes)
  define w where "w = (if \<exists>t \<in> set (targets_of n). t \<in> set v then set_add (gn_id n) v else v)"
  have s: "set (add_dependents (n # nodes) v) = set (add_dependents nodes w)"
    unfolding w_def by (rule add_dependents_Cons)
  have vw: "set v \<subseteq> set w" by (auto simp: w_def)
  note ih = Cons.IH[of w]
  have mono: "(points_at nodes)\<^sup>*\<^sup>* x y \<Longrightarrow> (points_at (n # nodes))\<^sup>*\<^sup>* x y" for x y
    by (rule rtranclp_mono[THEN predicate2D]) (auto simp: points_at_def)
  have up: "\<exists>y \<in> set v. (points_at (n # nodes))\<^sup>*\<^sup>* x y" if "x \<in> set w" for x
  proof (cases "x \<in> set v")
    case False
    with that obtain t where "t \<in> set (targets_of n)" "t \<in> set v" "x = gn_id n"
      by (auto simp: w_def split: if_splits)
    then have "points_at (n # nodes) x t" by (auto simp: points_at_def)
    with \<open>t \<in> set v\<close> show ?thesis by blast
  qed auto
  have dir: "gn_id n \<in> set w" if "\<exists>t \<in> set (targets_of n). t \<in> set v" using that by (auto simp: w_def)
  have low: "\<exists>y \<in> set v. (points_at (n # nodes))\<^sup>*\<^sup>* x y" if "x \<in> set (add_dependents nodes w)" for x
  proof -
    obtain y where "y \<in> set w" "(points_at nodes)\<^sup>*\<^sup>* x y" using ih \<open>x \<in> _\<close> by blast
    with up mono show ?thesis by (meson rtranclp_trans)
  qed
  show ?case
    unfolding s using ih vw dir low by (metis (no_types, lifting) set_ConsD subsetD subsetI)
qed

text \<open>C26: The focused subgraph holds the right nodes, in the graph's order: everything the focus
  reaches through dependencies and every direct dependent of any of it is there, and whatever
  is there either is reached by the focus or reaches something that is.\<close>

theorem extractSubgraph_members:
  assumes "extractSubgraph nodes (Some f) = Some sub"
  shows "sub = filter (\<lambda>n. n \<in> set sub) nodes \<and>
    (\<forall>n \<in> set nodes. (link (node_map nodes))\<^sup>*\<^sup>* f (gn_id n) \<longrightarrow> n \<in> set sub) \<and>
    (\<forall>n \<in> set nodes. \<forall>t \<in> set (targets_of n). (link (node_map nodes))\<^sup>*\<^sup>* f t \<longrightarrow> n \<in> set sub) \<and>
    (\<forall>n \<in> set sub. \<exists>t. (points_at nodes)\<^sup>*\<^sup>* (gn_id n) t \<and> (link (node_map nodes))\<^sup>*\<^sup>* f t)"
proof -
  define b where "b = bfs (node_map nodes) [f] [f]"
  define v where "v = add_dependents nodes b"
  have b: "x \<in> set b \<longleftrightarrow> (link (node_map nodes))\<^sup>*\<^sup>* f x" for x using bfs_reachable[of "node_map nodes" f] by (simp del: bfs.simps add: b_def)
  have sub: "sub = filter (\<lambda>n. gn_id n \<in> set v) nodes"
    using assms by (auto simp: extractSubgraph_def Let_def v_def b_def split: if_splits)
  have "filter (\<lambda>n. n \<in> set sub) nodes = filter (\<lambda>n. gn_id n \<in> set v) nodes"
    by (rule filter_cong) (auto simp: sub)
  moreover have bv: "set b \<subseteq> set v" "\<forall>n \<in> set nodes. (\<exists>t \<in> set (targets_of n). t \<in> set b) \<longrightarrow> gn_id n \<in> set v"
    "\<forall>x \<in> set v. \<exists>y \<in> set b. (points_at nodes)\<^sup>*\<^sup>* x y"
    using add_dependents_bounds[of b nodes] unfolding v_def by blast+
  moreover have "\<exists>t. (points_at nodes)\<^sup>*\<^sup>* (gn_id n) t \<and> (link (node_map nodes))\<^sup>*\<^sup>* f t" if "n \<in> set sub" for n
  proof -
    have "gn_id n \<in> set v" using that sub by simp
    then obtain y where "y \<in> set b" "(points_at nodes)\<^sup>*\<^sup>* (gn_id n) y" using bv(3) by blast
    with b show ?thesis by blast
  qed
  ultimately show ?thesis using sub b by (simp add: subset_iff)
qed

definition demo_node :: "string \<Rightarrow> string list \<Rightarrow> gnode" where
  "demo_node i ts = (plain_node i i ''Compliant'')\<lparr> gn_edges := Some (map plain_edge ts) \<rparr>"

theorem extractSubgraph_members_witness:
  "let nodes = [demo_node ''api'' [''db''], demo_node ''db'' [], demo_node ''web'' [''api''], demo_node ''lone'' []]
   in extractSubgraph nodes (Some ''api'') = Some (take 3 nodes) \<and> demo_node ''web'' [''api''] \<in> set (take 3 nodes)"
proof -
  let ?nodes = "[demo_node ''api'' [''db''], demo_node ''db'' [], demo_node ''web'' [''api''], demo_node ''lone'' []]"
  have e: "extractSubgraph ?nodes (Some ''api'') = Some (take 3 ?nodes)" by code_simp
  have "''api'' \<in> set (targets_of (demo_node ''web'' [''api'']))"
    by (simp add: demo_node_def targets_of_def edges_of_def plain_edge_def)
  then have "demo_node ''web'' [''api''] \<in> set (take 3 ?nodes)"
    using extractSubgraph_members[OF e] by simp
  with e show ?thesis by (simp add: Let_def)
qed

text \<open>Whether a dependent of a dependent is included depends on the order of the nodes.\<close>

lemma extractSubgraph_order_dependent:
  "map gn_id (the (extractSubgraph [demo_node ''a'' [], demo_node ''b'' [''a''], demo_node ''c'' [''b'']] (Some ''a''))) =
     [''a'', ''b'', ''c''] \<and>
   map gn_id (the (extractSubgraph [demo_node ''a'' [], demo_node ''c'' [''b''], demo_node ''b'' [''a'']] (Some ''a''))) =
     [''a'', ''b'']"
  by code_simp

section \<open>What the owner graph counts\<close>

definition owned_by :: "string dict \<Rightarrow> string \<Rightarrow> gnode list \<Rightarrow> gnode list" where
  "owned_by ow o' ns = filter (\<lambda>n. map_of ow (gn_id n) = Some o') ns"

definition stats_ok :: "string dict \<Rightarrow> gnode list \<Rightarrow> (nat \<times> string list) dict \<Rightarrow> bool" where
  "stats_ok ow seen st = (wf_dict st \<and>
     (\<forall>o'. map_of st o' =
        (if o' = [] \<or> owned_by ow o' seen = [] then None
         else Some (length (owned_by ow o' seen), map gn_status (owned_by ow o' seen)))))"

lemma stats_ok_step: "stats_ok ow seen st \<Longrightarrow> stats_ok ow (seen @ [n]) (add_stat ow st n)"
proof -
  assume ok: "stats_ok ow seen st"
  have get: "map_of st o' = (if o' = [] \<or> owned_by ow o' seen = [] then None
      else Some (length (owned_by ow o' seen), map gn_status (owned_by ow o' seen)))" for o'
    using ok by (simp add: stats_ok_def)
  have grow: "owned_by ow o' (seen @ [n]) =
      (if map_of ow (gn_id n) = Some o' then owned_by ow o' seen @ [n] else owned_by ow o' seen)" for o'
    by (simp add: owned_by_def)
  show ?thesis
  proof (cases "truthy (map_of ow (gn_id n))")
    case False
    then have "add_stat ow st n = st" by (simp add: add_stat_def)
    moreover have "map_of ow (gn_id n) = Some o' \<Longrightarrow> o' = []" for o' using False by (auto simp: truthy_def)
    ultimately show ?thesis using ok by (simp add: stats_ok_def grow)
  next
    case True
    then obtain o0 where o0: "map_of ow (gn_id n) = Some o0" "o0 \<noteq> []"
      by (cases "map_of ow (gn_id n)") (auto simp: truthy_def)
    have "nullish (map_of st o0) (0, []) = (length (owned_by ow o0 seen), map gn_status (owned_by ow o0 seen))"
      unfolding get using o0(2) by simp
    then have e: "add_stat ow st n = AList.update o0
        (Suc (length (owned_by ow o0 seen)), map gn_status (owned_by ow o0 seen) @ [gn_status n]) st"
      using True o0 by (simp add: add_stat_def)
    show ?thesis
      using ok o0 unfolding stats_ok_def e by (simp add: AList.update_conv' get grow)
  qed
qed

lemma stats_ok_fold: "stats_ok ow seen st \<Longrightarrow> stats_ok ow (seen @ ns) (foldl (add_stat ow) st ns)"
proof (induction ns arbitrary: seen st)
  case (Cons n ns)
  from Cons.IH[OF stats_ok_step[OF Cons.prems, of n]] show ?case by simp
qed simp

definition crosses1 :: "string dict \<Rightarrow> string \<Rightarrow> string \<Rightarrow> string \<Rightarrow> string \<Rightarrow> bool" where
  "crosses1 ow i t so to = (so \<noteq> [] \<and> to \<noteq> [] \<and> so \<noteq> to \<and> map_of ow i = Some so \<and> map_of ow t = Some to)"

definition targets_ok :: "string list \<Rightarrow> (string \<Rightarrow> string \<Rightarrow> bool) \<Rightarrow> string list dict \<Rightarrow> bool" where
  "targets_ok ks P ts = (keys_of ts = ks \<and> (\<forall>k \<in> set ks. \<exists>s. map_of ts k = Some s \<and> distinct s \<and> set s = {t. P k t}))"

lemma truthy_Some: "truthy x \<longleftrightarrow> (\<exists>s. x = Some s \<and> s \<noteq> [])"
  by (cases x) (auto simp: truthy_def)

lemma target_step_ok:
  assumes ok: "targets_ok ks P ts" and known: "\<And>so. map_of ow i = Some so \<Longrightarrow> so \<noteq> [] \<Longrightarrow> so \<in> set ks"
  shows "targets_ok ks (\<lambda>so to. P so to \<or> crosses1 ow i t so to) (target_step ow i ts t)"
proof (cases "truthy (map_of ow i) \<and> truthy (map_of ow t) \<and> map_of ow i \<noteq> map_of ow t")
  case False
  then have "target_step ow i ts t = ts" by (auto simp: target_step_def Let_def)
  moreover have "\<not> crosses1 ow i t so to" for so to using False by (auto simp: crosses1_def truthy_Some)
  ultimately show ?thesis using ok by simp
next
  case True
  then obtain so to where st: "map_of ow i = Some so" "so \<noteq> []" "map_of ow t = Some to" "to \<noteq> []" "so \<noteq> to"
    by (auto simp: truthy_Some)
  have mem: "so \<in> set ks" using known st by blast
  then obtain s where s: "map_of ts so = Some s" "distinct s" "set s = {t. P so t}"
    using ok unfolding targets_ok_def by blast
  have e: "target_step ow i ts t = AList.update so (set_add to s) ts" using True st s by (simp add: target_step_def)
  have c: "crosses1 ow i t a b \<longleftrightarrow> a = so \<and> b = to" for a b using st by (auto simp: crosses1_def)
  have kk: "keys_of ts = ks" using ok by (simp add: targets_ok_def)
  have "\<exists>r. map_of (AList.update so (set_add to s) ts) k = Some r \<and> distinct r \<and> set r = {b. P k b \<or> crosses1 ow i t k b}"
    if "k \<in> set ks" for k
  proof (cases "k = so")
    case True
    then have "set (set_add to s) = {b. P k b \<or> crosses1 ow i t k b}" using s(3) by (auto simp: c)
    with True s(2) show ?thesis by (simp add: AList.update_conv')
  next
    case False
    obtain r where "map_of ts k = Some r" "distinct r" "set r = {t. P k t}"
      using ok \<open>k \<in> set ks\<close> unfolding targets_ok_def by blast
    with False show ?thesis by (simp add: AList.update_conv' c)
  qed
  moreover have "keys_of (AList.update so (set_add to s) ts) = ks" using kk mem by (simp add: keys_of_update)
  ultimately show ?thesis unfolding e targets_ok_def by blast
qed

lemma targets_ok_cong: "targets_ok ks P ts \<Longrightarrow> (\<And>a b. P a b = Q a b) \<Longrightarrow> targets_ok ks Q ts"
proof -
  assume ok: "targets_ok ks P ts" and "\<And>a b. P a b = Q a b"
  then have "P = Q" by (intro ext)
  with ok show ?thesis by simp
qed

lemma empty_targets_ok: "targets_ok ks (\<lambda>a b. False) (map (\<lambda>o'. (o', [])) ks)"
proof -
  have "\<forall>k \<in> set ks. map_of (map (\<lambda>o'. (o', [] :: string list)) ks) k = Some []"
    by (induction ks) auto
  then show ?thesis by (simp add: targets_ok_def comp_def)
qed

lemma add_targets_ok:
  assumes "targets_ok ks P ts" "\<And>so. map_of ow (gn_id n) = Some so \<Longrightarrow> so \<noteq> [] \<Longrightarrow> so \<in> set ks"
  shows "targets_ok ks (\<lambda>so to. P so to \<or> (\<exists>t \<in> set (targets_of n). crosses1 ow (gn_id n) t so to)) (add_targets ow ts n)"
proof -
  have "targets_ok ks (\<lambda>so to. P so to \<or> (\<exists>t \<in> set us. crosses1 ow (gn_id n) t so to)) (foldl (target_step ow (gn_id n)) ts us)" for us
    using assms(1)
  proof (induction us arbitrary: P ts)
    case (Cons u us)
    from Cons.IH[OF target_step_ok[OF Cons.prems assms(2), where t = u]]
    have "targets_ok ks (\<lambda>so to. (P so to \<or> crosses1 ow (gn_id n) u so to) \<or> (\<exists>t \<in> set us. crosses1 ow (gn_id n) t so to))
        (foldl (target_step ow (gn_id n)) ts (u # us))" by simp
    then show ?case by (rule targets_ok_cong) auto
  qed simp
  then show ?thesis by (simp add: add_targets_def)
qed

text \<open>The cross-owner dependencies of a list of nodes.\<close>

definition crosses :: "string dict \<Rightarrow> gnode list \<Rightarrow> string \<Rightarrow> string \<Rightarrow> bool" where
  "crosses ow ns so to = (\<exists>n \<in> set ns. \<exists>t \<in> set (targets_of n). crosses1 ow (gn_id n) t so to)"

lemma all_targets_ok:
  assumes "targets_ok ks P ts"
    and "\<And>n so. n \<in> set ns \<Longrightarrow> map_of ow (gn_id n) = Some so \<Longrightarrow> so \<noteq> [] \<Longrightarrow> so \<in> set ks"
  shows "targets_ok ks (\<lambda>so to. P so to \<or> crosses ow ns so to) (foldl (add_targets ow) ts ns)"
  using assms
proof (induction ns arbitrary: P ts)
  case (Cons n ns)
  have "targets_ok ks (\<lambda>so to. P so to \<or> (\<exists>t \<in> set (targets_of n). crosses1 ow (gn_id n) t so to)) (add_targets ow ts n)"
    using Cons.prems by (intro add_targets_ok) auto
  moreover have "\<And>n so. n \<in> set ns \<Longrightarrow> map_of ow (gn_id n) = Some so \<Longrightarrow> so \<noteq> [] \<Longrightarrow> so \<in> set ks"
    using Cons.prems(2) by (meson list.set_intros(2))
  ultimately have "targets_ok ks (\<lambda>so to. (P so to \<or> (\<exists>t \<in> set (targets_of n). crosses1 ow (gn_id n) t so to)) \<or> crosses ow ns so to)
      (foldl (add_targets ow) (add_targets ow ts n) ns)"
    by (rule Cons.IH)
  then have "targets_ok ks (\<lambda>so to. (P so to \<or> (\<exists>t \<in> set (targets_of n). crosses1 ow (gn_id n) t so to)) \<or> crosses ow ns so to)
      (foldl (add_targets ow) ts (n # ns))" by simp
  then show ?case by (rule targets_ok_cong) (auto simp: crosses_def)
qed (simp add: crosses_def)

text \<open>C25: The per-owner graph answers "which team depends on which" exactly: its nodes are the
  owners of the graph's services, one each, in the order they appear; a node's label counts
  exactly that owner's services and its status is the worst of theirs; and there is one edge
  from an owner to another precisely when some service of the first depends on a service of the
  second -- never an edge to itself.\<close>

theorem aggregateGraphByOwner_exact:
  fixes nodes f
  defines "ow \<equiv> owner_map f nodes"
  defines "agg \<equiv> aggregateGraphByOwner nodes f"
  shows "distinct (map gn_id agg) \<and>
    set (map gn_id agg) = {o'. o' \<noteq> [] \<and> owned_by ow o' nodes \<noteq> []} \<and>
    (\<forall>a \<in> set agg. gn_status a = worstStatus (map gn_status (owned_by ow (gn_id a) nodes)) \<and>
      gn_version a = Some (formatCount (length (owned_by ow (gn_id a) nodes)) @ '' service'' @
        (if length (owned_by ow (gn_id a) nodes) \<noteq> 1 then ''s'' else [])) \<and>
      distinct (targets_of a) \<and> (\<forall>t. t \<in> set (targets_of a) \<longleftrightarrow> crosses ow nodes (gn_id a) t))"
proof -
  define stats where "stats = foldl (add_stat ow) [] nodes"
  define ts where "ts = foldl (add_targets ow) (map (\<lambda>o'. (o', [])) (keys_of stats)) nodes"
  have agg: "agg = map (owner_node ts) stats"
    by (simp add: agg_def aggregateGraphByOwner_def Let_def stats_def ts_def ow_def)
  have "stats_ok ow nodes stats"
    using stats_ok_fold[of ow "[]" "[]" nodes] by (simp add: stats_def stats_ok_def owned_by_def)
  then have wf: "distinct (keys_of stats)"
    and get: "\<And>o'. map_of stats o' = (if o' = [] \<or> owned_by ow o' nodes = [] then None
         else Some (length (owned_by ow o' nodes), map gn_status (owned_by ow o' nodes)))"
    by (simp_all add: stats_ok_def wf_dict_def)
  have keys: "set (keys_of stats) = {o'. o' \<noteq> [] \<and> owned_by ow o' nodes \<noteq> []}"
  proof -
    have "o' \<in> set (keys_of stats) \<longleftrightarrow> o' \<noteq> [] \<and> owned_by ow o' nodes \<noteq> []" for o'
      using map_of_eq_None_iff[of stats o'] get[of o'] by (auto split: if_splits)
    then show ?thesis by blast
  qed
  have "targets_ok (keys_of stats) (\<lambda>a b. False) (map (\<lambda>o'. (o', [])) (keys_of stats))"
    by (rule empty_targets_ok)
  then have "targets_ok (keys_of stats) (\<lambda>so to. False \<or> crosses ow nodes so to) ts"
    unfolding ts_def
  proof (rule all_targets_ok)
    fix n so assume "n \<in> set nodes" "map_of ow (gn_id n) = Some so" "so \<noteq> []"
    then have "owned_by ow so nodes \<noteq> []" by (auto simp: owned_by_def filter_empty_conv)
    with \<open>so \<noteq> []\<close> show "so \<in> set (keys_of stats)" unfolding keys by simp
  qed
  then have tg: "\<exists>s. map_of ts k = Some s \<and> distinct s \<and> set s = {t. crosses ow nodes k t}"
    if "k \<in> set (keys_of stats)" for k
    using that targets_ok_cong[of "keys_of stats" _ ts "crosses ow nodes"] unfolding targets_ok_def by blast
  have ids: "map gn_id agg = keys_of stats"
    by (auto simp: agg owner_node_def plain_node_def split: prod.splits)
  have row: "gn_status a = worstStatus (map gn_status (owned_by ow (gn_id a) nodes)) \<and>
      gn_version a = Some (formatCount (length (owned_by ow (gn_id a) nodes)) @ '' service'' @
        (if length (owned_by ow (gn_id a) nodes) \<noteq> 1 then ''s'' else [])) \<and>
      distinct (targets_of a) \<and> (\<forall>t. t \<in> set (targets_of a) \<longleftrightarrow> crosses ow nodes (gn_id a) t)"
    if a_in: "a \<in> set agg" for a
  proof -
    obtain k c ss where k: "(k, c, ss) \<in> set stats" "a = owner_node ts (k, c, ss)" using a_in agg by auto
    then have m: "map_of stats k = Some (c, ss)" using wf by simp
    then have cs: "c = length (owned_by ow k nodes)" "ss = map gn_status (owned_by ow k nodes)"
      using get[of k] by (auto split: if_splits)
    have "k \<in> set (keys_of stats)" using k(1) by force
    then obtain s where s: "map_of ts k = Some s" "distinct s" "set s = {t. crosses ow nodes k t}" using tg by blast
    have "gn_id a = k" "targets_of a = s"
      using s(1) by (simp_all add: k(2) owner_node_def plain_node_def targets_of_def edges_of_def plain_edge_def comp_def)
    with s cs show ?thesis by (simp add: k(2) owner_node_def plain_node_def)
  qed
  show ?thesis unfolding ids keys using wf row by blast
qed

theorem aggregateGraphByOwner_exact_witness:
  "let nodes = [demo_node ''api'' [''db'', ''web''], demo_node ''db'' [], demo_node ''web'' [''db'']];
       f = (\<lambda>n. if gn_id n = ''db'' then ''data'' else ''apps'');
       agg = aggregateGraphByOwner nodes f
   in map gn_id agg = [''apps'', ''data''] \<and> map targets_of agg = [[''data''], []] \<and> distinct (map gn_id agg)"
proof -
  let ?nodes = "[demo_node ''api'' [''db'', ''web''], demo_node ''db'' [], demo_node ''web'' [''db'']]"
  let ?f = "\<lambda>n. if gn_id n = ''db'' then ''data'' else ''apps''"
  have "map gn_id (aggregateGraphByOwner ?nodes ?f) = [''apps'', ''data'']"
    "map targets_of (aggregateGraphByOwner ?nodes ?f) = [[''data''], []]" by code_simp+
  moreover have "distinct (map gn_id (aggregateGraphByOwner ?nodes ?f))"
    using aggregateGraphByOwner_exact[of ?nodes ?f] by blast
  ultimately show ?thesis by (simp add: Let_def)
qed

end
