(* ===== verification/Neighborhood.thy ===== *)
theory Neighborhood
  imports GraphModel
begin

text \<open>
  From the backend's neighborhood to the drawn graph (\<open>lib/neighborhoodGraph.ts\<close>): the
  structural projection, the signatures that decide between patching and rebuilding, the side
  of the focus an entity sits on, and the lane graph that folds far entities into team groups
  and caps a lane's direct neighbors.

  Where the source compares nodes by object identity, the model compares positions in the
  node list; where it pushes onto a node found in a \<open>Map\<close>, the model pushes onto the last node
  with that id.  \<open>localeCompare\<close> is the argument \<open>lc\<close>.
\<close>

section \<open>The projection\<close>

record nb_ref =
  nr_kind :: string
  nr_key :: string
  nr_label :: "string option"
  nr_version :: "string option"
  nr_status :: "string option"

record nb_node =
  nn_ref :: nb_ref
  nn_status :: "string option"
  nn_depth :: "int option"
  nn_focus :: bool
  nn_owner :: "string option"

record nb_edge =
  ne_from :: string
  ne_to :: string
  ne_relation :: string
  ne_difference :: "string option"
  ne_corroboration :: "string option"
  ne_guarantee :: "string option"

definition edgeState :: "string option \<Rightarrow> string option \<Rightarrow> string" where
  "edgeState difference corroboration =
     (if difference = Some ''matched'' then ''matched''
      else if difference = Some ''observed-not-expected'' then ''drift''
      else if difference = Some ''expected-not-observed'' then ''expected-not-observed''
      else if difference = Some ''insufficient'' then ''insufficient''
      else if corroboration = Some ''matched'' then ''matched''
      else if corroboration = Some ''expected-not-observed'' then ''expected-not-observed''
      else if corroboration = Some ''insufficient'' then ''insufficient''
      else [])"

definition edgeType :: "string \<Rightarrow> string" where
  "edgeType relation =
     (if relation = ''runs'' then ''runs''
      else if relation = ''configuration_reference'' then ''reference''
      else ''dependency'')"

definition cyEdgeId :: "string \<Rightarrow> string \<Rightarrow> string \<Rightarrow> string" where
  "cyEdgeId fromKey toKey relation = fromKey @ RIGHT_ARROW @ toKey @ '':'' @ edgeType relation"

definition nodeKind :: "string \<Rightarrow> string" where
  "nodeKind kind = (if kind = ''revision'' \<or> kind = ''target'' then kind else ''service'')"

definition project_node :: "nb_node \<Rightarrow> gnode" where
  "project_node n =
     (let r = nn_ref n;
          version = (if nr_kind r = ''revision'' then or_else (nr_version r) [] else []);
          label = or_else (nr_label r) (nr_key r)
      in (plain_node (nr_key r)
            (if version \<noteq> [] \<and> endsWith label ('' '' @ version)
             then take (length label - length version - 1) label else label)
            (or_else (nn_status n) (or_else (nr_status r) ''Unknown'')))
         \<lparr> gn_version := (if version \<noteq> [] then Some version else None),
           gn_kind := Some (nodeKind (nr_kind r)),
           gn_edges := Some [],
           gn_depth := (case nn_depth n of
               Some d \<Rightarrow> Some (if nn_focus n then 0 else d)
             | None \<Rightarrow> if nn_focus n then Some 0 else None),
           gn_owner := (if truthy (nn_owner n) then nn_owner n else None) \<rparr>)"

definition project_edge :: "nb_edge \<Rightarrow> gedge" where
  "project_edge e =
     (let state = edgeState (ne_difference e) (ne_corroboration e) in
      (plain_edge (ne_to e))
        \<lparr> ge_type := Some (edgeType (ne_relation e)),
          ge_edgeState := (if state \<noteq> [] then Some state else None),
          ge_driftStatus := (if state = ''drift'' then Some ''drift'' else None),
          ge_refused := (if ne_guarantee e = Some ''unmet'' then Some True else None) \<rparr>)"

text \<open>\<open>byKey.get(i)!.edges!.push(e)\<close>: onto the last node with that id.\<close>

fun push_first :: "string \<Rightarrow> gedge \<Rightarrow> gnode list \<Rightarrow> gnode list" where
  "push_first i e [] = []"
| "push_first i e (n # ns) =
     (if gn_id n = i then n\<lparr> gn_edges := Some (edges_of n @ [e]) \<rparr> # ns else n # push_first i e ns)"

definition push_edge :: "string \<Rightarrow> gedge \<Rightarrow> gnode list \<Rightarrow> gnode list" where
  "push_edge i e ns = rev (push_first i e (rev ns))"

definition project_step :: "gnode list \<Rightarrow> nb_edge \<Rightarrow> gnode list" where
  "project_step nodes e =
     (if ne_from e \<notin> gn_id ` set nodes \<or> ne_to e \<notin> gn_id ` set nodes then nodes
      else push_edge (ne_from e) (project_edge e) nodes)"

definition neighborhoodToGraph :: "nb_node list \<Rightarrow> nb_edge list \<Rightarrow> gnode list" where
  "neighborhoodToGraph nodes edges = foldl project_step (map project_node nodes) edges"

section \<open>Signatures\<close>

definition edge_sig :: "gnode \<Rightarrow> gedge \<Rightarrow> string" where
  "edge_sig n e = gn_id n @ ''>'' @ ge_targetId e @ '':'' @ or_else (ge_type e) ''dependency''"

definition topoSignature :: "gnode list \<Rightarrow> string" where
  "topoSignature nodes =
     join '','' (sort (map gn_id nodes)) @ ''||'' @
     join '','' (sort (concat (map (\<lambda>n. map (edge_sig n) (edges_of n)) nodes)))"

definition presentationSignature :: "gnode list \<Rightarrow> string" where
  "presentationSignature nodes =
     join '','' (sort (map (\<lambda>n. gn_id n @ '':'' @ gn_status n @ '':'' @ or_else (gn_kind n) ''service'' @ '':'' @
       gn_serviceName n @ '':'' @ or_else (gn_version n) []) nodes)) @ ''||'' @
     join '','' (sort (concat (map (\<lambda>n. map (\<lambda>e. edge_sig n e @ '':'' @ or_else (ge_edgeState e) [] @ '':'' @
       (if ge_refused e = Some True then ''refused'' else []) @ '':'' @ or_else (ge_label e) []) (edges_of n)) nodes)))"

section \<open>Sides\<close>

datatype side = DependsOn | UsedBy

fun side_str :: "side \<Rightarrow> string" where
  "side_str DependsOn = ''depends-on''"
| "side_str UsedBy = ''used-by''"

definition add_link :: "string \<Rightarrow> string \<Rightarrow> string list dict \<Rightarrow> string list dict" where
  "add_link a b adj = AList.update a (nullish (map_of adj a) [] @ [b]) adj"

text \<open>The first pass: adjacency in both directions, and what the focus points at.\<close>

definition link_edge ::
  "string \<Rightarrow> string \<Rightarrow> string list dict \<times> side dict \<Rightarrow> string \<Rightarrow> string list dict \<times> side dict" where
  "link_edge focusId i st t =
     (case st of (adj, out) \<Rightarrow>
        (add_link t i (add_link i t adj),
         if i = focusId \<and> t \<noteq> focusId then AList.update t DependsOn out else out))"

definition link_all :: "gnode list \<Rightarrow> string \<Rightarrow> string list dict \<times> side dict" where
  "link_all nodes focusId =
     foldl (\<lambda>st n. foldl (link_edge focusId (gn_id n)) st (targets_of n)) ([], []) nodes"

definition mark_users :: "gnode list \<Rightarrow> string \<Rightarrow> side dict \<Rightarrow> side dict" where
  "mark_users nodes focusId out =
     foldl (\<lambda>out n.
       if gn_id n \<noteq> focusId \<and> map_of out (gn_id n) = None \<and> focusId \<in> set (targets_of n)
       then AList.update (gn_id n) UsedBy out else out) out nodes"

definition side_visit ::
  "string \<Rightarrow> side \<Rightarrow> side dict \<times> string list \<Rightarrow> string \<Rightarrow> side dict \<times> string list" where
  "side_visit focusId s st m =
     (case st of (out, queue) \<Rightarrow>
        if m \<noteq> focusId \<and> map_of out m = None then (AList.update m s out, queue @ [m]) else (out, queue))"

definition adj_ids :: "string list dict \<Rightarrow> string set" where
  "adj_ids adj = \<Union> (set ` snd ` set adj)"

lemma side_visit_fold:
  "set ms \<subseteq> U \<Longrightarrow> finite U \<Longrightarrow> foldl (side_visit f s) (out, q) ms = (out', q') \<Longrightarrow>
    card (U - set (keys_of out')) < card (U - set (keys_of out)) \<or> out' = out \<and> q' = q"
proof (induction ms arbitrary: out q)
  case Nil
  then show ?case by simp
next
  case (Cons m ms)
  show ?case
  proof (cases "m \<noteq> f \<and> map_of out m = None")
    case True
    then have "side_visit f s (out, q) m = (AList.update m s out, q @ [m])" by (simp add: side_visit_def)
    then have st: "foldl (side_visit f s) (AList.update m s out, q @ [m]) ms = (out', q')"
      using Cons.prems(3) by simp
    have m: "m \<in> U" "m \<notin> set (keys_of out)" using Cons.prems(1) True by (auto simp: map_of_eq_None_iff)
    have sub: "U - set (keys_of (AList.update m s out)) \<subset> U - set (keys_of out)"
      using m by (auto simp: keys_of_update)
    have "card (U - set (keys_of (AList.update m s out))) < card (U - set (keys_of out))"
      using Cons.prems(2) sub by (intro psubset_card_mono) auto
    moreover have "card (U - set (keys_of out')) \<le> card (U - set (keys_of (AList.update m s out)))"
      using Cons.IH[OF _ Cons.prems(2) st] Cons.prems(1) by fastforce
    ultimately show ?thesis by linarith
  next
    case False
    then have "side_visit f s (out, q) m = (out, q)" by (auto simp: side_visit_def)
    then show ?thesis using Cons by simp
  qed
qed

function sides_bfs :: "string list dict \<Rightarrow> string \<Rightarrow> side dict \<Rightarrow> string list \<Rightarrow> side dict" where
  "sides_bfs adj focusId out [] = out"
| "sides_bfs adj focusId out (i # queue) =
     (case foldl (side_visit focusId (nullish (map_of out i) UsedBy)) (out, queue) (nullish (map_of adj i) []) of
        (out', queue') \<Rightarrow> sides_bfs adj focusId out' queue')"
  by pat_completeness auto
termination
proof (relation "measures [\<lambda>(adj, f, out, q). card (adj_ids adj - set (keys_of out)), \<lambda>(adj, f, out, q). length q]", goal_cases)
  case (2 adj f out i q out' q')
  have "set (nullish (map_of adj i) []) \<subseteq> adj_ids adj"
    by (cases "map_of adj i") (auto simp: adj_ids_def dest!: map_of_SomeD)
  moreover have "finite (adj_ids adj)" by (simp add: adj_ids_def)
  ultimately have "card (adj_ids adj - set (keys_of out')) < card (adj_ids adj - set (keys_of out)) \<or> out' = out \<and> q' = q"
    using 2 by (intro side_visit_fold) simp_all
  then show ?case by auto
qed auto

definition mark_rest :: "gnode list \<Rightarrow> string \<Rightarrow> side dict \<Rightarrow> side dict" where
  "mark_rest nodes focusId out =
     foldl (\<lambda>out n.
       if gn_id n \<noteq> focusId \<and> map_of out (gn_id n) = None then AList.update (gn_id n) UsedBy out else out) out nodes"

definition sidesOf :: "gnode list \<Rightarrow> string \<Rightarrow> side dict" where
  "sidesOf nodes focusId =
     (case link_all nodes focusId of (adj, out0) \<Rightarrow>
        let out1 = mark_users nodes focusId out0
        in mark_rest nodes focusId (sides_bfs adj focusId out1 (keys_of out1)))"

section \<open>Lanes and groups\<close>

definition GROUP_THRESHOLD :: nat where "GROUP_THRESHOLD = 40"
definition GROUP_PREFIX :: string where "GROUP_PREFIX = ''group:''"
definition LANE_PREFIX :: string where "LANE_PREFIX = ''lane:''"
definition MAX_GROUPS_PER_SIDE :: nat where "MAX_GROUPS_PER_SIDE = 7"
definition LANE_CAP :: nat where "LANE_CAP = 8"
definition MORE_SUFFIX :: string where "MORE_SUFFIX = '':+''"
definition OTHER_TEAMS :: string where "OTHER_TEAMS = ''Other teams''"

fun OTHER_TEAMS_BY_SIDE :: "side \<Rightarrow> string" where
  "OTHER_TEAMS_BY_SIDE DependsOn = ''Other teams that it depends on''"
| "OTHER_TEAMS_BY_SIDE UsedBy = ''Other teams that depend on it''"

record grouping =
  gr_open :: "string list"
  gr_all :: bool
  gr_threshold :: nat

record lane_group =
  lg_id :: string
  lg_owner :: string
  lg_side :: side
  lg_count :: nat

record grouped_graph =
  gg_nodes :: "gnode list"
  gg_groups :: "lane_group list"
  gg_folded :: int
  gg_more :: "lane_group list"

definition ownerOf :: "gnode \<Rightarrow> string" where
  "ownerOf n = or_else (gn_owner n) ''No owner''"

definition STATE_RANK :: "nat dict" where
  "STATE_RANK = [(''drift'', 4), (''expected-not-observed'', 3), (''insufficient'', 2), (''matched'', 1)]"

definition TONE_RANK :: "nat dict" where
  "TONE_RANK = [(''err'', 2), (''warn'', 1)]"

definition STATE_WORDS :: "string dict" where
  "STATE_WORDS =
     [(''drift'', ''observed, not expected''), (''expected-not-observed'', ''expected, not observed''),
      (''insufficient'', ''insufficient evidence''), (''matched'', ''matched'')]"

definition state_rank :: "string \<Rightarrow> nat" where
  "state_rank s = nullish (map_of STATE_RANK s) 0"

definition side_sign :: "side option \<Rightarrow> int" where
  "side_sign s = (if s = Some DependsOn then - 1 else 1)"

definition is_far :: "gnode \<Rightarrow> bool" where
  "is_far n = (2 \<le> nullish (gn_depth n) 1)"

text \<open>A node with its position, which stands for the object's identity.\<close>

type_synonym inode = "nat \<times> gnode"

definition group_id :: "side dict \<Rightarrow> gnode \<Rightarrow> string" where
  "group_id sides n =
     GROUP_PREFIX @ (case map_of sides (gn_id n) of Some s \<Rightarrow> side_str s | None \<Rightarrow> ''undefined'') @ '':'' @ ownerOf n"

text \<open>Whether a node is a candidate for folding.\<close>

definition folds :: "nat \<Rightarrow> bool \<Rightarrow> bool \<Rightarrow> inode \<Rightarrow> bool" where
  "folds fi fold_all fold_near x = (fst x \<noteq> fi \<and> fold_all \<and> (is_far (snd x) \<or> fold_near))"

definition add_member :: "side dict \<Rightarrow> string list \<Rightarrow> gnode list dict \<Rightarrow> gnode \<Rightarrow> gnode list dict" where
  "add_member sides opened members n =
     (let i = group_id sides n in
      if i \<in> set opened then members else AList.update i (nullish (map_of members i) [] @ [n]) members)"

record budget =
  bu_members :: "gnode list dict"
  bu_names :: "string dict"
  bu_perSide :: "(side \<times> nat) list"

text \<open>One team of the budget loop: it keeps its group, or joins its side's shared one.\<close>

definition side_of_first :: "side dict \<Rightarrow> gnode list \<Rightarrow> side" where
  "side_of_first sides ms = nullish (map_of sides (gn_id (hd ms))) UsedBy"

definition budget_step :: "side dict \<Rightarrow> string list \<Rightarrow> budget \<Rightarrow> string \<times> gnode list \<Rightarrow> budget" where
  "budget_step sides opened b e =
     (case e of (i, ms) \<Rightarrow>
        let s = side_of_first sides ms; n = nullish (map_of (bu_perSide b) s) 0 in
        if 2 \<le> length ms \<and> n < MAX_GROUPS_PER_SIDE then b\<lparr> bu_perSide := AList.update s (Suc n) (bu_perSide b) \<rparr>
        else
          let members = AList.delete i (bu_members b); other = GROUP_PREFIX @ side_str s @ '':*'' in
          if other \<in> set opened then b\<lparr> bu_members := members \<rparr>
          else b\<lparr> bu_names := AList.update other (OTHER_TEAMS_BY_SIDE s) (bu_names b),
                  bu_members := AList.update other (nullish (map_of members other) [] @ ms) members \<rparr>)"

definition by_size :: "(string \<Rightarrow> string \<Rightarrow> int) \<Rightarrow> gnode list dict \<Rightarrow> (string \<times> gnode list) list" where
  "by_size lc members =
     sort_by (then_cmp (\<lambda>a b. int (length (snd b)) - int (length (snd a))) (\<lambda>a b. lc (fst a) (fst b)))
       (filter (\<lambda>e. list_all is_far (snd e)) members)"

definition group_node :: "string dict \<Rightarrow> side dict \<Rightarrow> string \<times> gnode list \<Rightarrow> lane_group \<times> gnode" where
  "group_node names sides e =
     (case e of (i, ms) \<Rightarrow>
        let s = side_of_first sides ms;
            depth = foldl min (nullish (gn_depth (hd ms)) 1) (map (\<lambda>m. nullish (gn_depth m) 1) ms);
            owner = nullish (map_of names i) (ownerOf (hd ms))
        in (\<lparr> lg_id = i, lg_owner = owner, lg_side = s, lg_count = length ms \<rparr>,
            (plain_node i (if endsWith i '':*'' then OTHER_TEAMS else owner) ''group'')
              \<lparr> gn_version := Some (formatCount (length ms) @ '' '' @ (if length ms = 1 then ''entity'' else ''entities'')),
                gn_kind := Some ''service'', gn_owner := Some owner, gn_depth := Some depth,
                gn_group := Some (length ms), gn_side := Some (side_sign (Some s)), gn_edges := Some [],
                gn_parent := (if depth \<le> 1 then Some (LANE_PREFIX @ side_str s) else None) \<rparr>))"

text \<open>A direct neighbor alone in its team stays itself.\<close>

definition forms_group :: "string \<times> gnode list \<Rightarrow> bool" where
  "forms_group e = (\<not> (length (snd e) < 2 \<and> \<not> is_far (hd (snd e))))"

definition set_rep :: "string \<Rightarrow> string dict \<Rightarrow> gnode list \<Rightarrow> string dict" where
  "set_rep i rep ms = foldl (\<lambda>r m. AList.update (gn_id m) i r) rep ms"

definition attention :: "gnode \<Rightarrow> gnode \<Rightarrow> nat" where
  "attention focus n =
     (foldl max 0 (map (\<lambda>e. if ge_refused e = Some True then 5 else state_rank (or_else (ge_edgeState e) []))
        (filter (\<lambda>e. ge_targetId e = gn_id n) (edges_of focus) @
         filter (\<lambda>e. ge_targetId e = gn_id focus) (edges_of n)))) * 10 +
     nullish (map_of TONE_RANK (statusTone (Some (gn_status n)))) 0"

text \<open>One side's cap: the direct neighbors drawn by themselves, and those held back.\<close>

definition near_drawn :: "inode list \<Rightarrow> nat \<Rightarrow> side dict \<Rightarrow> string dict \<Rightarrow> side \<Rightarrow> gnode list" where
  "near_drawn nodes fi sides rep s =
     map snd (filter (\<lambda>x. fst x \<noteq> fi \<and> \<not> is_far (snd x) \<and> map_of rep (gn_id (snd x)) = None \<and>
       map_of sides (gn_id (snd x)) = Some s) nodes)"

definition cap_lane ::
  "(string \<Rightarrow> string \<Rightarrow> int) \<Rightarrow> inode list \<Rightarrow> inode \<Rightarrow> side dict \<Rightarrow> string list \<Rightarrow> gnode list \<Rightarrow>
   string dict \<times> lane_group list \<Rightarrow> side \<Rightarrow> string dict \<times> lane_group list" where
  "cap_lane lc nodes focus sides opened groupNodes st s =
     (case st of (rep, held) \<Rightarrow>
        let i = GROUP_PREFIX @ side_str s @ MORE_SUFFIX in
        if i \<in> set opened then st
        else
          let near = near_drawn nodes (fst focus) sides rep s;
              room = LANE_CAP - length (filter (\<lambda>g. gn_parent g = Some (LANE_PREFIX @ side_str s)) groupNodes)
          in if int (length near) - int room < 2 then st
             else
               let hidden = drop room
                 (sort_by (then_cmp (\<lambda>a b. int (attention (snd focus) b) - int (attention (snd focus) a))
                    (\<lambda>a b. lc (gn_id a) (gn_id b))) near)
               in (set_rep i rep hidden,
                   held @ [\<lparr> lg_id = i, lg_owner = ''+'' @ show_nat (length hidden) @ '' more'', lg_side = s,
                             lg_count = length hidden \<rparr>]))"

definition lane_nodes :: "inode list \<Rightarrow> nat \<Rightarrow> side dict \<Rightarrow> gnode list" where
  "lane_nodes nodes fi sides =
     map (\<lambda>s.
       (plain_node (LANE_PREFIX @ side_str s)
          ((if s = DependsOn then ''Depends on'' else ''Used by'') @ '' ('' @
           show_nat (length (filter (\<lambda>x. fst x \<noteq> fi \<and> \<not> is_far (snd x) \<and> map_of sides (gn_id (snd x)) = Some s) nodes)) @ '')'')
          ''lane'')
         \<lparr> gn_kind := Some ''service'', gn_lane := Some True, gn_side := Some (side_sign (Some s)), gn_edges := Some [] \<rparr>)
     (filter (\<lambda>s. s \<in> snd ` set sides) [DependsOn, UsedBy])"

definition keep_node :: "nat \<Rightarrow> side dict \<Rightarrow> inode \<Rightarrow> gnode" where
  "keep_node fi sides x =
     (case x of (i, n) \<Rightarrow>
        if i = fi then n\<lparr> gn_side := Some 0, gn_edges := Some [] \<rparr>
        else
          let s = map_of sides (gn_id n) in
          n\<lparr> gn_side := Some (side_sign s), gn_edges := Some [],
             gn_parent := (if is_far n then gn_parent n
               else Some (LANE_PREFIX @ (case s of Some s' \<Rightarrow> side_str s' | None \<Rightarrow> ''undefined''))) \<rparr>)"

record tally =
  ta_count :: nat
  ta_worst :: string
  ta_worstCount :: nat
  ta_runs :: bool
  ta_refused :: nat

definition tally_edge :: "tally dict \<Rightarrow> string \<Rightarrow> gedge \<Rightarrow> tally dict" where
  "tally_edge agg g e =
     (let a = nullish (map_of agg g) \<lparr> ta_count = 0, ta_worst = [], ta_worstCount = 0, ta_runs = True, ta_refused = 0 \<rparr>;
          st = or_else (ge_edgeState e) [];
          a1 = a\<lparr> ta_count := Suc (ta_count a),
                  ta_refused := (if ge_refused e = Some True then Suc (ta_refused a) else ta_refused a),
                  ta_runs := (ta_runs a \<and> ge_type e = Some ''runs'') \<rparr>;
          a2 = (if state_rank (ta_worst a1) < state_rank st then a1\<lparr> ta_worst := st, ta_worstCount := 1 \<rparr>
                else if st \<noteq> [] \<and> st = ta_worst a1 then a1\<lparr> ta_worstCount := Suc (ta_worstCount a1) \<rparr>
                else a1)
      in AList.update g a2 agg)"

text \<open>One relationship: kept between two drawn entities, or counted into the groups it touches.\<close>

definition route_edge :: "string dict \<Rightarrow> string \<Rightarrow> gnode list \<times> tally dict \<Rightarrow> gedge \<Rightarrow> gnode list \<times> tally dict" where
  "route_edge rep i st e =
     (case st of (kept, agg) \<Rightarrow>
        let from = map_of rep i; to = map_of rep (ge_targetId e) in
        if from = None \<and> to = None then
          (if ge_targetId e \<in> gn_id ` set kept then push_edge i e kept else kept, agg)
        else if from = to then st
        else
          let agg1 = (case from of Some g \<Rightarrow> tally_edge agg g e | None \<Rightarrow> agg);
              agg2 = (case to of Some g \<Rightarrow> tally_edge agg1 g e | None \<Rightarrow> agg1)
          in (kept, agg2))"

definition group_edge :: "tally \<Rightarrow> string \<Rightarrow> gedge" where
  "group_edge a target =
     (plain_edge target)
       \<lparr> ge_type := Some (if ta_runs a then ''runs'' else ''dependency''),
         ge_edgeState := (if ta_worst a \<noteq> [] then Some (ta_worst a) else None),
         ge_refused := (if 0 < ta_refused a then Some True else None),
         ge_label := Some
           (if 0 < ta_refused a then ''refused ('' @ formatCount (ta_refused a) @ '')''
            else if ta_worst a \<noteq> [] then
              nullish (map_of STATE_WORDS (ta_worst a)) ''undefined'' @ '' ('' @ formatCount (ta_worstCount a) @ '')''
            else formatCount (ta_count a) @ '' '' @ (if ta_count a = 1 then ''link'' else ''links'')) \<rparr>"

definition attach_group ::
  "tally dict \<Rightarrow> string \<Rightarrow> gnode list \<times> gnode list \<times> gnode list \<Rightarrow> gnode \<Rightarrow> gnode list \<times> gnode list \<times> gnode list" where
  "attach_group agg focusId st g =
     (case st of (lanes, kept, groups) \<Rightarrow>
        case map_of agg (gn_id g) of
          None \<Rightarrow> (lanes, kept, groups @ [g])
        | Some a \<Rightarrow>
            let left = (gn_side g = Some (- 1));
                near = (nullish (gn_depth g) 1 \<le> 1);
                inner = (if near then focusId else LANE_PREFIX @ (if left then ''depends-on'' else ''used-by''));
                edge = group_edge a (if left then gn_id g else inner)
            in if left then
                 (if inner = focusId then (lanes, push_edge focusId edge kept, groups @ [g])
                  else (push_first inner edge lanes, kept, groups @ [g]))
               else (lanes, kept, groups @ [g\<lparr> gn_edges := Some (edges_of g @ [edge]) \<rparr>]))"

text \<open>The groups and the entity-to-group map, before any lane is capped.\<close>

definition team_members ::
  "(string \<Rightarrow> string \<Rightarrow> int) \<Rightarrow> inode list \<Rightarrow> nat \<Rightarrow> side dict \<Rightarrow> grouping \<Rightarrow> budget" where
  "team_members lc nodes fi sides opts =
     (let fold_all = (\<not> gr_all opts \<and> gr_threshold opts < length nodes);
          fold_near = (fold_all \<and>
            gr_threshold opts < length (filter (\<lambda>x. fst x \<noteq> fi \<and> \<not> is_far (snd x)) nodes));
          members = foldl (add_member sides (gr_open opts)) [] (map snd (filter (folds fi fold_all fold_near) nodes))
      in foldl (budget_step sides (gr_open opts)) \<lparr> bu_members = members, bu_names = [], bu_perSide = [] \<rparr> (by_size lc members))"

definition laneGraph :: "(string \<Rightarrow> string \<Rightarrow> int) \<Rightarrow> gnode list \<Rightarrow> grouping \<Rightarrow> grouped_graph" where
  "laneGraph lc gd opts =
     (let nodes = enumerate 0 gd in
      case find (\<lambda>x. gn_depth (snd x) = Some 0) nodes of
        None \<Rightarrow> \<lparr> gg_nodes = gd, gg_groups = [], gg_folded = 0, gg_more = [] \<rparr>
      | Some focus \<Rightarrow>
          let fi = fst focus;
              focusId = gn_id (snd focus);
              sides = sidesOf gd focusId;
              b = team_members lc nodes fi sides opts;
              teams = filter forms_group (bu_members b);
              rep0 = foldl (\<lambda>r e. set_rep (fst e) r (snd e)) [] teams;
              groups = map (fst \<circ> group_node (bu_names b) sides) teams;
              groupNodes = map (snd \<circ> group_node (bu_names b) sides) teams
          in case foldl (cap_lane lc nodes focus sides (gr_open opts) groupNodes) (rep0, []) [DependsOn, UsedBy] of
               (rep, held) \<Rightarrow>
                 let kept0 = map (keep_node fi sides) (filter (\<lambda>x. map_of rep (gn_id (snd x)) = None) nodes)
                 in case foldl (\<lambda>st n. foldl (route_edge rep (gn_id n)) st (edges_of n)) (kept0, []) gd of
                      (kept1, agg) \<Rightarrow>
                        case foldl (attach_group agg focusId) (lane_nodes nodes fi sides, kept1, []) groupNodes of
                          (lanes, kept, gnodes) \<Rightarrow>
                            let capped = sum_list (map lg_count held)
                            in \<lparr> gg_nodes = lanes @ kept @ gnodes,
                                 gg_groups =
                                   sort_by (then_cmp (\<lambda>a b. int (lg_count b) - int (lg_count a))
                                     (then_cmp (\<lambda>a b. lc (lg_owner a) (lg_owner b))
                                       (\<lambda>a b. lc (side_str (lg_side a)) (side_str (lg_side b))))) groups,
                                 gg_folded = int (length rep) - int capped,
                                 gg_more = held \<rparr>)"

end
