(* ===== verification/NeighborhoodFacts.thy ===== *)
theory NeighborhoodFacts
  imports Neighborhood
begin

text \<open>
  What the neighborhood adapter promises: it projects the backend's answer and invents nothing,
  every entity sits on one side of the focus, and the lane graph neither loses an entity nor
  shows one twice.
\<close>

section \<open>The projection is exact\<close>

lemma push_first_map:
  "distinct (map gn_id ns) \<Longrightarrow>
    push_first i e ns = map (\<lambda>n. if gn_id n = i then n\<lparr> gn_edges := Some (edges_of n @ [e]) \<rparr> else n) ns"
proof (induction ns)
  case (Cons n ns)
  then have n: "gn_id n \<notin> gn_id ` set ns" and d: "distinct (map gn_id ns)" by simp_all
  show ?case
  proof (cases "gn_id n = i")
    case True
    have "map (\<lambda>n. if gn_id n = i then n\<lparr> gn_edges := Some (edges_of n @ [e]) \<rparr> else n) ns = ns"
      using n True by (intro map_idI) (metis image_eqI)
    with True show ?thesis by simp
  next
    case False
    with Cons.IH[OF d] show ?thesis by simp
  qed
qed simp

lemma push_edge_map:
  "distinct (map gn_id ns) \<Longrightarrow>
    push_edge i e ns = map (\<lambda>n. if gn_id n = i then n\<lparr> gn_edges := Some (edges_of n @ [e]) \<rparr> else n) ns"
  using push_first_map[of "rev ns" i e] by (simp add: push_edge_def flip: rev_map)

lemma push_first_ids [simp]: "map gn_id (push_first i e ns) = map gn_id ns"
  by (induction ns) auto

lemma push_edge_ids [simp]: "map gn_id (push_edge i e ns) = map gn_id ns"
  by (simp add: push_edge_def flip: rev_map)

definition nb_key :: "nb_node \<Rightarrow> string" where
  "nb_key n = nr_key (nn_ref n)"

lemma project_id [simp]: "gn_id (project_node n) = nb_key n" "edges_of (project_node n) = []"
  by (simp_all add: project_node_def plain_node_def nb_key_def Let_def edges_of_def)

text \<open>The relationships of the answer that leave an entity and end at a returned one.\<close>

definition edges_from :: "nb_node list \<Rightarrow> nb_edge list \<Rightarrow> string \<Rightarrow> nb_edge list" where
  "edges_from nodes edges k = filter (\<lambda>e. ne_from e = k \<and> ne_to e \<in> nb_key ` set nodes) edges"

text \<open>C21: The drawn graph is exactly the backend's answer: one node per returned node, in order, and
  on each node exactly the returned relationships that leave it and end at a returned node, in
  order and with their reconciliation state -- nothing invented, nothing inferred, nothing
  dropped but an edge to an entity that was not returned.\<close>

theorem neighborhoodToGraph_exact:
  assumes "distinct (map nb_key nodes)"
  shows "neighborhoodToGraph nodes edges =
    map (\<lambda>n. (project_node n)\<lparr> gn_edges := Some (map project_edge (edges_from nodes edges (nb_key n))) \<rparr>) nodes"
proof (induction edges rule: rev_induct)
  case Nil
  have "n\<lparr> gn_edges := Some [] \<rparr> = n" if "gn_edges n = Some []" for n :: gnode using that by simp
  then have "(project_node n)\<lparr> gn_edges := Some [] \<rparr> = project_node n" for n
    by (simp add: project_node_def plain_node_def Let_def)
  then show ?case by (simp add: neighborhoodToGraph_def edges_from_def)
next
  case (snoc e edges)
  let ?g = "\<lambda>n. (project_node n)\<lparr> gn_edges := Some (map project_edge (edges_from nodes edges (nb_key n))) \<rparr>"
  have ids: "gn_id (?g n) = nb_key n" "edges_of (?g n) = map project_edge (edges_from nodes edges (nb_key n))" for n
    using project_id[of n] by (simp_all add: edges_of_def)
  have "gn_id ` set (map ?g nodes) = nb_key ` set nodes" using ids by (simp add: image_image)
  moreover have dist: "distinct (map gn_id (map ?g nodes))" using assms ids by (simp add: comp_def)
  moreover have "neighborhoodToGraph nodes (edges @ [e]) = project_step (map ?g nodes) e"
    using snoc by (simp add: neighborhoodToGraph_def)
  ultimately have step: "neighborhoodToGraph nodes (edges @ [e]) =
      (if ne_from e \<notin> nb_key ` set nodes \<or> ne_to e \<notin> nb_key ` set nodes then map ?g nodes
       else map (\<lambda>n. if gn_id n = ne_from e then n\<lparr> gn_edges := Some (edges_of n @ [project_edge e]) \<rparr> else n) (map ?g nodes))"
    using push_edge_map[OF dist] by (simp add: project_step_def)
  have grow: "edges_from nodes (edges @ [e]) (nb_key n) = edges_from nodes edges (nb_key n) @
      (if ne_from e = nb_key n \<and> ne_to e \<in> nb_key ` set nodes then [e] else [])" for n
    by (simp add: edges_from_def)
  show ?case
    unfolding step map_map
    by (cases "ne_to e \<in> nb_key ` set nodes") (auto simp: grow ids edges_of_def)
qed

theorem neighborhoodToGraph_exact_witness:
  "let r = (\<lambda>k. \<lparr> nr_kind = ''service'', nr_key = k, nr_label = None, nr_version = None, nr_status = None \<rparr>);
       n = (\<lambda>k. \<lparr> nn_ref = r k, nn_status = None, nn_depth = None, nn_focus = False, nn_owner = None \<rparr>);
       e = (\<lambda>a b. \<lparr> ne_from = a, ne_to = b, ne_relation = ''depends'', ne_difference = Some ''matched'',
              ne_corroboration = None, ne_guarantee = None \<rparr>)
   in map targets_of (neighborhoodToGraph [n ''a'', n ''b''] [e ''a'' ''b'', e ''a'' ''gone'']) = [[''b''], []]"
  unfolding Let_def
  by (subst neighborhoodToGraph_exact)
    (simp_all add: nb_key_def edges_from_def targets_of_def edges_of_def project_edge_def plain_edge_def Let_def)

section \<open>Sides\<close>

definition leads_to :: "gnode list \<Rightarrow> string \<Rightarrow> string \<Rightarrow> bool" where
  "leads_to nodes a b = (\<exists>n \<in> set nodes. gn_id n = a \<and> b \<in> set (targets_of n))"

definition adj_of :: "string list dict \<Rightarrow> string \<Rightarrow> string set" where
  "adj_of adj a = set (nullish (map_of adj a) [])"

lemma adj_add_link: "adj_of (add_link a b adj) x = adj_of adj x \<union> (if x = a then {b} else {})"
  by (auto simp: adj_of_def add_link_def AList.update_conv')

lemma link_edge_facts:
  "adj_of (fst (link_edge f i st t)) x =
     adj_of (fst st) x \<union> (if x = i then {t} else {}) \<union> (if x = t then {i} else {})"
  "map_of (snd (link_edge f i st t)) x =
     (if i = f \<and> t \<noteq> f \<and> x = t then Some DependsOn else map_of (snd st) x)"
  by (cases st; auto simp: link_edge_def adj_add_link AList.update_conv')+

lemma link_edges_facts:
  "adj_of (fst (foldl (link_edge f i) st ts)) x =
     adj_of (fst st) x \<union> (if x = i then set ts else {}) \<union> (if x \<in> set ts then {i} else {})"
  "map_of (snd (foldl (link_edge f i) st ts)) x =
     (if i = f \<and> x \<noteq> f \<and> x \<in> set ts then Some DependsOn else map_of (snd st) x)"
proof (induction ts arbitrary: st)
  case (Cons t ts)
  {
    case 1
    show ?case using Cons(1)[of "link_edge f i st t"] by (auto simp: link_edge_facts)
  next
    case 2
    show ?case using Cons(2)[of "link_edge f i st t"] by (auto simp: link_edge_facts)
  }
qed simp_all

lemma link_all_fold:
  "adj_of (fst (foldl (\<lambda>st n. foldl (link_edge f (gn_id n)) st (targets_of n)) st nodes)) x =
     adj_of (fst st) x \<union> {y. leads_to nodes x y \<or> leads_to nodes y x}"
  "map_of (snd (foldl (\<lambda>st n. foldl (link_edge f (gn_id n)) st (targets_of n)) st nodes)) x =
     (if x \<noteq> f \<and> leads_to nodes f x then Some DependsOn else map_of (snd st) x)"
proof (induction nodes arbitrary: st)
  case Nil
  {
    case 1
    show ?case by (simp add: leads_to_def)
  next
    case 2
    show ?case by (simp add: leads_to_def)
  }
next
  case (Cons n nodes)
  have lt: "leads_to (n # nodes) a b \<longleftrightarrow> gn_id n = a \<and> b \<in> set (targets_of n) \<or> leads_to nodes a b" for a b
    by (auto simp: leads_to_def)
  {
    case 1
    show ?case
      using Cons(1)[of "foldl (link_edge f (gn_id n)) st (targets_of n)"]
      by (auto simp: link_edges_facts lt)
  next
    case 2
    show ?case
      using Cons(2)[of "foldl (link_edge f (gn_id n)) st (targets_of n)"]
      by (auto simp: link_edges_facts lt)
  }
qed

lemma mark_users_get:
  "map_of (mark_users nodes f out) x =
     (if map_of out x = None \<and> x \<noteq> f \<and> leads_to nodes x f then Some UsedBy else map_of out x)"
  unfolding mark_users_def
proof (induction nodes arbitrary: out)
  case Nil
  then show ?case by (simp add: leads_to_def)
next
  case (Cons n nodes)
  have lt: "leads_to (n # nodes) x f \<longleftrightarrow> gn_id n = x \<and> f \<in> set (targets_of n) \<or> leads_to nodes x f"
    by (auto simp: leads_to_def)
  show ?case unfolding foldl_Cons Cons.IH lt by (auto simp: AList.update_conv')
qed

lemma mark_rest_get:
  "map_of (mark_rest nodes f out) x =
     (if map_of out x = None \<and> x \<noteq> f \<and> x \<in> gn_id ` set nodes then Some UsedBy else map_of out x)"
  unfolding mark_rest_def
proof (induction nodes arbitrary: out)
  case (Cons n nodes)
  show ?case unfolding foldl_Cons Cons.IH by (auto simp: AList.update_conv')
qed simp

text \<open>Two entities joined by a relationship in either direction, away from the focus.\<close>

definition joined :: "gnode list \<Rightarrow> string \<Rightarrow> string \<Rightarrow> string \<Rightarrow> bool" where
  "joined nodes f a b = (b \<noteq> f \<and> (leads_to nodes a b \<or> leads_to nodes b a))"

text \<open>On the depends-on side: reached from something the focus points at.\<close>

definition via_dependency :: "gnode list \<Rightarrow> string \<Rightarrow> string \<Rightarrow> bool" where
  "via_dependency nodes f x = (\<exists>d. d \<noteq> f \<and> leads_to nodes f d \<and> (joined nodes f)\<^sup>*\<^sup>* d x)"

definition sides_ok :: "gnode list \<Rightarrow> string \<Rightarrow> side dict \<Rightarrow> bool" where
  "sides_ok nodes f out = (map_of out f = None \<and> (\<forall>x. map_of out x = Some DependsOn \<longrightarrow> via_dependency nodes f x))"

lemma side_visit_ok:
  assumes "sides_ok nodes f out" "s = DependsOn \<longrightarrow> via_dependency nodes f i"
    and "\<forall>m \<in> set ms. leads_to nodes i m \<or> leads_to nodes m i"
    and "foldl (side_visit f s) (out, q) ms = (out', q')" "set q \<subseteq> set (keys_of out)"
  shows "sides_ok nodes f out' \<and> set q' \<subseteq> set (keys_of out') \<and> (\<forall>x t. map_of out x = Some t \<longrightarrow> map_of out' x = Some t)"
  using assms
proof (induction ms arbitrary: out q)
  case Nil
  then show ?case by simp
next
  case (Cons m ms)
  show ?case
  proof (cases "m \<noteq> f \<and> map_of out m = None")
    case True
    then have step: "side_visit f s (out, q) m = (AList.update m s out, q @ [m])" by (simp add: side_visit_def)
    have via: "s = DependsOn \<longrightarrow> via_dependency nodes f m"
    proof
      assume "s = DependsOn"
      then obtain d where "d \<noteq> f" "leads_to nodes f d" "(joined nodes f)\<^sup>*\<^sup>* d i"
        using Cons.prems(2) by (auto simp: via_dependency_def)
      moreover have "joined nodes f i m" using Cons.prems(3) True by (auto simp: joined_def)
      ultimately show "via_dependency nodes f m"
        unfolding via_dependency_def by (meson rtranclp.rtrancl_into_rtrancl)
    qed
    have ok: "sides_ok nodes f (AList.update m s out)"
      using Cons.prems(1) True via by (auto simp: sides_ok_def AList.update_conv')
    have q: "set (q @ [m]) \<subseteq> set (keys_of (AList.update m s out))"
      using Cons.prems(5) by (auto simp: keys_of_update)
    have f: "foldl (side_visit f s) (AList.update m s out, q @ [m]) ms = (out', q')"
      using Cons.prems(4) step by simp
    have "\<forall>m \<in> set ms. leads_to nodes i m \<or> leads_to nodes m i" using Cons.prems(3) by simp
    note ih = Cons.IH[OF ok Cons.prems(2) this f q]
    have "map_of out' x = Some t" if "map_of out x = Some t" for x t
    proof -
      have "map_of (AList.update m s out) x = Some t" using that True by (auto simp: AList.update_conv')
      then show ?thesis using ih by blast
    qed
    then show ?thesis using ih by blast
  next
    case False
    then have "side_visit f s (out, q) m = (out, q)" by (auto simp: side_visit_def)
    then show ?thesis using Cons by simp
  qed
qed

lemma sides_bfs_ok:
  assumes "sides_ok nodes f out" "set q \<subseteq> set (keys_of out)"
    and "\<forall>i. adj_of adj i \<subseteq> {y. leads_to nodes i y \<or> leads_to nodes y i}"
  shows "sides_ok nodes f (sides_bfs adj f out q) \<and>
    (\<forall>x t. map_of out x = Some t \<longrightarrow> map_of (sides_bfs adj f out q) x = Some t)"
  using assms
proof (induction adj f out q rule: sides_bfs.induct)
  case (1 adj f out)
  then show ?case by simp
next
  case (2 adj f out i q)
  obtain s where s: "map_of out i = Some s" using 2(3) by (cases "map_of out i") (auto simp: map_of_eq_None_iff)
  obtain out' q' where fold: "foldl (side_visit f s) (out, q) (nullish (map_of adj i) []) = (out', q')"
    by (metis prod.exhaust)
  have via: "s = DependsOn \<longrightarrow> via_dependency nodes f i" using 2(2) s by (auto simp: sides_ok_def)
  have adj: "\<forall>m \<in> set (nullish (map_of adj i) []). leads_to nodes i m \<or> leads_to nodes m i"
    using 2(4) by (auto simp: adj_of_def)
  have q: "set q \<subseteq> set (keys_of out)" using 2(3) by simp
  note v = side_visit_ok[OF 2(2) via adj fold q]
  have eq: "sides_bfs adj f out (i # q) = sides_bfs adj f out' q'" using s fold by simp
  have fold2: "(out', q') = foldl (side_visit f (nullish (map_of out i) UsedBy)) (out, q) (nullish (map_of adj i) [])"
    using s fold by simp
  have "sides_ok nodes f (sides_bfs adj f out' q') \<and>
      (\<forall>x t. map_of out' x = Some t \<longrightarrow> map_of (sides_bfs adj f out' q') x = Some t)"
    using 2(1)[OF fold2] v 2(4) by blast
  then show ?case unfolding eq using v by blast
qed

text \<open>C20: Every entity of a focused graph has exactly one side, and it is the right one: the focus
  has none, every other node has one; what the focus points at is on the depends-on side, a
  direct neighbor that only points at the focus is on the used-by side, and an entity further out
  is on the depends-on side only if relationships lead to it, without passing through the focus,
  from something the focus depends on.\<close>

theorem sidesOf_sound:
  "map_of (sidesOf nodes f) f = None \<and>
   (\<forall>n \<in> set nodes. gn_id n \<noteq> f \<longrightarrow> map_of (sidesOf nodes f) (gn_id n) \<noteq> None) \<and>
   (\<forall>x. x \<noteq> f \<and> leads_to nodes f x \<longrightarrow> map_of (sidesOf nodes f) x = Some DependsOn) \<and>
   (\<forall>x. x \<noteq> f \<and> leads_to nodes x f \<and> \<not> leads_to nodes f x \<longrightarrow> map_of (sidesOf nodes f) x = Some UsedBy) \<and>
   (\<forall>x. map_of (sidesOf nodes f) x = Some DependsOn \<longrightarrow> via_dependency nodes f x)"
proof -
  obtain adj out0 where l: "link_all nodes f = (adj, out0)" by (metis prod.exhaust)
  define out1 where "out1 = mark_users nodes f out0"
  define out2 where "out2 = sides_bfs adj f out1 (keys_of out1)"
  have s: "sidesOf nodes f = mark_rest nodes f out2" by (simp add: sidesOf_def l out1_def out2_def Let_def)
  have adj: "\<forall>i. adj_of adj i \<subseteq> {y. leads_to nodes i y \<or> leads_to nodes y i}"
    using link_all_fold(1)[of f "([], [])" nodes] l by (auto simp: link_all_def adj_of_def)
  have out0: "map_of out0 x = (if x \<noteq> f \<and> leads_to nodes f x then Some DependsOn else None)" for x
    using link_all_fold(2)[of f "([], [])" nodes x] l by (simp add: link_all_def)
  have out1: "map_of out1 x = (if x \<noteq> f \<and> leads_to nodes f x then Some DependsOn
      else if x \<noteq> f \<and> leads_to nodes x f then Some UsedBy else None)" for x
    by (auto simp: out1_def mark_users_get out0)
  have "via_dependency nodes f x" if "x \<noteq> f" "leads_to nodes f x" for x
    using that unfolding via_dependency_def by blast
  then have ok1: "sides_ok nodes f out1" by (auto simp: sides_ok_def out1 split: if_splits)
  have ok2: "sides_ok nodes f out2" and keep: "\<And>x t. map_of out1 x = Some t \<Longrightarrow> map_of out2 x = Some t"
    using sides_bfs_ok[OF ok1 _ adj, of "keys_of out1"] by (auto simp: out2_def)
  have "map_of (sidesOf nodes f) x = Some DependsOn" if "x \<noteq> f" "leads_to nodes f x" for x
    using keep[of x DependsOn] that by (simp add: s mark_rest_get out1)
  moreover have "map_of (sidesOf nodes f) x = Some UsedBy"
    if "x \<noteq> f" "leads_to nodes x f" "\<not> leads_to nodes f x" for x
    using keep[of x UsedBy] that by (simp add: s mark_rest_get out1)
  moreover have "map_of (sidesOf nodes f) f = None" using ok2 by (simp add: s mark_rest_get sides_ok_def)
  moreover have "via_dependency nodes f x" if "map_of (sidesOf nodes f) x = Some DependsOn" for x
    using that ok2 by (auto simp: s mark_rest_get sides_ok_def split: if_splits)
  moreover have "map_of (sidesOf nodes f) (gn_id n) \<noteq> None" if "n \<in> set nodes" "gn_id n \<noteq> f" for n
    using that by (auto simp: s mark_rest_get)
  ultimately show ?thesis by blast
qed

theorem sidesOf_sound_witness:
  "map_of (sidesOf [demo_node ''f'' [''db''], demo_node ''db'' [''disk''], demo_node ''web'' [''f''], demo_node ''disk'' []] ''f'') ''disk'' = Some DependsOn \<and>
   map_of (sidesOf [demo_node ''f'' [''db''], demo_node ''db'' [''disk''], demo_node ''web'' [''f''], demo_node ''disk'' []] ''f'') ''web'' = Some UsedBy"
proof -
  let ?ns = "[demo_node ''f'' [''db''], demo_node ''db'' [''disk''], demo_node ''web'' [''f''], demo_node ''disk'' []]"
  have t: "targets_of (demo_node i ts) = ts" "gn_id (demo_node i ts) = i" for i ts
    by (simp_all add: targets_of_def edges_of_def demo_node_def plain_node_def plain_edge_def comp_def)
  have "leads_to ?ns ''web'' ''f''" "\<not> leads_to ?ns ''f'' ''web''" by (simp_all add: leads_to_def t)
  then have "map_of (sidesOf ?ns ''f'') ''web'' = Some UsedBy" using sidesOf_sound[of ?ns "''f''"] by simp
  moreover have "map_of (sidesOf ?ns ''f'') ''disk'' = Some DependsOn" by code_simp
  ultimately show ?thesis by simp
qed

end
