(* ===== verification/LaneFacts.thy ===== *)
theory LaneFacts
  imports Neighborhood
begin

text \<open>
  The lane graph loses no entity: each is drawn, folded into exactly one team group or held
  back behind exactly one \<open>+N more\<close>, and the counts shown are the counts of what is hidden.
\<close>

section \<open>Lists collected in a map\<close>

lemma mset_collect_update:
  "wf_dict m \<Longrightarrow>
    mset (concat (map snd (AList.update k (nullish (map_of m k) [] @ v) m))) = mset (concat (map snd m)) + mset v"
  by (induction m) (auto simp: wf_dict_def)

lemma mset_collect_delete:
  "wf_dict m \<Longrightarrow> map_of m k = Some v \<Longrightarrow>
    mset (concat (map snd m)) = mset v + mset (concat (map snd (AList.delete k m)))"
proof (induction m)
  case (Cons e m)
  obtain k' v' where e: "e = (k', v')" by (cases e)
  show ?case
  proof (cases "k' = k")
    case True
    then have "k \<notin> fst ` set m" "v' = v" using Cons.prems e by (auto simp: wf_dict_def)
    then have "AList.delete k m = m" by (simp add: delete_id)
    with True e \<open>v' = v\<close> show ?thesis by simp
  next
    case False
    then have "mset (concat (map snd m)) = mset v + mset (concat (map snd (AList.delete k m)))"
      using Cons e by (auto simp: wf_dict_def)
    with False e show ?thesis by simp
  qed
qed simp

lemma mset_collect_filter: "mset (concat (map snd (filter P m))) \<subseteq># mset (concat (map snd m))"
  by (induction m) (auto intro: subset_mset.add_increasing subset_mset.add_mono)

lemma distinct_submset:
  assumes "mset xs \<subseteq># mset ys" "distinct ys"
  shows "distinct xs"
proof -
  have "count (mset xs) a \<le> 1" for a
    using mset_subset_eq_count[OF assms(1), of a] assms(2)
    by (metis distinct_count_atmost_1 le_trans le_zero_eq linorder_linear)
  then show ?thesis unfolding distinct_count_atmost_1
    by (metis count_mset_0_iff le_antisym less_one not_less)
qed

lemma map_submset: "mset xs \<subseteq># mset ys \<Longrightarrow> mset (map f xs) \<subseteq># mset (map f ys)"
  by (simp add: image_mset_subseteq_mono)

section \<open>Teams and their members\<close>

lemma add_member_fold:
  assumes "wf_dict m"
  shows "wf_dict (foldl (add_member sides op) m ns) \<and>
    mset (concat (map snd (foldl (add_member sides op) m ns))) \<subseteq># mset (concat (map snd m)) + mset ns"
  using assms
proof (induction ns arbitrary: m)
  case (Cons n ns)
  let ?m = "add_member sides op m n"
  have wf: "wf_dict ?m" using Cons.prems by (simp add: add_member_def Let_def)
  have "mset (concat (map snd ?m)) \<subseteq># mset (concat (map snd m)) + {#n#}"
    using mset_collect_update[OF Cons.prems, of "group_id sides n" "[n]"] by (simp add: add_member_def Let_def)
  then have "mset (concat (map snd ?m)) + mset ns \<subseteq># (mset (concat (map snd m)) + {#n#}) + mset ns"
    by (rule subset_mset.add_right_mono)
  with Cons.IH[OF wf] show ?case by (auto elim: subset_mset.trans)
qed simp

text \<open>What the budget loop keeps: the groups stay disjoint, and a team still to come is intact.\<close>

definition pending :: "gnode list dict \<Rightarrow> (string \<times> gnode list) list \<Rightarrow> bool" where
  "pending m rest = (distinct (map fst rest) \<and> (\<forall>(i, ms) \<in> set rest. \<exists>x. map_of m i = Some (ms @ x)))"

lemma budget_step_ok:
  assumes wf: "wf_dict (bu_members b)" and pend: "pending (bu_members b) (e # rest)"
  shows "wf_dict (bu_members (budget_step sides op b e)) \<and> pending (bu_members (budget_step sides op b e)) rest \<and>
    mset (concat (map snd (bu_members (budget_step sides op b e)))) \<subseteq># mset (concat (map snd (bu_members b)))"
proof -
  obtain i ms where e: "e = (i, ms)" by (cases e)
  obtain x where i: "map_of (bu_members b) i = Some (ms @ x)" and rest: "pending (bu_members b) rest"
    and new: "i \<notin> fst ` set rest"
    using pend by (auto simp: pending_def e)
  let ?m = "AList.delete i (bu_members b)"
  let ?o = "GROUP_PREFIX @ side_str (side_of_first sides ms) @ '':*''"
  let ?u = "AList.update ?o (nullish (map_of ?m ?o) [] @ ms) ?m"
  have wfm: "wf_dict ?m" using wf by simp
  have get: "\<And>j. j \<noteq> i \<Longrightarrow> map_of ?m j = map_of (bu_members b) j" by (simp add: AList.delete_conv')
  have pm: "pending ?m rest" unfolding pending_def
  proof (intro conjI ballI)
    show "distinct (map fst rest)" using rest by (simp add: pending_def)
    fix p assume p: "p \<in> set rest"
    then have "fst p \<noteq> i" using new by auto
    then show "case p of (j, ms) \<Rightarrow> \<exists>x. map_of ?m j = Some (ms @ x)"
      using rest p get[of "fst p"] by (auto simp: pending_def)
  qed
  have pu: "pending ?u rest"
    using pm by (fastforce simp: pending_def AList.update_conv' nullish_def split: option.splits)
  have split: "mset (concat (map snd (bu_members b))) = mset ms + mset x + mset (concat (map snd ?m))"
    using mset_collect_delete[OF wf i] by simp
  have "mset (concat (map snd ?m)) \<subseteq># mset (concat (map snd (bu_members b)))" by (simp add: split)
  moreover have "mset (concat (map snd ?u)) \<subseteq># mset (concat (map snd (bu_members b)))"
    unfolding split mset_collect_update[OF wfm] by (simp add: ac_simps)
  ultimately show ?thesis
    using wf wfm rest pm pu by (simp add: budget_step_def e Let_def)
qed

lemma budget_fold_ok:
  "wf_dict (bu_members b) \<Longrightarrow> pending (bu_members b) es \<Longrightarrow>
    mset (concat (map snd (bu_members (foldl (budget_step sides op) b es)))) \<subseteq># mset (concat (map snd (bu_members b)))"
proof (induction es arbitrary: b)
  case (Cons e es)
  note s = budget_step_ok[OF Cons.prems, of sides op]
  from Cons.IH[of "budget_step sides op b e"] s show ?case by (auto elim: subset_mset.trans)
qed simp

lemma by_size_pending: "wf_dict m \<Longrightarrow> pending m (by_size lc m)"
proof -
  assume wf: "wf_dict m"
  have "mset (map fst (by_size lc m)) \<subseteq># mset (map fst m)"
    by (intro map_submset) (simp add: by_size_def)
  then have "distinct (map fst (by_size lc m))"
    using wf unfolding wf_dict_def by (rule distinct_submset)
  moreover have "map_of m (fst e) = Some (snd e)" if "e \<in> set m" for e
    using that wf by (simp add: wf_dict_def)
  ultimately show ?thesis by (fastforce simp: pending_def by_size_def)
qed

lemma team_members_sub:
  "\<exists>P. mset (concat (map snd (bu_members (team_members lc nodes fi sides opts)))) \<subseteq>#
     mset (map snd (filter (\<lambda>x. fst x \<noteq> fi \<and> P x) nodes))"
proof -
  define fa where "fa = (\<not> gr_all opts \<and> gr_threshold opts < length nodes)"
  define fn where "fn = (fa \<and> gr_threshold opts < length (filter (\<lambda>x. fst x \<noteq> fi \<and> \<not> is_far (snd x)) nodes))"
  define c where "c = map snd (filter (folds fi fa fn) nodes)"
  define m where "m = foldl (add_member sides (gr_open opts)) [] c"
  define b where "b = \<lparr> bu_members = m, bu_names = [], bu_perSide = [] \<rparr>"
  have eq: "team_members lc nodes fi sides opts = foldl (budget_step sides (gr_open opts)) b (by_size lc m)"
    by (simp add: team_members_def fa_def fn_def c_def m_def b_def Let_def)
  have m: "wf_dict m" "mset (concat (map snd m)) \<subseteq># mset c"
    using add_member_fold[of "[]" sides "gr_open opts" c] by (simp_all add: m_def)
  have "bu_members b = m" by (simp add: b_def)
  then have "mset (concat (map snd (bu_members (team_members lc nodes fi sides opts)))) \<subseteq># mset (concat (map snd m))"
    using budget_fold_ok[of b "by_size lc m" sides "gr_open opts"] by_size_pending[OF m(1)] m(1) by (simp add: eq)
  also have "\<dots> \<subseteq># mset c" by (rule m(2))
  finally show ?thesis unfolding c_def folds_def
    by (rule exI[where x = "\<lambda>x. fa \<and> (is_far (snd x) \<or> fn)"])
qed

section \<open>The entities a group stands for\<close>

lemma set_rep_ok:
  "wf_dict r \<Longrightarrow> wf_dict (set_rep i r ms)"
  "fst ` set (set_rep i r ms) = fst ` set r \<union> gn_id ` set ms"
  unfolding set_rep_def by (induction ms arbitrary: r) (auto simp: dom_update)

lemma set_rep_teams:
  "wf_dict r \<Longrightarrow> wf_dict (foldl (\<lambda>r e. set_rep (fst e) r (snd e)) r teams)"
  "fst ` set (foldl (\<lambda>r e. set_rep (fst e) r (snd e)) r teams) =
     fst ` set r \<union> gn_id ` set (concat (map snd teams))"
  by (induction teams arbitrary: r) (auto simp: set_rep_ok)

lemma wf_length: "wf_dict r \<Longrightarrow> length r = card (fst ` set r)"
  using distinct_card[of "keys_of r"] by (simp add: wf_dict_def)

text \<open>A lane's cap hides entities that nothing hid before, and counts them.\<close>

lemma cap_lane_ok:
  assumes wf: "wf_dict rep" and d: "distinct (map (gn_id \<circ> snd) nodes)"
    and sub: "fst ` set rep \<subseteq> (gn_id \<circ> snd) ` {x \<in> set nodes. fst x \<noteq> fst focus}"
    and step: "cap_lane lc nodes focus sides op gs (rep, held) s = (rep', held')"
  shows "wf_dict rep' \<and> fst ` set rep' \<subseteq> (gn_id \<circ> snd) ` {x \<in> set nodes. fst x \<noteq> fst focus} \<and>
    int (length rep') - int (sum_list (map lg_count held')) = int (length rep) - int (sum_list (map lg_count held))"
proof -
  define near where "near = near_drawn nodes (fst focus) sides rep s"
  define room where "room = LANE_CAP - length (filter (\<lambda>g. gn_parent g = Some (LANE_PREFIX @ side_str s)) gs)"
  define hidden where "hidden = drop room (sort_by (then_cmp (\<lambda>a b. int (attention (snd focus) b) - int (attention (snd focus) a))
     (\<lambda>a b. lc (gn_id a) (gn_id b))) near)"
  define i where "i = GROUP_PREFIX @ side_str s @ MORE_SUFFIX"
  consider "rep' = rep" "held' = held" | "rep' = set_rep i rep hidden" "sum_list (map lg_count held') = sum_list (map lg_count held) + length hidden"
    using step by (auto simp: cap_lane_def Let_def near_def room_def hidden_def i_def split: if_splits)
  then show ?thesis
  proof cases
    case 2
    have "mset hidden \<subseteq># mset near"
      unfolding hidden_def by (metis append_take_drop_id mset_append mset_sort_by mset_subset_eq_add_right)
    then have sub': "mset (map gn_id hidden) \<subseteq># mset (map gn_id near)" by (rule map_submset)
    have "mset (map gn_id near) \<subseteq># mset (map (gn_id \<circ> snd) nodes)"
      unfolding near_def near_drawn_def map_map comp_def by (intro map_submset) simp
    with sub' d have dh: "distinct (map gn_id hidden)" by (meson distinct_submset subset_mset.trans)
    have near: "gn_id ` set hidden \<subseteq> gn_id ` set near" using sub' by (metis list.set_map mset_subset_eqD set_mset_mset subsetI)
    have "gn_id ` set near \<subseteq> (gn_id \<circ> snd) ` {x \<in> set nodes. fst x \<noteq> fst focus}"
      by (auto simp: near_def near_drawn_def)
    with near sub have k: "fst ` set rep' \<subseteq> (gn_id \<circ> snd) ` {x \<in> set nodes. fst x \<noteq> fst focus}"
      unfolding 2 set_rep_ok(2) by blast
    have "fst ` set rep \<inter> gn_id ` set near = {}"
      by (force simp: near_def near_drawn_def map_of_eq_None_iff)
    with near have "fst ` set rep \<inter> gn_id ` set hidden = {}" by blast
    then have "card (fst ` set rep \<union> gn_id ` set hidden) = card (fst ` set rep) + card (gn_id ` set hidden)"
      by (intro card_Un_disjoint) simp_all
    moreover have "card (gn_id ` set hidden) = length hidden" using distinct_card[OF dh] by simp
    ultimately have "length rep' = length rep + length hidden"
      using wf by (simp add: 2 wf_length set_rep_ok)
    with k wf show ?thesis by (simp add: 2 set_rep_ok)
  qed (use wf sub in simp)
qed

section \<open>What is drawn\<close>

definition drawn_entity :: "gnode \<Rightarrow> bool" where
  "drawn_entity n = (gn_lane n \<noteq> Some True \<and> gn_group n = None)"

text \<open>Pushing an edge touches nothing but a node's edges.\<close>

lemma map_push_first:
  "(\<And>n es. f (n\<lparr> gn_edges := es \<rparr>) = f n) \<Longrightarrow> map f (push_first i e ns) = map f ns"
  by (induction ns) auto

lemma map_push_edge:
  "(\<And>n es. f (n\<lparr> gn_edges := es \<rparr>) = f n) \<Longrightarrow> map f (push_edge i e ns) = map f ns"
  by (simp add: push_edge_def map_push_first flip: rev_map)

definition face :: "gnode \<Rightarrow> string \<times> bool" where
  "face n = (gn_id n, drawn_entity n)"

lemma face_edges [simp]: "face (n\<lparr> gn_edges := es \<rparr>) = face n"
  by (simp add: face_def drawn_entity_def)

lemma route_face: "map face (fst (route_edge rep i st e)) = map face (fst st)"
  by (cases st) (simp add: route_edge_def Let_def map_push_edge split: option.splits)

lemma route_all_face:
  "map face (fst (foldl (\<lambda>st n. foldl (route_edge rep (gn_id n)) st (edges_of n)) st ns)) = map face (fst st)"
proof (induction ns arbitrary: st)
  case (Cons n ns)
  have "map face (fst (foldl (route_edge rep (gn_id n)) st es)) = map face (fst st)" for es
    by (induction es arbitrary: st) (simp_all add: route_face)
  with Cons show ?case by simp
qed simp

lemma attach_face:
  assumes "attach_group agg f (lanes, kept, gs) g = (lanes', kept', gs')"
  shows "map face lanes' = map face lanes" "map face kept' = map face kept" "map face gs' = map face gs @ [face g]"
  using assms by (auto simp: attach_group_def Let_def map_push_edge map_push_first split: option.splits if_splits)

lemma attach_all_face:
  "foldl (attach_group agg f) (lanes, kept, gs) ns = (lanes', kept', gs') \<Longrightarrow>
    map face (lanes' @ kept' @ gs') = map face (lanes @ kept @ gs @ ns)"
proof (induction ns arbitrary: lanes kept gs)
  case (Cons n ns)
  obtain l k g where st: "attach_group agg f (lanes, kept, gs) n = (l, k, g)" by (metis prod_cases3)
  with Cons have "map face (lanes' @ kept' @ gs') = map face (l @ k @ g @ ns)" by simp
  with attach_face[OF st] show ?case by simp
qed simp

lemma drawn_ids: "map gn_id (filter drawn_entity ns) = map fst (filter snd (map face ns))"
  by (induction ns) (simp_all add: face_def)

lemma group_not_drawn: "\<not> drawn_entity (snd (group_node names sides e))"
  by (cases e) (simp add: group_node_def Let_def drawn_entity_def)

lemma lane_not_drawn: "n \<in> set (lane_nodes nodes fi sides) \<Longrightarrow> \<not> drawn_entity n"
  by (auto simp: lane_nodes_def drawn_entity_def)

lemma keep_face: "face (keep_node fi sides x) = face (snd x)"
  by (cases x) (simp add: keep_node_def face_def drawn_entity_def Let_def)

lemma find_enumerate:
  "find P xs = Some f \<Longrightarrow> \<exists>i. find (\<lambda>x. P (snd x)) (enumerate k xs) = Some (i, f)"
  by (induction xs arbitrary: k) (auto split: if_splits)

lemma enumerate_other:
  assumes "distinct (map gn_id gd)" "(i, f) \<in> set (enumerate 0 gd)" "(j, n) \<in> set (enumerate 0 gd)" "j \<noteq> i"
  shows "gn_id n \<noteq> gn_id f"
  using assms by (auto simp: in_set_enumerate_eq distinct_conv_nth)

lemma teams_distinct:
  assumes dn: "distinct (map (gn_id \<circ> snd) nodes)"
    and P: "mset (concat (map snd ms)) \<subseteq># mset (map snd (filter (\<lambda>x. fst x \<noteq> fi \<and> P x) nodes))"
  shows "distinct (map gn_id (concat (map snd (filter forms_group ms))))"
    and "gn_id ` set (concat (map snd (filter forms_group ms))) \<subseteq> (gn_id \<circ> snd) ` {x \<in> set nodes. fst x \<noteq> fi}"
proof -
  let ?c = "concat (map snd (filter forms_group ms))"
  have tm: "mset (map gn_id ?c) \<subseteq># mset (map (gn_id \<circ> snd) (filter (\<lambda>x. fst x \<noteq> fi \<and> P x) nodes))"
    using map_submset[OF subset_mset.trans[OF mset_collect_filter P], of gn_id] by simp
  have "distinct (map (gn_id \<circ> snd) (filter (\<lambda>x. fst x \<noteq> fi \<and> P x) nodes))" using dn by (rule distinct_map_filter)
  with tm show "distinct (map gn_id ?c)" by (rule distinct_submset)
  have "set_mset (mset (map gn_id ?c)) \<subseteq> set_mset (mset (map (gn_id \<circ> snd) (filter (\<lambda>x. fst x \<noteq> fi \<and> P x) nodes)))"
    using tm by (rule set_mset_mono)
  then show "gn_id ` set ?c \<subseteq> (gn_id \<circ> snd) ` {x \<in> set nodes. fst x \<noteq> fi}"
    unfolding set_mset_mset list.set_map by auto
qed

lemma group_counts:
  assumes "mset gr = mset (map (fst \<circ> group_node names sides) teams)"
  shows "sum_list (map lg_count gr) = length (concat (map snd teams))"
proof -
  have cnt: "lg_count (fst (group_node names sides e)) = length (snd e)" for e
    by (cases e) (simp add: group_node_def Let_def)
  have "sum_list (map lg_count gr) = sum_list (map lg_count (map (fst \<circ> group_node names sides) teams))"
    using arg_cong[OF assms, of "\<lambda>m. sum_mset (image_mset lg_count m)"] by (simp only: mset_map[symmetric] sum_mset_sum_list)
  also have "\<dots> = length (concat (map snd teams))" by (simp add: cnt comp_def length_concat)
  finally show ?thesis .
qed

lemma drawn_nodes:
  assumes plain: "list_all drawn_entity gd"
    and k1: "foldl (\<lambda>st n. foldl (route_edge rep (gn_id n)) st (edges_of n))
      (map (keep_node fi sides) (filter (\<lambda>x. map_of rep (gn_id (snd x)) = None) (enumerate 0 gd)), []) gd = (kept1, agg)"
    and k2: "foldl (attach_group agg f) (lane_nodes nodes fi sides, kept1, []) (map (snd \<circ> group_node names sides) teams) =
      (lanes, kept, gnodes)"
  shows "map gn_id (filter drawn_entity (lanes @ kept @ gnodes)) = filter (\<lambda>i. i \<notin> set (keys_of rep)) (map gn_id gd)"
proof -
  let ?k = "map (keep_node fi sides) (filter (\<lambda>x. map_of rep (gn_id (snd x)) = None) (enumerate 0 gd))"
  let ?g = "map (snd \<circ> group_node names sides) teams"
  have nd: "map snd (enumerate 0 gd) = gd" by simp
  have "map face (lanes @ kept @ gnodes) = map face (lane_nodes nodes fi sides @ kept1 @ ?g)"
    using attach_all_face[OF k2] by simp
  also have "\<dots> = map face (lane_nodes nodes fi sides) @ map face ?k @ map face ?g"
    using route_all_face[of rep "(?k, [])" gd] by (simp add: k1)
  finally have face: "map face (lanes @ kept @ gnodes) = \<dots>" .
  have l: "filter snd (map face (lane_nodes nodes fi sides)) = []"
    by (auto simp: filter_empty_conv face_def dest: lane_not_drawn)
  have g: "filter snd (map face ?g) = []" by (auto simp: filter_empty_conv face_def group_not_drawn)
  have "map face ?k = map face (map snd (filter (\<lambda>x. map_of rep (gn_id (snd x)) = None) (enumerate 0 gd)))"
    by (simp add: keep_face)
  also have "map snd (filter (\<lambda>x. map_of rep (gn_id (snd x)) = None) (enumerate 0 gd)) = filter (\<lambda>n. map_of rep (gn_id n) = None) gd"
    using filter_map[of "\<lambda>n. map_of rep (gn_id n) = None" snd "enumerate 0 gd"] by (simp add: comp_def)
  finally have kf: "map face ?k = map face (filter (\<lambda>n. map_of rep (gn_id n) = None) gd)" .
  have "filter drawn_entity (filter (\<lambda>n. map_of rep (gn_id n) = None) gd) = filter (\<lambda>n. map_of rep (gn_id n) = None) gd"
    using plain by (auto simp: list_all_iff intro!: filter_cong)
  then have "map fst (filter snd (map face ?k)) = map gn_id (filter (\<lambda>n. map_of rep (gn_id n) = None) gd)"
    unfolding kf drawn_ids[symmetric] by simp
  also have "\<dots> = filter (\<lambda>i. i \<notin> set (keys_of rep)) (map gn_id gd)"
    by (simp add: filter_map comp_def map_of_eq_None_iff)
  finally show ?thesis unfolding drawn_ids face unfolding filter_append l g by simp
qed

text \<open>C4: The lane graph loses no entity and shows none twice.  The entities drawn are, in order, those
  of the given graph but a set of hidden ones; the focus is never hidden; the number folded
  is the sum of the counts on the team groups; and the hidden ones are the folded ones and
  those behind the \<open>+N more\<close> counts, each counted once.\<close>

theorem laneGraph_conserves:
  assumes d: "distinct (map gn_id gd)" and plain: "list_all drawn_entity gd"
    and f: "find (\<lambda>n. gn_depth n = Some 0) gd = Some f"
  shows "\<exists>hidden. distinct hidden \<and> set hidden \<subseteq> gn_id ` set gd - {gn_id f} \<and>
    map gn_id (filter drawn_entity (gg_nodes (laneGraph lc gd opts))) = filter (\<lambda>i. i \<notin> set hidden) (map gn_id gd) \<and>
    gg_folded (laneGraph lc gd opts) = int (sum_list (map lg_count (gg_groups (laneGraph lc gd opts)))) \<and>
    int (length hidden) =
      gg_folded (laneGraph lc gd opts) + int (sum_list (map lg_count (gg_more (laneGraph lc gd opts))))"
proof -
  define nodes where "nodes = enumerate 0 gd"
  obtain fi where find: "find (\<lambda>x. gn_depth (snd x) = Some 0) nodes = Some (fi, f)"
    using find_enumerate[OF f, of 0] by (auto simp: nodes_def)
  define sides where "sides = sidesOf gd (gn_id f)"
  define b where "b = team_members lc nodes fi sides opts"
  define teams where "teams = filter forms_group (bu_members b)"
  define rep0 where "rep0 = foldl (\<lambda>r e. set_rep (fst e) r (snd e)) [] teams"
  define gs where "gs = map (snd \<circ> group_node (bu_names b) sides) teams"
  obtain rep1 held1 where c1: "cap_lane lc nodes (fi, f) sides (gr_open opts) gs (rep0, []) DependsOn = (rep1, held1)"
    by (rule prod.exhaust)
  obtain rep held where c2: "cap_lane lc nodes (fi, f) sides (gr_open opts) gs (rep1, held1) UsedBy = (rep, held)"
    by (rule prod.exhaust)
  define kept0 where "kept0 = map (keep_node fi sides) (filter (\<lambda>x. map_of rep (gn_id (snd x)) = None) nodes)"
  obtain kept1 agg where k1: "foldl (\<lambda>st n. foldl (route_edge rep (gn_id n)) st (edges_of n)) (kept0, []) gd = (kept1, agg)"
    by (rule prod.exhaust)
  obtain lanes kept gnodes where k2:
    "foldl (attach_group agg (gn_id f)) (lane_nodes nodes fi sides, kept1, []) gs = (lanes, kept, gnodes)"
    by (rule prod_cases3)
  have "\<exists>gr. laneGraph lc gd opts = \<lparr> gg_nodes = lanes @ kept @ gnodes, gg_groups = gr,
      gg_folded = int (length rep) - int (sum_list (map lg_count held)), gg_more = held \<rparr> \<and>
      mset gr = mset (map (fst \<circ> group_node (bu_names b) sides) teams)"
    by (simp add: laneGraph_def Let_def find c1 c2 k1 k2 flip: nodes_def sides_def b_def teams_def rep0_def gs_def kept0_def)
  then obtain gr where r: "laneGraph lc gd opts = \<lparr> gg_nodes = lanes @ kept @ gnodes, gg_groups = gr,
      gg_folded = int (length rep) - int (sum_list (map lg_count held)), gg_more = held \<rparr>"
    and gr: "mset gr = mset (map (fst \<circ> group_node (bu_names b) sides) teams)" by blast
  have nd: "map snd nodes = gd" by (simp add: nodes_def)
  have dn: "distinct (map (gn_id \<circ> snd) nodes)" using d by (simp flip: map_map add: nd)
  let ?others = "(gn_id \<circ> snd) ` {x \<in> set nodes. fst x \<noteq> fst (fi, f)}"
  obtain P where P: "mset (concat (map snd (bu_members b))) \<subseteq># mset (map snd (filter (\<lambda>x. fst x \<noteq> fi \<and> P x) nodes))"
    using team_members_sub unfolding b_def by blast
  note dt = teams_distinct(1)[OF dn P, folded teams_def]
  note ids = teams_distinct(2)[OF dn P, folded teams_def]
  have w0: "wf_dict rep0" and k0: "fst ` set rep0 = gn_id ` set (concat (map snd teams))"
    using set_rep_teams[of "[]" teams] by (simp_all add: rep0_def)
  have l0: "length rep0 = length (concat (map snd teams))"
    using wf_length[OF w0] distinct_card[OF dt] by (simp add: k0)
  have s0: "fst ` set rep0 \<subseteq> ?others" using ids by (simp add: k0)
  note o1 = cap_lane_ok[OF w0 dn s0 c1]
  note o2 = cap_lane_ok[OF conjunct1[OF o1] dn conjunct1[OF conjunct2[OF o1]] c2]
  have w: "wf_dict rep" and k: "fst ` set rep \<subseteq> ?others" using o2 by blast+
  have len: "int (length rep) - int (sum_list (map lg_count held)) = int (length (concat (map snd teams)))"
    using o1 o2 l0 by simp
  note sum = group_counts[OF gr]
  have "(fi, f) \<in> set nodes" using find by (auto simp: find_Some_iff)
  then have foc: "gn_id f \<notin> ?others" using enumerate_other[OF d, of fi f] by (fastforce simp: nodes_def)
  have sub: "?others \<subseteq> gn_id ` set gd" using nd by (auto simp: image_iff) (metis image_eqI list.set_map snd_conv)
  note drawn = drawn_nodes[OF plain k1[unfolded kept0_def nodes_def] k2[unfolded gs_def]]
  have "distinct (keys_of rep)" using w by (simp add: wf_dict_def)
  moreover have "set (keys_of rep) \<subseteq> gn_id ` set gd - {gn_id f}" unfolding list.set_map using k foc sub by blast
  ultimately show ?thesis unfolding r
    using drawn len sum by (intro exI[of _ "keys_of rep"]) (simp only: grouped_graph.simps, simp)
qed

theorem laneGraph_conserves_witness:
  "\<exists>hidden. set hidden \<subseteq> {''a'', ''b''} \<and>
    map gn_id (filter drawn_entity (gg_nodes (laneGraph (\<lambda>_ _. 0)
      [(demo_node ''f'' [])\<lparr> gn_depth := Some 0 \<rparr>, (demo_node ''a'' [''f''])\<lparr> gn_depth := Some 2 \<rparr>, (demo_node ''b'' [''a''])\<lparr> gn_depth := Some 2 \<rparr>]
      \<lparr> gr_open = [], gr_all = False, gr_threshold = 1 \<rparr>))) = filter (\<lambda>i. i \<notin> set hidden) [''f'', ''a'', ''b'']"
proof -
  let ?gd = "[(demo_node ''f'' [])\<lparr> gn_depth := Some 0 \<rparr>, (demo_node ''a'' [''f''])\<lparr> gn_depth := Some 2 \<rparr>, (demo_node ''b'' [''a''])\<lparr> gn_depth := Some 2 \<rparr>]"
  have ids: "map gn_id ?gd = [''f'', ''a'', ''b'']" by (simp add: demo_node_def plain_node_def)
  have "list_all drawn_entity ?gd" by (simp add: drawn_entity_def demo_node_def plain_node_def)
  moreover have "find (\<lambda>n. gn_depth n = Some 0) ?gd = Some ((demo_node ''f'' [])\<lparr> gn_depth := Some 0 \<rparr>)" by simp
  moreover have "gn_id ` set ?gd - {gn_id ((demo_node ''f'' [])\<lparr> gn_depth := Some 0 \<rparr>)} = {''a'', ''b''}"
    by (auto simp: demo_node_def plain_node_def)
  moreover have "distinct (map gn_id ?gd)" unfolding ids by simp
  ultimately show ?thesis
    using laneGraph_conserves[of ?gd _ "\<lambda>_ _. 0" "\<lparr> gr_open = [], gr_all = False, gr_threshold = 1 \<rparr>"] unfolding ids by metis
qed

end
