(* ===== verification/Metrics.thy ===== *)
theory Metrics
  imports Owners Format Numbers
begin

text \<open>
  The fleet's metrics (\<open>summarize\<close> of \<open>lib/format.ts\<close>): one pass over the services that counts
  statuses, readiness and coverage, for the fleet, per owner and per readiness category.
  \<open>localeCompare\<close>, which orders the rows, is the argument \<open>lc\<close>.  Percentages are computed in
  double precision, as the source does.
\<close>

section \<open>Data\<close>

record service =
  sv_status :: "string option"
  sv_blast :: "nat option"
  sv_coverage :: "(nat option \<times> nat option) option"
  sv_owner :: "owner_obj option"
  sv_readiness :: "readiness_info option"

record status_counts =
  ct_compliant :: nat
  ct_warning :: nat
  ct_nonCompliant :: nat
  ct_reference :: nat
  ct_unknown :: nat
  ct_invalid :: nat
  ct_notEvaluated :: nat

record owner_agg =
  oa_key :: string
  oa_label :: string
  oa_kind :: string
  oa_services :: nat
  oa_counts :: status_counts
  oa_runtimeEvaluated :: nat
  oa_conclusive :: nat
  oa_totalBlast :: nat
  oa_maxBlast :: nat
  oa_compliancePercent :: int
  oa_ready :: nat
  oa_partial :: nat
  oa_notReady :: nat
  oa_notConfigured :: nat

record category_agg =
  ca_category :: string
  ca_checks :: nat
  ca_done :: nat
  ca_partial :: nat
  ca_notDone :: nat
  ca_deferred :: nat

record readiness_summary =
  rs_total :: nat
  rs_ready :: nat
  rs_partial :: nat
  rs_notReady :: nat
  rs_notConfigured :: nat
  rs_configured :: nat
  rs_avgScore :: int
  rs_expired :: nat
  rs_totalDone :: nat
  rs_totalPartial :: nat
  rs_totalNotDone :: nat
  rs_totalDeferred :: nat

record metrics =
  me_total :: nat
  me_assessed :: nat
  me_counts :: status_counts
  me_needsAttention :: nat
  me_compliancePercent :: int
  me_highImpact :: nat
  me_runtimeEvaluated :: nat
  me_conclusive :: nat
  me_coverage :: "nat \<times> nat"
  me_readiness :: readiness_summary
  me_byOwner :: "owner_agg list"
  me_byCategory :: "category_agg list"

text \<open>The loop's state: the metrics so far, the owner and category maps, the score sum.\<close>

record sum_state =
  ss_m :: metrics
  ss_owners :: "owner_agg dict"
  ss_categories :: "category_agg dict"
  ss_scoreSum :: nat

section \<open>One service\<close>

definition zero_counts :: status_counts where
  "zero_counts = \<lparr> ct_compliant = 0, ct_warning = 0, ct_nonCompliant = 0, ct_reference = 0,
     ct_unknown = 0, ct_invalid = 0, ct_notEvaluated = 0 \<rparr>"

definition count_status :: "string option \<Rightarrow> status_counts \<Rightarrow> status_counts" where
  "count_status status c =
     (if status = Some ''Compliant'' then c\<lparr> ct_compliant := Suc (ct_compliant c) \<rparr>
      else if status = Some ''Warning'' then c\<lparr> ct_warning := Suc (ct_warning c) \<rparr>
      else if status = Some ''NonCompliant'' then c\<lparr> ct_nonCompliant := Suc (ct_nonCompliant c) \<rparr>
      else if status = Some ''Reference'' then c\<lparr> ct_reference := Suc (ct_reference c) \<rparr>
      else if status = Some ''Unknown'' then c\<lparr> ct_unknown := Suc (ct_unknown c) \<rparr>
      else if status = Some ''Invalid'' then c\<lparr> ct_invalid := Suc (ct_invalid c) \<rparr>
      else if status = Some ''NotEvaluated'' then c\<lparr> ct_notEvaluated := Suc (ct_notEvaluated c) \<rparr>
      else c\<lparr> ct_unknown := Suc (ct_unknown c) \<rparr>)"

definition owner_group :: "service \<Rightarrow> string" where
  "owner_group svc = (let k = ownerKey (sv_owner svc) in if k = [] then UNOWNED_KEY else k)"

definition new_owner :: "string \<Rightarrow> owner_agg" where
  "new_owner key =
     \<lparr> oa_key = key, oa_label = (if key = UNOWNED_KEY then UNOWNED_KEY else ownerKeyLabel key),
       oa_kind = ownerKeyKind key, oa_services = 0, oa_counts = zero_counts, oa_runtimeEvaluated = 0,
       oa_conclusive = 0, oa_totalBlast = 0, oa_maxBlast = 0, oa_compliancePercent = 0,
       oa_ready = 0, oa_partial = 0, oa_notReady = 0, oa_notConfigured = 0 \<rparr>"

definition agg_service :: "service \<Rightarrow> owner_agg \<Rightarrow> owner_agg" where
  "agg_service svc agg =
     (let b = nullish (sv_blast svc) 0;
          a1 = agg\<lparr> oa_services := Suc (oa_services agg),
                    oa_counts := count_status (sv_status svc) (oa_counts agg),
                    oa_totalBlast := oa_totalBlast agg + b,
                    oa_maxBlast := max (oa_maxBlast agg) b \<rparr>
      in case readinessBucket (sv_readiness svc) of
           Ready \<Rightarrow> a1\<lparr> oa_ready := Suc (oa_ready a1) \<rparr>
         | Partial \<Rightarrow> a1\<lparr> oa_partial := Suc (oa_partial a1) \<rparr>
         | NotReady \<Rightarrow> a1\<lparr> oa_notReady := Suc (oa_notReady a1) \<rparr>
         | BUnknown \<Rightarrow> a1\<lparr> oa_notConfigured := Suc (oa_notConfigured a1) \<rparr>)"

definition add_check :: "category_agg dict \<Rightarrow> readiness_check \<Rightarrow> category_agg dict" where
  "add_check m check =
     (let cat = or_else (rc_category check) ''other'';
          c0 = nullish (map_of m cat)
            \<lparr> ca_category = cat, ca_checks = 0, ca_done = 0, ca_partial = 0, ca_notDone = 0, ca_deferred = 0 \<rparr>;
          c1 = c0\<lparr> ca_checks := Suc (ca_checks c0) \<rparr>;
          c2 = (if rc_status check = ''done'' then c1\<lparr> ca_done := Suc (ca_done c1) \<rparr>
                else if rc_status check = ''partial'' then c1\<lparr> ca_partial := Suc (ca_partial c1) \<rparr>
                else if rc_status check = ''not-done'' then c1\<lparr> ca_notDone := Suc (ca_notDone c1) \<rparr>
                else if rc_status check = ''deferred'' then c1\<lparr> ca_deferred := Suc (ca_deferred c1) \<rparr>
                else c1)
      in AList.update cat c2 m)"

definition add_readiness :: "bucket \<Rightarrow> readiness_info option \<Rightarrow> readiness_summary \<Rightarrow> readiness_summary" where
  "add_readiness bucket r s =
     (case r of
        None \<Rightarrow> s\<lparr> rs_notConfigured := Suc (rs_notConfigured s) \<rparr>
      | Some i \<Rightarrow>
          let s1 = (case bucket of
                 Ready \<Rightarrow> s\<lparr> rs_ready := Suc (rs_ready s) \<rparr>
               | Partial \<Rightarrow> s\<lparr> rs_partial := Suc (rs_partial s) \<rparr>
               | _ \<Rightarrow> s\<lparr> rs_notReady := Suc (rs_notReady s) \<rparr>)
          in s1\<lparr> rs_configured := Suc (rs_configured s1),
                 rs_expired := (if ri_expired i then Suc (rs_expired s1) else rs_expired s1),
                 rs_totalDone := rs_totalDone s1 + ri_doneCount i,
                 rs_totalPartial := rs_totalPartial s1 + ri_partialCount i,
                 rs_totalNotDone := rs_totalNotDone s1 + ri_notDoneCount i,
                 rs_totalDeferred := rs_totalDeferred s1 + ri_deferredCount i \<rparr>)"

definition sum_step :: "sum_state \<Rightarrow> service \<Rightarrow> sum_state" where
  "sum_step st svc =
     (let m = ss_m st;
          key = owner_group svc;
          agg = nullish (map_of (ss_owners st) key) (new_owner key);
          r = sv_readiness svc;
          cov = (case sv_coverage svc of
              None \<Rightarrow> me_coverage m
            | Some (e, q) \<Rightarrow> (fst (me_coverage m) + nullish e 0, snd (me_coverage m) + nullish q 0))
      in st\<lparr> ss_m := m\<lparr> me_counts := count_status (sv_status svc) (me_counts m),
                        me_highImpact := me_highImpact m + (if HIGH_IMPACT_THRESHOLD \<le> nullish (sv_blast svc) 0 then 1 else 0),
                        me_coverage := cov,
                        me_readiness := add_readiness (readinessBucket r) r (me_readiness m) \<rparr>,
             ss_owners := AList.update key (agg_service svc agg) (ss_owners st),
             ss_categories := (case r of None \<Rightarrow> ss_categories st | Some i \<Rightarrow> foldl add_check (ss_categories st) (ri_checks i)),
             ss_scoreSum := (case r of None \<Rightarrow> ss_scoreSum st | Some i \<Rightarrow> ss_scoreSum st + ri_score i) \<rparr>)"

section \<open>The summary\<close>

definition assessed_of :: "status_counts \<Rightarrow> nat" where
  "assessed_of c = ct_compliant c + ct_warning c + ct_nonCompliant c + ct_unknown c + ct_invalid c"

definition share_of :: "status_counts \<Rightarrow> int" where
  "share_of c = (if 0 < assessed_of c then percent_of (ct_compliant c) (assessed_of c) else - 1)"

definition finish_owner :: "owner_agg \<Rightarrow> owner_agg" where
  "finish_owner a =
     (let c = oa_counts a in
      a\<lparr> oa_compliancePercent := share_of c,
         oa_runtimeEvaluated := ct_compliant c + ct_warning c + ct_nonCompliant c + ct_unknown c,
         oa_conclusive := ct_compliant c + ct_warning c + ct_nonCompliant c \<rparr>)"

definition sum_init :: "nat \<Rightarrow> sum_state" where
  "sum_init n =
     \<lparr> ss_m = \<lparr> me_total = n, me_assessed = 0, me_counts = zero_counts, me_needsAttention = 0,
                me_compliancePercent = - 1, me_highImpact = 0, me_runtimeEvaluated = 0, me_conclusive = 0,
                me_coverage = (0, 0),
                me_readiness = \<lparr> rs_total = n, rs_ready = 0, rs_partial = 0, rs_notReady = 0,
                  rs_notConfigured = 0, rs_configured = 0, rs_avgScore = - 1, rs_expired = 0, rs_totalDone = 0,
                  rs_totalPartial = 0, rs_totalNotDone = 0, rs_totalDeferred = 0 \<rparr>,
                me_byOwner = [], me_byCategory = [] \<rparr>,
       ss_owners = [], ss_categories = [], ss_scoreSum = 0 \<rparr>"

definition summarize :: "(string \<Rightarrow> string \<Rightarrow> int) \<Rightarrow> service list \<Rightarrow> metrics" where
  "summarize lc services =
     (let st = foldl sum_step (sum_init (length services)) services;
          m = ss_m st; c = me_counts m; r = me_readiness m
      in m\<lparr> me_assessed := assessed_of c,
            me_needsAttention := ct_nonCompliant c + ct_warning c + ct_invalid c,
            me_compliancePercent := share_of c,
            me_runtimeEvaluated := ct_compliant c + ct_warning c + ct_nonCompliant c + ct_unknown c,
            me_conclusive := ct_compliant c + ct_warning c + ct_nonCompliant c,
            me_byOwner :=
              sort_by (then_cmp (\<lambda>a b. lc (oa_label a) (oa_label b)) (\<lambda>a b. lc (oa_key a) (oa_key b)))
                (map (finish_owner \<circ> snd) (ss_owners st)),
            me_readiness :=
              (if 0 < rs_configured r
               then r\<lparr> rs_avgScore := js_round (num_div (ss_scoreSum st) (rs_configured r)) \<rparr> else r),
            me_byCategory := sort_by (\<lambda>a b. lc (ca_category a) (ca_category b)) (map snd (ss_categories st)) \<rparr>)"

definition aggregateByOwner :: "(string \<Rightarrow> string \<Rightarrow> int) \<Rightarrow> service list \<Rightarrow> owner_agg list" where
  "aggregateByOwner lc services = me_byOwner (summarize lc services)"

section \<open>Nothing is counted twice\<close>

definition total_counts :: "status_counts \<Rightarrow> nat" where
  "total_counts c = assessed_of c + ct_reference c + ct_notEvaluated c"

lemma total_count_status [simp]: "total_counts (count_status s c) = Suc (total_counts c)"
  by (simp add: total_counts_def assessed_of_def count_status_def)

lemma total_zero [simp]: "total_counts zero_counts = 0"
  by (simp add: total_counts_def assessed_of_def zero_counts_def)

definition agg_ok :: "owner_agg \<Rightarrow> bool" where
  "agg_ok a = (total_counts (oa_counts a) = oa_services a \<and>
     oa_ready a + oa_partial a + oa_notReady a + oa_notConfigured a = oa_services a \<and> oa_maxBlast a \<le> oa_totalBlast a)"

lemma agg_ok_new [simp]: "agg_ok (new_owner k)"
  by (simp add: agg_ok_def new_owner_def)

lemma agg_ok_step [simp]: "agg_ok a \<Longrightarrow> agg_ok (agg_service svc a)"
  by (simp add: agg_ok_def agg_service_def Let_def split: bucket.split)

lemma agg_services [simp]: "oa_services (agg_service svc a) = Suc (oa_services a)"
  by (simp add: agg_service_def Let_def split: bucket.split)

lemma agg_key [simp]: "oa_key (agg_service svc a) = oa_key a"
  by (simp add: agg_service_def Let_def split: bucket.split)

text \<open>The invariant of the loop after the services \<open>seen\<close>.\<close>

definition readiness_ok :: "nat \<Rightarrow> readiness_summary \<Rightarrow> bool" where
  "readiness_ok n r = (rs_ready r + rs_partial r + rs_notReady r = rs_configured r \<and>
     rs_configured r + rs_notConfigured r = n)"

definition sum_ok :: "service list \<Rightarrow> sum_state \<Rightarrow> bool" where
  "sum_ok seen st = (
     wf_dict (ss_owners st) \<and>
     total_counts (me_counts (ss_m st)) = length seen \<and>
     readiness_ok (length seen) (me_readiness (ss_m st)) \<and>
     (\<forall>k. map_of (ss_owners st) k = None \<longleftrightarrow> k \<notin> owner_group ` set seen) \<and>
     (\<forall>k a. map_of (ss_owners st) k = Some a \<longrightarrow>
        agg_ok a \<and> oa_key a = k \<and> oa_services a = length (filter (\<lambda>s. owner_group s = k) seen)))"

lemma readiness_ok_step:
  "readiness_ok n s \<Longrightarrow> readiness_ok (Suc n) (add_readiness (readinessBucket r) r s)"
  by (cases r) (simp_all add: readiness_ok_def add_readiness_def readinessBucket_def Let_def)

lemma sum_ok_step: "sum_ok seen st \<Longrightarrow> sum_ok (seen @ [svc]) (sum_step st svc)"
proof -
  assume ok: "sum_ok seen st"
  define key where "key = owner_group svc"
  define agg where "agg = nullish (map_of (ss_owners st) key) (new_owner key)"
  have agg: "agg_ok agg" "oa_key agg = key" "oa_services agg = length (filter (\<lambda>s. owner_group s = key) seen)"
  proof -
    have "oa_services agg = length (filter (\<lambda>s. owner_group s = key) seen) \<and> agg_ok agg \<and> oa_key agg = key"
    proof (cases "map_of (ss_owners st) key")
      case None
      then have "filter (\<lambda>s. owner_group s = key) seen = []"
        using ok by (auto simp: sum_ok_def filter_empty_conv)
      with None show ?thesis by (simp add: agg_def new_owner_def agg_ok_new[unfolded new_owner_def])
    next
      case (Some a)
      with ok show ?thesis by (simp add: agg_def sum_ok_def)
    qed
    then show "agg_ok agg" "oa_key agg = key" "oa_services agg = length (filter (\<lambda>s. owner_group s = key) seen)"
      by simp_all
  qed
  have owners: "ss_owners (sum_step st svc) = AList.update key (agg_service svc agg) (ss_owners st)"
    by (simp add: sum_step_def Let_def key_def agg_def)
  have m: "me_counts (ss_m (sum_step st svc)) = count_status (sv_status svc) (me_counts (ss_m st))"
    "me_readiness (ss_m (sum_step st svc)) =
       add_readiness (readinessBucket (sv_readiness svc)) (sv_readiness svc) (me_readiness (ss_m st))"
    by (simp_all add: sum_step_def Let_def)
  show ?thesis
    unfolding sum_ok_def owners m
    using ok agg readiness_ok_step
    by (auto simp: sum_ok_def AList.update_conv' key_def)
qed

lemma sum_ok_fold: "sum_ok seen st \<Longrightarrow> sum_ok (seen @ svcs) (foldl sum_step st svcs)"
proof (induction svcs arbitrary: seen st)
  case (Cons s svcs)
  from Cons.IH[OF sum_ok_step[OF Cons.prems, of s]] show ?case by simp
qed simp

lemma sum_ok_init: "sum_ok [] (sum_init n)"
  by (simp add: sum_ok_def sum_init_def readiness_ok_def)

lemma me_total_fold: "me_total (ss_m (foldl sum_step st svcs)) = me_total (ss_m st)"
  by (induction svcs arbitrary: st) (simp_all add: sum_step_def Let_def)

lemma finish_owner_keeps:
  "oa_key (finish_owner a) = oa_key a" "oa_services (finish_owner a) = oa_services a"
  "oa_counts (finish_owner a) = oa_counts a"
  by (simp_all add: finish_owner_def Let_def)

lemma share_bounds: "share_of c = - 1 \<and> assessed_of c = 0 \<or> 0 \<le> share_of c \<and> share_of c \<le> 100 \<and> 0 < assessed_of c"
proof (cases "0 < assessed_of c")
  case True
  have "ct_compliant c \<le> assessed_of c" by (simp add: assessed_of_def)
  with True percent_bounds[of "assessed_of c" "ct_compliant c"] show ?thesis by (simp add: share_of_def)
qed (simp add: share_of_def)

section \<open>Properties\<close>

text \<open>C34: The fleet's numbers add up. Every service falls in exactly one status bucket (the seven
  counts sum to the number of services) and in exactly one readiness bucket; every service is
  in exactly one owner row, each owner row counts exactly the services of its owner, and no
  owner has two rows; and the compliance share is a percentage in \<open>0..100\<close>, or the \<open>-1\<close>
  sentinel exactly when nothing was assessed.\<close>

theorem summarize_partitions:
  "let m = summarize lc svcs in
     total_counts (me_counts m) = length svcs \<and> me_total m = length svcs \<and>
     readiness_ok (length svcs) (me_readiness m) \<and>
     distinct (map oa_key (me_byOwner m)) \<and>
     set (map oa_key (me_byOwner m)) = owner_group ` set svcs \<and>
     (\<forall>a \<in> set (me_byOwner m). oa_services a = length (filter (\<lambda>s. owner_group s = oa_key a) svcs) \<and>
        total_counts (oa_counts a) = oa_services a) \<and>
     (if me_assessed m = 0 then me_compliancePercent m = - 1 else 0 \<le> me_compliancePercent m \<and> me_compliancePercent m \<le> 100)"
proof -
  define st where "st = foldl sum_step (sum_init (length svcs)) svcs"
  have ok: "sum_ok svcs st" using sum_ok_fold[OF sum_ok_init, of svcs] by (simp add: st_def)
  have wf: "distinct (map fst (ss_owners st))"
    and total: "total_counts (me_counts (ss_m st)) = length svcs"
    and ready: "readiness_ok (length svcs) (me_readiness (ss_m st))"
    and dom: "\<forall>k. map_of (ss_owners st) k = None \<longleftrightarrow> k \<notin> owner_group ` set svcs"
    and rows: "\<forall>k a. map_of (ss_owners st) k = Some a \<longrightarrow>
        agg_ok a \<and> oa_key a = k \<and> oa_services a = length (filter (\<lambda>s. owner_group s = k) svcs)"
    using ok unfolding sum_ok_def wf_dict_def by blast+
  have entry: "agg_ok a" "oa_key a = k" "oa_services a = length (filter (\<lambda>s. owner_group s = k) svcs)"
    if "(k, a) \<in> set (ss_owners st)" for k a
    using rows map_of_is_SomeI[OF wf that] by blast+
  have bo: "mset (me_byOwner (summarize lc svcs)) = mset (map (finish_owner \<circ> snd) (ss_owners st))"
    by (simp add: summarize_def Let_def st_def)
  then have bset: "set (me_byOwner (summarize lc svcs)) = set (map (finish_owner \<circ> snd) (ss_owners st))"
    by (metis set_mset_mset)
  have keys: "map (oa_key \<circ> (finish_owner \<circ> snd)) (ss_owners st) = map fst (ss_owners st)"
    using entry(2) by (intro map_cong) (auto simp: finish_owner_keeps)
  have "mset (map oa_key (me_byOwner (summarize lc svcs))) = mset (map fst (ss_owners st))"
    using bo keys by (metis list.map_comp mset_map)
  then have dk: "distinct (map oa_key (me_byOwner (summarize lc svcs)))"
      "set (map oa_key (me_byOwner (summarize lc svcs))) = set (map fst (ss_owners st))"
    using wf by (metis mset_eq_imp_distinct_iff, metis set_mset_mset)
  have ks: "set (map fst (ss_owners st)) = owner_group ` set svcs"
    using dom by (metis map_of_eq_None_iff set_map subsetI subset_antisym)
  have m: "me_counts (summarize lc svcs) = me_counts (ss_m st)" "me_total (summarize lc svcs) = length svcs"
      "me_assessed (summarize lc svcs) = assessed_of (me_counts (ss_m st))"
      "me_compliancePercent (summarize lc svcs) = share_of (me_counts (ss_m st))"
    by (simp_all add: summarize_def Let_def st_def me_total_fold sum_init_def)
  have mr: "readiness_ok n (me_readiness (summarize lc svcs)) = readiness_ok n (me_readiness (ss_m st))" for n
    by (simp add: summarize_def Let_def st_def readiness_ok_def)
  have row: "\<forall>a \<in> set (me_byOwner (summarize lc svcs)).
      oa_services a = length (filter (\<lambda>s. owner_group s = oa_key a) svcs) \<and> total_counts (oa_counts a) = oa_services a"
  proof
    fix a assume "a \<in> set (me_byOwner (summarize lc svcs))"
    then obtain k b where kb: "(k, b) \<in> set (ss_owners st)" "a = finish_owner b" unfolding bset by auto
    show "oa_services a = length (filter (\<lambda>s. owner_group s = oa_key a) svcs) \<and> total_counts (oa_counts a) = oa_services a"
      using entry[OF kb(1)] by (simp add: kb(2) finish_owner_keeps agg_ok_def)
  qed
  have share: "if assessed_of c = 0 then share_of c = - 1 else 0 \<le> share_of c \<and> share_of c \<le> 100" for c
    using share_bounds[of c] by auto
  show ?thesis
    unfolding Let_def m mr dk(2) ks using total ready dk(1) row share by blast
qed

theorem summarize_partitions_witness:
  "let svc = \<lparr> sv_status = Some ''Warning'', sv_blast = Some 4, sv_coverage = None,
       sv_owner = Some \<lparr> ow_team = Some ''core'', ow_dri = None, ow_contacts = None \<rparr>, sv_readiness = None \<rparr>;
       m = summarize (\<lambda>a b. 0) [svc, svc\<lparr> sv_status := Some ''Compliant'', sv_owner := None \<rparr>]
   in total_counts (me_counts m) = 2 \<and> set (map oa_key (me_byOwner m)) = {''team:core'', ''(unowned)''}"
  unfolding Let_def
  using summarize_partitions[of "\<lambda>a b. 0"
      "[\<lparr> sv_status = Some ''Warning'', sv_blast = Some 4, sv_coverage = None,
       sv_owner = Some \<lparr> ow_team = Some ''core'', ow_dri = None, ow_contacts = None \<rparr>, sv_readiness = None \<rparr>,
       \<lparr> sv_status = Some ''Compliant'', sv_blast = Some 4, sv_coverage = None, sv_owner = None, sv_readiness = None \<rparr>]",
      unfolded Let_def]
  by (simp add: owner_group_def ownerKey_def truthy_def UNOWNED_KEY_def)

end
