(* ===== verification/Visible.thy ===== *)
theory Visible
  imports GraphModel
begin

text \<open>
  What the dependency tree shows (\<open>lib/layout.ts\<close>, \<open>computeVisible\<close>): the breadth-first walk from
  the root, limited by depth, by the cap on children and by what the reader expanded, and how
  many children each shown node hides.  A cap of \<open>None\<close> is \<open>Infinity\<close>.
\<close>

section \<open>The walk\<close>

datatype direction = Down | Up

record visible_options =
  vo_rootId :: string
  vo_direction :: direction
  vo_depth :: int
  vo_expanded :: "string list"
  vo_childCap :: nat

definition add_child :: "direction \<Rightarrow> string list \<Rightarrow> string \<Rightarrow> string list dict \<Rightarrow> string \<Rightarrow> string list dict" where
  "add_child dir ids i kids t =
     (if t \<notin> set ids then kids
      else if dir = Down then AList.update i (set_add t (nullish (map_of kids i) [])) kids
      else AList.update t (set_add i (nullish (map_of kids t) [])) kids)"

definition children_of :: "direction \<Rightarrow> gnode list \<Rightarrow> string list dict" where
  "children_of dir all =
     foldl (\<lambda>kids n. foldl (add_child dir (map gn_id all) (gn_id n)) kids (targets_of n))
       (foldl (\<lambda>kids n. AList.update (gn_id n) [] kids) [] all) all"

text \<open>The children one node adds: those not visible yet, up to its cap.\<close>

fun show_children :: "nat option \<Rightarrow> string list \<Rightarrow> string list \<Rightarrow> nat \<Rightarrow> string list" where
  "show_children cap seen [] shown = []"
| "show_children cap seen (k # ks) shown =
     (if k \<in> set seen then show_children cap seen ks shown
      else if (case cap of Some c \<Rightarrow> c \<le> shown | None \<Rightarrow> False) then []
      else k # show_children cap (seen @ [k]) ks (Suc shown))"

definition shown_by :: "string list dict \<Rightarrow> visible_options \<Rightarrow> (string \<times> int) list \<Rightarrow> string \<times> int \<Rightarrow> string list" where
  "shown_by kids opts seen x =
     (case x of (i, d) \<Rightarrow>
        if i \<in> set (vo_expanded opts) \<or> d < vo_depth opts
        then show_children (if i \<in> set (vo_expanded opts) then None else Some (vo_childCap opts))
          (map fst seen) (nullish (map_of kids i) []) 0
        else [])"

lemma show_children_fresh:
  "set (show_children cap seen ks n) \<subseteq> set ks - set seen \<and> distinct (show_children cap seen ks n)"
  by (induction cap seen ks n rule: show_children.induct) auto

lemma children_in: "set (nullish (map_of kids i) []) \<subseteq> \<Union> (set ` snd ` set kids)"
proof (cases "map_of kids i")
  case (Some ks)
  then have "(i, ks) \<in> set kids" by (rule map_of_SomeD)
  then show ?thesis using Some by (force simp: nullish_def)
qed (simp add: nullish_def)

lemma shown_by_fresh:
  "set (shown_by kids opts seen x) \<subseteq> \<Union> (set ` snd ` set kids) - fst ` set seen \<and> distinct (shown_by kids opts seen x)"
proof -
  obtain i d where x: "x = (i, d)" by (rule prod.exhaust)
  show ?thesis
  proof (cases "i \<in> set (vo_expanded opts) \<or> d < vo_depth opts")
    case True
    then have s: "shown_by kids opts seen x = show_children (if i \<in> set (vo_expanded opts) then None else Some (vo_childCap opts))
        (map fst seen) (nullish (map_of kids i) []) 0" (is "_ = ?s")
      by (simp only: shown_by_def x prod.case if_True)
    have "set ?s \<subseteq> set (nullish (map_of kids i) []) - fst ` set seen" and d: "distinct ?s"
      using show_children_fresh[of _ "map fst seen"] by (simp_all only: set_map)
    then have "set ?s \<subseteq> \<Union> (set ` snd ` set kids) - fst ` set seen" using children_in[of kids i] by blast
    with d show ?thesis unfolding s by (rule conjI[rotated])
  next
    case False
    then have "shown_by kids opts seen x = []" by (simp only: shown_by_def x prod.case if_False)
    then show ?thesis by (simp only: list.set empty_subsetI distinct.simps simp_thms)
  qed
qed

text \<open>The visible nodes with their depths, in the order they became visible, and the queue.\<close>

function visible_bfs :: "string list dict \<Rightarrow> visible_options \<Rightarrow> (string \<times> int) list \<Rightarrow> (string \<times> int) list \<Rightarrow> (string \<times> int) list" where
  "visible_bfs kids opts seen [] = seen"
| "visible_bfs kids opts seen (x # queue) =
     (let new = map (\<lambda>k. (k, snd x + 1)) (shown_by kids opts seen x)
      in visible_bfs kids opts (seen @ new) (queue @ new))"
  by pat_completeness auto
termination
proof (relation "measures [\<lambda>(kids, opts, seen, q). card (\<Union> (set ` snd ` set kids) - fst ` set seen), \<lambda>(kids, opts, seen, q). length q]", goal_cases)
  case (2 kids opts seen x queue new)
  let ?U = "\<Union> (set ` snd ` set kids)" and ?s = "shown_by kids opts seen x"
  have n: "fst ` set new = set ?s" by (auto simp: 2 image_image)
  show ?case
  proof (cases "?s = []")
    case True
    then have "new = []" by (simp add: 2)
    then show ?thesis by simp
  next
    case False
    then obtain k where k: "k \<in> set ?s" by (cases ?s) auto
    have "k \<in> ?U - fst ` set seen" "k \<notin> ?U - fst ` set (seen @ new)"
      using shown_by_fresh[of kids opts seen x] k n by (blast, simp add: image_Un)
    then have "?U - fst ` set (seen @ new) \<subset> ?U - fst ` set seen" by auto
    then have "card (?U - fst ` set (seen @ new)) < card (?U - fst ` set seen)" by (intro psubset_card_mono) auto
    then show ?thesis by simp
  qed
qed simp

record visible_result =
  vr_nodes :: "gnode list"
  vr_hidden :: "nat dict"

definition hidden_count :: "string list dict \<Rightarrow> string list \<Rightarrow> string \<Rightarrow> nat" where
  "hidden_count kids vis i = length (filter (\<lambda>k. k \<notin> set vis) (nullish (map_of kids i) []))"

definition computeVisible :: "gnode list \<Rightarrow> visible_options \<Rightarrow> visible_result" where
  "computeVisible all opts =
     (case find (\<lambda>n. gn_id n = vo_rootId opts \<or> gn_serviceName n = vo_rootId opts) all of
        None \<Rightarrow> \<lparr> vr_nodes = [], vr_hidden = [] \<rparr>
      | Some root \<Rightarrow>
          let kids = children_of (vo_direction opts) all;
              vis = map fst (visible_bfs kids opts [(gn_id root, 0)] [(gn_id root, 0)])
          in \<lparr> vr_nodes = filter (\<lambda>n. gn_id n \<in> set vis) all,
               vr_hidden = map (\<lambda>i. (i, hidden_count kids vis i)) (filter (\<lambda>i. 0 < hidden_count kids vis i) vis) \<rparr>)"

section \<open>What the walk shows\<close>

lemma children_of_member:
  "t \<in> set (nullish (map_of (children_of dir all) i) []) \<longleftrightarrow>
     (if dir = Down then \<exists>n \<in> set all. gn_id n = i \<and> t \<in> set (targets_of n) \<and> t \<in> gn_id ` set all
      else \<exists>n \<in> set all. gn_id n = t \<and> i \<in> set (targets_of n) \<and> i \<in> gn_id ` set all)"
proof -
  let ?ids = "map gn_id all"
  define m where "m kids i = set (nullish (map_of kids i) [])" for kids :: "string list dict" and i
  have step: "t \<in> m (add_child dir ?ids j kids u) i \<longleftrightarrow>
      t \<in> m kids i \<or> u \<in> set ?ids \<and> (if dir = Down then i = j \<and> t = u else i = u \<and> t = j)" for j kids u
    by (auto simp: m_def add_child_def AList.update_conv')
  have inner: "t \<in> m (foldl (add_child dir ?ids j) kids us) i \<longleftrightarrow>
      t \<in> m kids i \<or> (\<exists>u \<in> set us. u \<in> set ?ids \<and> (if dir = Down then i = j \<and> t = u else i = u \<and> t = j))" for j kids us
    by (induction us arbitrary: kids) (auto simp: step)
  have outer: "t \<in> m (foldl (\<lambda>kids n. foldl (add_child dir ?ids (gn_id n)) kids (targets_of n)) kids ns) i \<longleftrightarrow>
      t \<in> m kids i \<or> (\<exists>n \<in> set ns. \<exists>u \<in> set (targets_of n). u \<in> set ?ids \<and> (if dir = Down then i = gn_id n \<and> t = u else i = u \<and> t = gn_id n))"
    for kids ns
    by (induction ns arbitrary: kids) (auto simp: inner)
  have init: "t \<notin> m (foldl (\<lambda>kids n. AList.update (gn_id n) [] kids) kids ns) i" if "t \<notin> m kids i" for kids ns
    using that
  proof (induction ns arbitrary: kids)
    case (Cons n ns)
    have "t \<notin> m (AList.update (gn_id n) [] kids) i" using Cons.prems by (simp add: m_def AList.update_conv')
    then show ?case using Cons.IH by simp
  qed simp
  have "t \<notin> m (foldl (\<lambda>kids n. AList.update (gn_id n) [] kids) [] all) i"
    by (rule init) (simp add: m_def nullish_def)
  then have "t \<in> m (children_of dir all) i \<longleftrightarrow>
      (\<exists>n \<in> set all. \<exists>u \<in> set (targets_of n). u \<in> set ?ids \<and> (if dir = Down then i = gn_id n \<and> t = u else i = u \<and> t = gn_id n))"
    by (simp only: children_of_def outer simp_thms)
  then show ?thesis unfolding m_def[symmetric] by (cases dir) auto
qed

definition allowed :: "visible_options \<Rightarrow> string \<times> int \<Rightarrow> bool" where
  "allowed opts x \<longleftrightarrow> fst x \<in> set (vo_expanded opts) \<or> snd x < vo_depth opts"

abbreviation kids_at :: "string list dict \<Rightarrow> string \<Rightarrow> string list" where
  "kids_at kids i \<equiv> nullish (map_of kids i) []"

text \<open>
  The state of the walk: the nodes already descended from, the queue behind them, and which node
  each one was first shown by.
\<close>

definition walk_ok :: "string list dict \<Rightarrow> visible_options \<Rightarrow> string \<Rightarrow> (string \<times> int) list \<Rightarrow> (string \<times> int) list \<Rightarrow> (string \<Rightarrow> string) \<Rightarrow> bool" where
  "walk_ok kids opts r pr q par \<longleftrightarrow>
     distinct (map fst (pr @ q)) \<and> (r, 0) \<in> set (pr @ q) \<and>
     (\<forall>k d. (k, d) \<in> set (pr @ q) \<longrightarrow> k \<noteq> r \<longrightarrow>
        (par k, d - 1) \<in> set pr \<and> k \<in> set (kids_at kids (par k)) \<and> allowed opts (par k, d - 1)) \<and>
     (\<forall>i d. (i, d) \<in> set pr \<longrightarrow> allowed opts (i, d) \<longrightarrow> i \<in> set (vo_expanded opts) \<or> length (kids_at kids i) \<le> vo_childCap opts \<longrightarrow>
        set (kids_at kids i) \<subseteq> fst ` set (pr @ q)) \<and>
     (\<forall>i. i \<notin> set (vo_expanded opts) \<longrightarrow> card {k \<in> fst ` set (pr @ q). k \<noteq> r \<and> par k = i} \<le> vo_childCap opts)"

lemma show_children_all:
  "(case cap of None \<Rightarrow> True | Some c \<Rightarrow> shown + length ks \<le> c) \<Longrightarrow> set ks \<subseteq> set seen \<union> set (show_children cap seen ks shown)"
  by (induction cap seen ks shown rule: show_children.induct) (auto split: option.splits)

lemma show_children_cap: "length (show_children (Some c) seen ks shown) \<le> c - shown"
  by (induction "Some c" seen ks shown rule: show_children.induct) auto

lemma shown_by_all:
  "allowed opts x \<Longrightarrow> fst x \<in> set (vo_expanded opts) \<or> length (kids_at kids (fst x)) \<le> vo_childCap opts \<Longrightarrow>
   set (kids_at kids (fst x)) \<subseteq> fst ` set seen \<union> set (shown_by kids opts seen x)"
  using show_children_all[where cap = None and shown = 0 and ks = "kids_at kids (fst x)" and seen = "map fst seen"]
    show_children_all[where cap = "Some (vo_childCap opts)" and shown = 0 and ks = "kids_at kids (fst x)" and seen = "map fst seen"]
  by (cases "fst x \<in> set (vo_expanded opts)"; cases x) (simp_all add: allowed_def shown_by_def)

lemma shown_by_cap: "fst x \<notin> set (vo_expanded opts) \<Longrightarrow> length (shown_by kids opts seen x) \<le> vo_childCap opts"
  using show_children_cap[of "vo_childCap opts" "map fst seen" "kids_at kids (fst x)" 0]
  by (cases x) (simp add: shown_by_def)

lemma shown_by_kid:
  "k \<in> set (shown_by kids opts seen x) \<Longrightarrow> k \<in> set (kids_at kids (fst x)) \<and> k \<notin> fst ` set seen \<and> allowed opts x"
  using show_children_fresh[of _ "map fst seen" "kids_at kids (fst x)" 0]
  by (cases x) (auto simp: shown_by_def allowed_def split: if_splits)

lemma shown_by_distinct: "distinct (shown_by kids opts seen x)"
  using shown_by_fresh by blast

lemma walk_ok_full:
  "walk_ok kids opts r W [] par \<Longrightarrow> (i, d) \<in> set W \<Longrightarrow> allowed opts (i, d) \<Longrightarrow>
   i \<in> set (vo_expanded opts) \<or> length (kids_at kids i) \<le> vo_childCap opts \<Longrightarrow> set (kids_at kids i) \<subseteq> fst ` set W"
  unfolding walk_ok_def append_Nil2 by blast

lemma walk_ok_step:
  assumes "walk_ok kids opts r pr (x # q) par"
  defines "new \<equiv> shown_by kids opts (pr @ x # q) x"
  shows "walk_ok kids opts r (pr @ [x]) (q @ map (\<lambda>k. (k, snd x + 1)) new) (\<lambda>k. if k \<in> set new then fst x else par k)"
    (is "walk_ok _ _ _ ?pr ?q ?par")
proof -
  let ?seen = "pr @ x # q"
  have all: "set (?pr @ ?q) = set ?seen \<union> (\<lambda>k. (k, snd x + 1)) ` set new" by auto
  have fsts: "fst ` set (?pr @ ?q) = fst ` set ?seen \<union> set new" unfolding all by (auto simp: image_Un image_image)
  have kid: "k \<in> set (kids_at kids (fst x)) \<and> k \<notin> fst ` set ?seen \<and> allowed opts x" if "k \<in> set new" for k
    using shown_by_kid that unfolding new_def by blast
  have inv: "distinct (map fst ?seen)" "(r, 0) \<in> set ?seen"
    "\<And>k d. (k, d) \<in> set ?seen \<Longrightarrow> k \<noteq> r \<Longrightarrow> (par k, d - 1) \<in> set pr \<and> k \<in> set (kids_at kids (par k)) \<and> allowed opts (par k, d - 1)"
    "\<And>i d. (i, d) \<in> set pr \<Longrightarrow> allowed opts (i, d) \<Longrightarrow> i \<in> set (vo_expanded opts) \<or> length (kids_at kids i) \<le> vo_childCap opts \<Longrightarrow>
        set (kids_at kids i) \<subseteq> fst ` set ?seen"
    "\<And>i. i \<notin> set (vo_expanded opts) \<Longrightarrow> card {k \<in> fst ` set ?seen. k \<noteq> r \<and> par k = i} \<le> vo_childCap opts"
    using assms(1) unfolding walk_ok_def by blast+
  have r: "r \<notin> set new" using kid inv(2) by force
  show ?thesis
    unfolding walk_ok_def fsts
  proof (intro conjI allI impI)
    have "distinct new" unfolding new_def by (rule shown_by_distinct)
    moreover have "set (map fst ?seen) \<inter> set new = {}" using kid unfolding set_map by blast
    ultimately have "distinct (map fst ?seen @ new)" using inv(1) unfolding distinct_append by blast
    moreover have "map fst (?pr @ ?q) = map fst ?seen @ new" by (simp add: comp_def)
    ultimately show "distinct (map fst (?pr @ ?q))" by (simp only:)
    show "(r, 0) \<in> set (?pr @ ?q)" using inv(2) all by blast
  next
    fix k d assume "(k, d) \<in> set (?pr @ ?q)" and "k \<noteq> r"
    then consider "k \<in> set new" "d = snd x + 1" | "(k, d) \<in> set ?seen" using all by auto
    then have "(?par k, d - 1) \<in> set ?pr \<and> k \<in> set (kids_at kids (?par k)) \<and> allowed opts (?par k, d - 1)"
    proof cases
      case 1
      then show ?thesis using kid by simp
    next
      case 2
      then have "k \<notin> set new" using kid by force
      then show ?thesis using inv(3)[OF 2 \<open>k \<noteq> r\<close>] by simp
    qed
    then show "(?par k, d - 1) \<in> set ?pr" "k \<in> set (kids_at kids (?par k))" "allowed opts (?par k, d - 1)" by blast+
  next
    fix i d assume "(i, d) \<in> set ?pr" "allowed opts (i, d)" "i \<in> set (vo_expanded opts) \<or> length (kids_at kids i) \<le> vo_childCap opts"
    then show "set (kids_at kids i) \<subseteq> fst ` set ?seen \<union> set new"
      using inv(4)[of i d] shown_by_all[of opts x kids ?seen] unfolding new_def by force
  next
    fix i assume i: "i \<notin> set (vo_expanded opts)"
    show "card {k \<in> fst ` set ?seen \<union> set new. k \<noteq> r \<and> ?par k = i} \<le> vo_childCap opts"
    proof (cases "i = fst x")
      case True
      have "par k \<noteq> i" if k: "k \<in> fst ` set ?seen" "k \<noteq> r" for k
      proof
        assume "par k = i"
        moreover obtain d where "(k, d) \<in> set ?seen" using k(1) by force
        ultimately have "i \<in> fst ` set pr" using inv(3)[of k d] k(2) by force
        then show False using inv(1) True by auto
      qed
      then have "{k \<in> fst ` set ?seen \<union> set new. k \<noteq> r \<and> ?par k = i} = set new" using True r by auto
      moreover have "card (set new) \<le> vo_childCap opts" using card_length shown_by_cap i True le_trans unfolding new_def by blast
      ultimately show ?thesis by simp
    next
      case False
      then have "{k \<in> fst ` set ?seen \<union> set new. k \<noteq> r \<and> ?par k = i} \<subseteq> {k \<in> fst ` set ?seen. k \<noteq> r \<and> par k = i}"
        by auto
      then have "card {k \<in> fst ` set ?seen \<union> set new. k \<noteq> r \<and> ?par k = i} \<le> card {k \<in> fst ` set ?seen. k \<noteq> r \<and> par k = i}"
        by (intro card_mono) auto
      then show ?thesis using inv(5)[OF i] by linarith
    qed
  qed
qed

lemma walk_ok_bfs:
  assumes "walk_ok kids opts r pr q par"
  shows "\<exists>par'. walk_ok kids opts r (visible_bfs kids opts (pr @ q) q) [] par'"
  using assms
proof (induction kids opts "pr @ q" q arbitrary: pr par rule: visible_bfs.induct)
  case (1 kids opts)
  then show ?case by auto
next
  case (2 kids opts x queue)
  let ?new = "shown_by kids opts (pr @ x # queue) x"
  have "\<exists>par'. walk_ok kids opts r (visible_bfs kids opts ((pr @ [x]) @ queue @ map (\<lambda>k. (k, snd x + 1)) ?new)
      (queue @ map (\<lambda>k. (k, snd x + 1)) ?new)) [] par'"
    by (rule 2(1)[OF refl _ walk_ok_step[OF 2(2)]]) simp
  then show ?case by (simp add: Let_def)
qed

lemma children_of_distinct: "distinct (kids_at (children_of dir all) i)"
proof -
  define good where "good kids \<longleftrightarrow> (\<forall>i. distinct (kids_at kids i))" for kids
  have add: "good kids \<Longrightarrow> good (add_child dir ids j kids u)" for ids j kids u
    by (auto simp: good_def add_child_def AList.update_conv' set_add_def)
  have inner: "good kids \<Longrightarrow> good (foldl (add_child dir ids j) kids us)" for ids j kids us
    by (induction us arbitrary: kids) (simp_all add: add)
  have outer: "good kids \<Longrightarrow> good (foldl (\<lambda>kids n. foldl (add_child dir ids (gn_id n)) kids (targets_of n)) kids ns)" for ids kids ns
    by (induction ns arbitrary: kids) (simp_all add: inner)
  have clear: "good kids \<Longrightarrow> good (foldl (\<lambda>kids n. AList.update (gn_id n) [] kids) kids ns)" for kids ns
  proof (induction ns arbitrary: kids)
    case (Cons n ns)
    have "good (AList.update (gn_id n) [] kids)" using Cons.prems by (simp add: good_def AList.update_conv')
    then show ?case using Cons.IH by simp
  qed simp
  have "good []" by (simp add: good_def nullish_def)
  then have "good (children_of dir all)" unfolding children_of_def by (intro outer clear)
  then show ?thesis by (simp add: good_def)
qed

text \<open>The child relation the direction gives, between nodes of the data only.\<close>

definition child_in :: "direction \<Rightarrow> gnode list \<Rightarrow> string \<Rightarrow> string \<Rightarrow> bool" where
  "child_in dir all i k \<longleftrightarrow>
     (\<exists>n \<in> set all. gn_id n = (if dir = Down then i else k) \<and> (if dir = Down then k else i) \<in> set (targets_of n)) \<and>
     (if dir = Down then k else i) \<in> gn_id ` set all"

lemma kids_at_child_in: "k \<in> set (kids_at (children_of dir all) i) \<longleftrightarrow> child_in dir all i k"
  unfolding children_of_member child_in_def by (cases dir) auto

lemma child_in_node: "child_in dir all i k \<Longrightarrow> k \<in> gn_id ` set all"
  unfolding child_in_def by (cases dir) auto

definition root_of :: "gnode list \<Rightarrow> visible_options \<Rightarrow> gnode option" where
  "root_of all opts = find (\<lambda>n. gn_id n = vo_rootId opts \<or> gn_serviceName n = vo_rootId opts) all"

lemma computeVisible_walk:
  assumes "root_of all opts = Some root"
  defines "W \<equiv> visible_bfs (children_of (vo_direction opts) all) opts [(gn_id root, 0)] [(gn_id root, 0)]"
  shows "gn_id ` set (vr_nodes (computeVisible all opts)) = fst ` set W \<and>
    (\<exists>par. walk_ok (children_of (vo_direction opts) all) opts (gn_id root) W [] par) \<and>
    (\<forall>i \<in> fst ` set W. map_of (vr_hidden (computeVisible all opts)) i =
       (let m = card {k. child_in (vo_direction opts) all i k \<and> k \<notin> fst ` set W} in if m = 0 then None else Some m))"
proof (intro conjI)
  let ?kids = "children_of (vo_direction opts) all"
  have "walk_ok ?kids opts (gn_id root) [] [(gn_id root, 0)] par" for par
    by (auto simp: walk_ok_def cong: conj_cong)
  from walk_ok_bfs[OF this] show walk: "\<exists>par. walk_ok ?kids opts (gn_id root) W [] par" by (simp add: W_def)
  then obtain par where w: "walk_ok ?kids opts (gn_id root) W [] par" by blast
  have root: "root \<in> set all" using assms(1) by (auto simp: root_of_def find_Some_iff)
  have ids: "k \<in> gn_id ` set all" if "k \<in> fst ` set W" for k
  proof (cases "k = gn_id root")
    case False
    obtain d where "(k, d) \<in> set W" using \<open>k \<in> fst ` set W\<close> by force
    then have "k \<in> set (kids_at ?kids (par k))" using w False by (simp add: walk_ok_def)
    then show ?thesis using kids_at_child_in child_in_node by blast
  qed (use root in simp)
  have nodes: "vr_nodes (computeVisible all opts) = filter (\<lambda>n. gn_id n \<in> fst ` set W) all"
    and hid: "vr_hidden (computeVisible all opts) = map (\<lambda>i. (i, hidden_count ?kids (map fst W) i)) (filter (\<lambda>i. 0 < hidden_count ?kids (map fst W) i) (map fst W))"
    using assms(1) by (simp_all add: computeVisible_def root_of_def W_def Let_def)
  show "gn_id ` set (vr_nodes (computeVisible all opts)) = fst ` set W"
  proof (intro equalityI subsetI)
    fix k assume "k \<in> fst ` set W"
    moreover from ids[OF this] obtain n where "n \<in> set all" "gn_id n = k" by blast
    ultimately show "k \<in> gn_id ` set (vr_nodes (computeVisible all opts))" unfolding nodes by (intro image_eqI[of _ _ n]) simp_all
  qed (auto simp: nodes)
  show "\<forall>i \<in> fst ` set W. map_of (vr_hidden (computeVisible all opts)) i =
       (let m = card {k. child_in (vo_direction opts) all i k \<and> k \<notin> fst ` set W} in if m = 0 then None else Some m)"
  proof
    fix i assume i: "i \<in> fst ` set W"
    have "hidden_count ?kids (map fst W) i = card (set (filter (\<lambda>k. k \<notin> fst ` set W) (kids_at ?kids i)))"
      unfolding distinct_card[OF distinct_filter[OF children_of_distinct]] by (simp add: hidden_count_def)
    also have "set (filter (\<lambda>k. k \<notin> fst ` set W) (kids_at ?kids i)) = {k. child_in (vo_direction opts) all i k \<and> k \<notin> fst ` set W}"
      using kids_at_child_in by auto
    finally have "hidden_count ?kids (map fst W) i = card {k. child_in (vo_direction opts) all i k \<and> k \<notin> fst ` set W}" .
    moreover have "map_of (vr_hidden (computeVisible all opts)) i =
        (if 0 < hidden_count ?kids (map fst W) i then Some (hidden_count ?kids (map fst W) i) else None)"
      unfolding hid map_of_map_restrict using i by (auto simp: restrict_map_def)
    ultimately show "map_of (vr_hidden (computeVisible all opts)) i =
        (let m = card {k. child_in (vo_direction opts) all i k \<and> k \<notin> fst ` set W} in if m = 0 then None else Some m)"
      by (simp only: Let_def) auto
  qed
qed

text \<open>C7: What the dependency tree shows when its root is found.  The root is shown; every other
  shown node was put there by a shown node one level above it that points at it (or, upwards, is
  pointed at by it) and that was allowed to descend, being expanded or above the depth limit; a
  node the reader did not expand puts at most the cap of children there; the number beside a
  shown node is exactly how many distinct children are not shown, and is absent when that is
  zero; and a node that is expanded, or that is above the depth limit with no more children than
  the cap, hides none.\<close>

theorem computeVisible_exact:
  assumes "root_of all opts = Some root"
  shows "\<exists>depth par. let shown = gn_id ` set (vr_nodes (computeVisible all opts)); hidden = vr_hidden (computeVisible all opts);
      child = child_in (vo_direction opts) all in
    gn_id root \<in> shown \<and> depth (gn_id root) = 0 \<and>
    (\<forall>k \<in> shown - {gn_id root}. par k \<in> shown \<and> child (par k) k \<and> depth k = depth (par k) + 1 \<and>
       (par k \<in> set (vo_expanded opts) \<or> depth (par k) < vo_depth opts)) \<and>
    (\<forall>i. i \<notin> set (vo_expanded opts) \<longrightarrow> card {k \<in> shown - {gn_id root}. par k = i} \<le> vo_childCap opts) \<and>
    (\<forall>i \<in> shown. map_of hidden i = (let m = card {k. child i k \<and> k \<notin> shown} in if m = 0 then None else Some m)) \<and>
    (\<forall>i \<in> shown. i \<in> set (vo_expanded opts) \<or> depth i < vo_depth opts \<and> card {k. child i k} \<le> vo_childCap opts \<longrightarrow>
       map_of hidden i = None)"
proof -
  let ?kids = "children_of (vo_direction opts) all"
  let ?shown = "gn_id ` set (vr_nodes (computeVisible all opts))"
  define W where "W = visible_bfs ?kids opts [(gn_id root, 0)] [(gn_id root, 0)]"
  note walk = computeVisible_walk[OF assms, folded W_def]
  from walk have shown: "?shown = fst ` set W" by (rule conjunct1)
  from walk obtain par where w: "walk_ok ?kids opts (gn_id root) W [] par" by blast
  have hidden: "\<forall>i \<in> ?shown. map_of (vr_hidden (computeVisible all opts)) i =
       (let m = card {k. child_in (vo_direction opts) all i k \<and> k \<notin> ?shown} in if m = 0 then None else Some m)"
    unfolding shown by (rule walk[THEN conjunct2, THEN conjunct2])
  define depth where "depth k = the (map_of W k)" for k
  have depth: "depth k = d" if "(k, d) \<in> set W" for k d
    using w that unfolding depth_def walk_ok_def by simp
  have at: "(i, depth i) \<in> set W" if "i \<in> ?shown" for i
    using that depth unfolding shown by force
  have root: "(gn_id root, 0) \<in> set W" using w by (simp add: walk_ok_def)
  have up: "par k \<in> ?shown \<and> child_in (vo_direction opts) all (par k) k \<and> depth k = depth (par k) + 1 \<and>
      (par k \<in> set (vo_expanded opts) \<or> depth (par k) < vo_depth opts)" if "k \<in> ?shown" "k \<noteq> gn_id root" for k
  proof -
    have "(par k, depth k - 1) \<in> set W \<and> k \<in> set (kids_at ?kids (par k)) \<and> allowed opts (par k, depth k - 1)"
      using w at[OF that(1)] that(2) unfolding walk_ok_def by simp
    moreover from this have "depth (par k) = depth k - 1" using depth by blast
    ultimately show ?thesis unfolding shown kids_at_child_in allowed_def by force
  qed
  have full: "map_of (vr_hidden (computeVisible all opts)) i = None"
    if i: "i \<in> ?shown" and a: "i \<in> set (vo_expanded opts) \<or> depth i < vo_depth opts \<and> card {k. child_in (vo_direction opts) all i k} \<le> vo_childCap opts" for i
  proof -
    have "{k. child_in (vo_direction opts) all i k} = set (kids_at ?kids i)" using kids_at_child_in by blast
    then have "card {k. child_in (vo_direction opts) all i k} = length (kids_at ?kids i)"
      using distinct_card[OF children_of_distinct] by simp
    then have "set (kids_at ?kids i) \<subseteq> ?shown"
      using walk_ok_full[OF w at[OF i]] a unfolding shown allowed_def by auto
    then have none: "{k. child_in (vo_direction opts) all i k \<and> k \<notin> ?shown} = {}" using kids_at_child_in by blast
    from hidden i have "map_of (vr_hidden (computeVisible all opts)) i =
       (let m = card {k. child_in (vo_direction opts) all i k \<and> k \<notin> ?shown} in if m = 0 then None else Some m)" by (rule bspec)
    then show ?thesis unfolding none by simp
  qed
  have few: "card {k \<in> ?shown - {gn_id root}. par k = i} \<le> vo_childCap opts" if "i \<notin> set (vo_expanded opts)" for i
  proof -
    have "{k \<in> ?shown - {gn_id root}. par k = i} = {k \<in> fst ` set (W @ []). k \<noteq> gn_id root \<and> par k = i}" unfolding shown by auto
    then show ?thesis using w that unfolding walk_ok_def by simp
  qed
  have "gn_id root \<in> ?shown" "depth (gn_id root) = 0" using root depth unfolding shown by force+
  then show ?thesis
    using hidden unfolding Let_def
    by (intro exI[of _ depth] exI[of _ par] conjI ballI allI impI few full) (use up in blast)+
qed

definition demo_tree :: "gnode list" where
  "demo_tree = [demo_node ''a'' [''b'', ''c''], demo_node ''b'' [''d''], demo_node ''c'' [], demo_node ''d'' []]"

definition demo_options :: visible_options where
  "demo_options = \<lparr> vo_rootId = ''a'', vo_direction = Down, vo_depth = 1, vo_expanded = [], vo_childCap = 1 \<rparr>"

theorem computeVisible_exact_witness:
  "root_of demo_tree demo_options = Some (demo_node ''a'' [''b'', ''c'']) \<and>
   computeVisible demo_tree demo_options =
     \<lparr> vr_nodes = [demo_node ''a'' [''b'', ''c''], demo_node ''b'' [''d'']], vr_hidden = [(''a'', 1), (''b'', 1)] \<rparr> \<and>
   (\<exists>depth par. depth ''a'' = (0::int) \<and> depth ''b'' = depth (par ''b'') + 1 \<and> par ''b'' \<in> {''a'', ''b''})"
proof (intro conjI)
  show root: "root_of demo_tree demo_options = Some (demo_node ''a'' [''b'', ''c''])" by code_simp
  show v: "computeVisible demo_tree demo_options =
     \<lparr> vr_nodes = [demo_node ''a'' [''b'', ''c''], demo_node ''b'' [''d'']], vr_hidden = [(''a'', 1), (''b'', 1)] \<rparr>" by code_simp
  show "\<exists>depth par. depth ''a'' = (0::int) \<and> depth ''b'' = depth (par ''b'') + 1 \<and> par ''b'' \<in> {''a'', ''b''}"
    using computeVisible_exact[OF root] unfolding v Let_def by (auto simp: demo_node_def plain_node_def)
qed

end
