(* ===== verification/Layout.thy ===== *)
theory Layout
  imports Neighborhood Numbers
begin

text \<open>
  Where a focused neighborhood is drawn (\<open>lib/graph.ts\<close>, \<open>laneLayout\<close>): the focus in the
  middle, what it depends on to its left, what uses it to its right, one column per rank.  Every
  coordinate is a whole number (half a row is 31), so positions are integers; the zoom the rows
  are chosen by is a quotient and is computed as the double it is.
\<close>

section \<open>Geometry\<close>

definition NODE_W :: int where "NODE_W = 164"

definition NODE_H :: int where "NODE_H = 42"

definition LANE_COL :: int where "LANE_COL = NODE_W + 20"

definition LANE_ROW :: int where "LANE_ROW = NODE_H + 20"

definition LANE_GAP :: int where "LANE_GAP = 60"

definition LANE_GAP_FAR :: int where "LANE_GAP_FAR = 150"

lemmas lane_consts = NODE_W_def NODE_H_def LANE_COL_def LANE_ROW_def LANE_GAP_def LANE_GAP_FAR_def LANE_CAP_def

definition laneRank :: "gnode \<Rightarrow> int" where
  "laneRank n =
     (let d = max 1 (nullish (gn_depth n) 1)
      in if d = 1 then 2 else if nullish (gn_group n) 0 \<noteq> 0 then 2 * d else 2 * d + 1)"

definition gapBefore :: "int \<Rightarrow> int" where
  "gapBefore rank = (if rank > 2 \<and> rank mod 2 = 0 then LANE_GAP_FAR else LANE_GAP)"

section \<open>Columns\<close>

type_synonym lane_pos = "(string \<times> (int \<times> int)) list"

type_synonym lane_cols = "(int \<times> string list) list"

definition lane_side :: "gnode \<Rightarrow> int" where
  "lane_side n = (if nullish (gn_side n) 0 = 0 then 1 else nullish (gn_side n) 0)"

definition lane_key :: "gnode \<Rightarrow> int" where
  "lane_key n = lane_side n * laneRank n"

definition is_focus :: "gnode \<Rightarrow> bool" where
  "is_focus n \<longleftrightarrow> max 0 (nullish (gn_depth n) 1) = 0"

definition is_lane_box :: "gnode \<Rightarrow> bool" where
  "is_lane_box n \<longleftrightarrow> gn_lane n = Some True"

definition lane_sorted :: "(string \<Rightarrow> string \<Rightarrow> int) \<Rightarrow> gnode list \<Rightarrow> gnode list" where
  "lane_sorted lc nodes =
     sort_by (then_cmp (\<lambda>a b. lc (or_else (gn_owner a) []) (or_else (gn_owner b) [])) (\<lambda>a b. lc (gn_id a) (gn_id b)))
       (filter (\<lambda>n. \<not> is_lane_box n) nodes)"

definition lane_assign :: "lane_cols \<times> lane_pos \<Rightarrow> gnode \<Rightarrow> lane_cols \<times> lane_pos" where
  "lane_assign cp n =
     (case cp of (cols, pos) \<Rightarrow>
        if is_focus n then (cols, AList.update (gn_id n) (0, 0) pos)
        else (AList.update (lane_key n) (nullish (map_of cols (lane_key n)) [] @ [gn_id n]) cols, pos))"

section \<open>How many rows a column has\<close>

text \<open>\<open>Math.ceil(c.length / r)\<close>.\<close>

definition sub_columns :: "nat \<Rightarrow> nat \<Rightarrow> nat" where
  "sub_columns n d = (n + d - 1) div d"

definition lane_zoom :: "lane_cols \<Rightarrow> int \<Rightarrow> int \<Rightarrow> nat \<Rightarrow> jsnum" where
  "lane_zoom cols w h r =
     (let subs = sum_list (map (\<lambda>c. sub_columns (length (snd c)) r) cols);
          gaps = sum_list (map (\<lambda>c. gapBefore \<bar>fst c\<bar>) cols)
      in num_min (num_div (nat w) (nat ((int subs + 1) * LANE_COL + gaps)))
           (num_div (nat h) (nat (int r * LANE_ROW + LANE_ROW div 2))))"

definition lane_best :: "lane_cols \<Rightarrow> int \<Rightarrow> int \<Rightarrow> nat \<times> jsnum \<Rightarrow> nat \<Rightarrow> nat \<times> jsnum" where
  "lane_best cols w h best r =
     (let zoom = lane_zoom cols w h r in if num_less (snd best) zoom then (r, zoom) else best)"

definition lane_rows :: "lane_cols \<Rightarrow> int \<Rightarrow> int \<Rightarrow> nat" where
  "lane_rows cols width height =
     (let tallest = Max (set (1 # map (length \<circ> snd) cols));
          w = max 1 (width - 60);
          h = max 1 (height - 60);
          lane = Max (set (0 # map (length \<circ> snd) (filter (\<lambda>c. \<bar>fst c\<bar> = 2) cols)));
          start = (if min lane LANE_CAP = 0 then 1 else min lane LANE_CAP)
      in fst (foldl (lane_best cols w h) (tallest, Fin (- 1) 0) [start..<Suc tallest]))"

section \<open>Placing the columns\<close>

definition chunk_y :: "nat \<Rightarrow> nat \<Rightarrow> nat \<Rightarrow> int" where
  "chunk_y len s i = LANE_ROW * int i - (LANE_ROW div 2) * (int len - 1) + (if odd s then LANE_ROW div 2 else 0)"

definition place_sub :: "int \<Rightarrow> nat \<Rightarrow> string list \<Rightarrow> int \<times> lane_pos \<Rightarrow> nat \<Rightarrow> int \<times> lane_pos" where
  "place_sub side rows ids xp s =
     (let x = fst xp + LANE_COL;
          chunk = slice (s * rows) ((s + 1) * rows) ids
      in (x, foldl (\<lambda>pos (i, id). AList.update id (side * x, chunk_y (length chunk) s i) pos) (snd xp) (enumerate 0 chunk)))"

definition place_col :: "lane_cols \<Rightarrow> nat \<Rightarrow> int \<Rightarrow> int \<times> lane_pos \<Rightarrow> int \<Rightarrow> int \<times> lane_pos" where
  "place_col cols rows side xp r =
     (case map_of cols (side * r) of
        None \<Rightarrow> xp
      | Some ids \<Rightarrow> foldl (place_sub side rows ids) (fst xp + gapBefore r, snd xp)
          (takeWhile (\<lambda>s. s * rows < length ids) [0..<length ids]))"

definition place_side :: "lane_cols \<Rightarrow> nat \<Rightarrow> lane_pos \<Rightarrow> int \<Rightarrow> lane_pos" where
  "place_side cols rows pos side =
     snd (foldl (place_col cols rows side) (0, pos) [2..Max (set (0 # map (abs \<circ> fst) cols))])"

definition laneLayout :: "(string \<Rightarrow> string \<Rightarrow> int) \<Rightarrow> gnode list \<Rightarrow> int \<Rightarrow> int \<Rightarrow> lane_pos" where
  "laneLayout lc nodes width height =
     (case foldl lane_assign ([], []) (lane_sorted lc nodes) of (cols, pos) \<Rightarrow>
        foldl (place_side cols (lane_rows cols width height)) pos [-1, 1])"

section \<open>One column\<close>

lemma lane_best_pos:
  "1 \<le> fst best \<Longrightarrow> \<forall>r \<in> set rs. 1 \<le> r \<Longrightarrow> 1 \<le> fst (foldl (lane_best cols w h) best rs)"
  by (induction rs arbitrary: best) (simp_all add: lane_best_def Let_def)

lemma lane_rows_pos: "1 \<le> lane_rows cols width height"
  unfolding lane_rows_def Let_def
proof (rule lane_best_pos)
  show "1 \<le> fst (Max (set (1 # map (length \<circ> snd) cols)), Fin (- 1) 0)"
    unfolding fst_conv by (intro Max_ge) auto
qed (auto simp: LANE_CAP_def)

lemma foldl_update_other:
  "k \<notin> set xs \<Longrightarrow> map_of (foldl (\<lambda>pos (i, id). AList.update id (f i) pos) pos (enumerate n xs)) k = map_of pos k"
  by (induction xs arbitrary: pos n) (auto simp: AList.update_conv')

lemma foldl_update_enum:
  "distinct xs \<Longrightarrow> i < length xs \<Longrightarrow>
     map_of (foldl (\<lambda>pos (i, id). AList.update id (f i) pos) pos (enumerate n xs)) (xs ! i) = Some (f (n + i))"
proof (induction xs arbitrary: pos n i)
  case (Cons x xs)
  show ?case
  proof (cases i)
    case 0
    then show ?thesis using Cons.prems by (simp add: foldl_update_other AList.update_conv')
  next
    case (Suc j)
    then show ?thesis using Cons.IH[of j] Cons.prems by simp
  qed
qed simp

definition apart :: "int \<times> int \<Rightarrow> int \<times> int \<Rightarrow> bool" where
  "apart p q \<longleftrightarrow> LANE_COL \<le> \<bar>fst p - fst q\<bar> \<or> LANE_ROW \<le> \<bar>snd p - snd q\<bar>"

definition spaced :: "int \<Rightarrow> int \<Rightarrow> (string \<Rightarrow> (int \<times> int) option) \<Rightarrow> bool" where
  "spaced side x at \<longleftrightarrow>
     (\<forall>a b p q. at a = Some p \<longrightarrow> at b = Some q \<longrightarrow> a \<noteq> b \<longrightarrow> apart p q) \<and> (\<forall>a p. at a = Some p \<longrightarrow> side * fst p \<le> x)"

lemma apart_sym: "apart p q \<longleftrightarrow> apart q p"
  by (simp add: apart_def abs_minus_commute)

lemma place_sub_at:
  assumes "distinct ids"
  shows "fst (place_sub side rows ids (x, pos) s) = x + LANE_COL"
    and "k \<notin> set (slice (s * rows) ((s + 1) * rows) ids) \<Longrightarrow> map_of (snd (place_sub side rows ids (x, pos) s)) k = map_of pos k"
    and "i < length (slice (s * rows) ((s + 1) * rows) ids) \<Longrightarrow>
      map_of (snd (place_sub side rows ids (x, pos) s)) (slice (s * rows) ((s + 1) * rows) ids ! i) =
        Some (side * (x + LANE_COL), chunk_y (length (slice (s * rows) ((s + 1) * rows) ids)) s i)"
proof -
  let ?c = "slice (s * rows) ((s + 1) * rows) ids"
  have d: "distinct ?c" using assms by (simp add: slice_def)
  show "fst (place_sub side rows ids (x, pos) s) = x + LANE_COL" by (simp add: place_sub_def Let_def)
  show "map_of (snd (place_sub side rows ids (x, pos) s)) k = map_of pos k" if "k \<notin> set ?c"
    using foldl_update_other[OF that, of "\<lambda>i. (side * (x + LANE_COL), chunk_y (length ?c) s i)" pos 0]
    by (simp add: place_sub_def Let_def)
  show "map_of (snd (place_sub side rows ids (x, pos) s)) (?c ! i) = Some (side * (x + LANE_COL), chunk_y (length ?c) s i)" if "i < length ?c"
    using foldl_update_enum[OF d that, of "\<lambda>i. (side * (x + LANE_COL), chunk_y (length ?c) s i)" pos 0]
    by (simp add: place_sub_def Let_def)
qed

lemma place_sub_spaced:
  assumes d: "distinct ids" and s1: "side * side = 1" and sp: "spaced side x (map_of pos)"
  shows "spaced side (x + LANE_COL) (map_of (snd (place_sub side rows ids (x, pos) s)))"
proof -
  let ?c = "slice (s * rows) ((s + 1) * rows) ids" and ?at = "map_of (snd (place_sub side rows ids (x, pos) s))"
  have new: "\<exists>i < length ?c. ?c ! i = k \<and> p = (side * (x + LANE_COL), chunk_y (length ?c) s i)" if "?at k = Some p" "k \<in> set ?c" for k p
  proof -
    from that(2) obtain i where "i < length ?c" "?c ! i = k" unfolding in_set_conv_nth by blast
    then show ?thesis using place_sub_at(3)[OF d, of i s rows side x pos] that(1) by auto
  qed
  have old: "map_of pos k = Some p" if "?at k = Some p" "k \<notin> set ?c" for k p
    using place_sub_at(2)[OF d that(2)] that(1) by simp
  have far: "apart (side * (x + LANE_COL), y) q" if "map_of pos b = Some q" for y b q
  proof -
    have "side * fst q \<le> x" using sp that unfolding spaced_def by blast
    moreover have "side = 1 \<or> side = -1" using s1 by (metis zmult_eq_1_iff)
    ultimately show ?thesis by (auto simp: apart_def)
  qed
  show ?thesis
    unfolding spaced_def
  proof (intro conjI allI impI)
    fix a p assume a: "?at a = Some p"
    show "side * fst p \<le> x + LANE_COL"
    proof (cases "a \<in> set ?c")
      case True
      then show ?thesis using new[OF a] s1 by (auto simp: mult.assoc[symmetric])
    next
      case False
      then have "side * fst p \<le> x" using old[OF a] sp unfolding spaced_def by blast
      then show ?thesis by (simp add: lane_consts)
    qed
    fix b q assume b: "?at b = Some q" and "a \<noteq> b"
    consider "a \<in> set ?c" "b \<in> set ?c" | "a \<in> set ?c" "b \<notin> set ?c" | "a \<notin> set ?c" "b \<in> set ?c" | "a \<notin> set ?c" "b \<notin> set ?c" by blast
    then show "apart p q"
    proof cases
      case 1
      from new[OF a 1(1)] obtain i where i: "?c ! i = a" and p: "p = (side * (x + LANE_COL), chunk_y (length ?c) s i)" by blast
      from new[OF b 1(2)] obtain j where j: "?c ! j = b" and q: "q = (side * (x + LANE_COL), chunk_y (length ?c) s j)" by blast
      have "i \<noteq> j" using i j \<open>a \<noteq> b\<close> by auto
      then have "LANE_ROW \<le> \<bar>chunk_y (length ?c) s i - chunk_y (length ?c) s j\<bar>" by (simp add: chunk_y_def lane_consts)
      then show ?thesis unfolding p q apart_def by simp
    next
      case 2
      then show ?thesis using new[OF a 2(1)] far[OF old[OF b 2(2)]] by blast
    next
      case 3
      then show ?thesis unfolding apart_sym[of p] using new[OF b 3(2)] far[OF old[OF a 3(1)]] by blast
    next
      case 4
      then show ?thesis using old[OF a 4(1)] old[OF b 4(2)] sp \<open>a \<noteq> b\<close> unfolding spaced_def by blast
    qed
  qed
qed

lemma slice_index:
  "j < length xs \<Longrightarrow> a \<le> j \<Longrightarrow> j < b \<Longrightarrow> j - a < length (slice a b xs) \<and> slice a b xs ! (j - a) = xs ! j"
  by (auto simp: slice_def)

lemma place_subs_at:
  fixes rows :: nat
  assumes d: "distinct ids" and s1: "side * side = 1" and sp: "spaced side x (map_of pos)"
  defines "f \<equiv> \<lambda>m. foldl (place_sub side rows ids) (x, pos) [0..<m]"
  shows "fst (f m) = x + int m * LANE_COL \<and> spaced side (fst (f m)) (map_of (snd (f m))) \<and>
    (\<forall>k. k \<notin> set ids \<longrightarrow> map_of (snd (f m)) k = map_of pos k) \<and>
    (\<forall>j. j < length ids \<longrightarrow> j < m * rows \<longrightarrow>
       (\<exists>p. map_of (snd (f m)) (ids ! j) = Some p \<and> x + LANE_COL \<le> side * fst p \<and> side * fst p \<le> fst (f m)))"
proof (induction m)
  case 0
  then show ?case using sp by (simp add: f_def)
next
  case (Suc m)
  obtain y pos' where f: "f m = (y, pos')" by (rule prod.exhaust)
  have step: "f (Suc m) = place_sub side rows ids (y, pos') m" using f by (simp add: f_def)
  let ?c = "slice (m * rows) ((m + 1) * rows) ids"
  have IH: "y = x + int m * LANE_COL" "spaced side y (map_of pos')" "\<And>k. k \<notin> set ids \<Longrightarrow> map_of pos' k = map_of pos k"
    "\<And>j. j < length ids \<Longrightarrow> j < m * rows \<Longrightarrow> \<exists>p. map_of pos' (ids ! j) = Some p \<and> x + LANE_COL \<le> side * fst p \<and> side * fst p \<le> y"
    using Suc unfolding f fst_conv snd_conv by blast+
  have sub: "set ?c \<subseteq> set ids" by (simp add: slice_def) (meson in_set_dropD in_set_takeD subsetI)
  show ?case
  proof (intro conjI allI impI)
    show "fst (f (Suc m)) = x + int (Suc m) * LANE_COL" unfolding step place_sub_at(1)[OF d] IH(1) by (simp add: algebra_simps)
    show "spaced side (fst (f (Suc m))) (map_of (snd (f (Suc m))))"
      unfolding step place_sub_at(1)[OF d] by (rule place_sub_spaced[OF d s1 IH(2)])
    show "map_of (snd (f (Suc m))) k = map_of pos k" if "k \<notin> set ids" for k
    proof -
      have "k \<notin> set ?c" using sub that by blast
      then show ?thesis unfolding step using place_sub_at(2)[OF d] IH(3)[OF that] by simp
    qed
    fix j assume j: "j < length ids" "j < Suc m * rows"
    show "\<exists>p. map_of (snd (f (Suc m))) (ids ! j) = Some p \<and> x + LANE_COL \<le> side * fst p \<and> side * fst p \<le> fst (f (Suc m))"
    proof (cases "ids ! j \<in> set ?c")
      case True
      then obtain i where "i < length ?c" "?c ! i = ids ! j" unfolding in_set_conv_nth by blast
      then have "map_of (snd (f (Suc m))) (ids ! j) = Some (side * (y + LANE_COL), chunk_y (length ?c) m i)"
        unfolding step using place_sub_at(3)[OF d, of i m rows side y pos'] by simp
      then show ?thesis unfolding step place_sub_at(1)[OF d] using IH(1) s1 by (auto simp: mult.assoc[symmetric] lane_consts)
    next
      case False
      have "\<not> m * rows \<le> j"
        using slice_index[of j ids "m * rows" "(m + 1) * rows"] j False by (metis Suc_eq_plus1 nth_mem)
      then obtain p where "map_of pos' (ids ! j) = Some p \<and> x + LANE_COL \<le> side * fst p \<and> side * fst p \<le> y" using IH(4)[OF j(1)] by auto
      then show ?thesis unfolding step place_sub_at(1)[OF d] using place_sub_at(2)[OF d False, of side y pos'] by (auto simp: lane_consts)
    qed
  qed
qed

lemma sub_columns_upt:
  assumes "1 \<le> rows"
  shows "\<exists>m. takeWhile (\<lambda>s. s * rows < n) [0..<n] = [0..<m] \<and> n \<le> m * rows"
proof -
  let ?P = "\<lambda>s. s * rows < n" and ?m = "length (takeWhile (\<lambda>s. s * rows < n) [0..<n])"
  have le: "?m \<le> n" using length_takeWhile_le[of ?P "[0..<n]"] by simp
  have "takeWhile ?P [0..<n] = take ?m [0..<n]" by (rule takeWhile_eq_take)
  then have "takeWhile ?P [0..<n] = [0..<?m]" using le by (simp add: take_upt)
  moreover have "n \<le> ?m * rows"
  proof (cases "?m = n")
    case False
    then show ?thesis using nth_length_takeWhile[of ?P "[0..<n]"] le by simp
  qed (use assms in simp)
  ultimately show ?thesis by blast
qed

lemma place_col_at:
  assumes rows: "1 \<le> rows" and s1: "side * side = 1" and sp: "spaced side x (map_of pos)"
    and d: "\<forall>ids. map_of cols (side * r) = Some ids \<longrightarrow> distinct ids"
  defines "f \<equiv> place_col cols rows side (x, pos) r"
  shows "x \<le> fst f \<and> spaced side (fst f) (map_of (snd f)) \<and>
    (\<forall>k. k \<notin> set (nullish (map_of cols (side * r)) []) \<longrightarrow> map_of (snd f) k = map_of pos k) \<and>
    (\<forall>k \<in> set (nullish (map_of cols (side * r)) []).
       \<exists>p. map_of (snd f) k = Some p \<and> x + LANE_GAP + LANE_COL \<le> side * fst p \<and> side * fst p \<le> fst f)"
proof (cases "map_of cols (side * r)")
  case None
  then show ?thesis using sp by (simp add: f_def place_col_def)
next
  case (Some ids)
  obtain m where m: "takeWhile (\<lambda>s. s * rows < length ids) [0..<length ids] = [0..<m]" "length ids \<le> m * rows"
    using sub_columns_upt[OF rows] by blast
  have gap: "LANE_GAP \<le> gapBefore r" "0 \<le> gapBefore r" by (simp_all add: gapBefore_def lane_consts)
  have f: "f = foldl (place_sub side rows ids) (x + gapBefore r, pos) [0..<m]"
    by (simp add: f_def place_col_def Some m(1))
  have "spaced side (x + gapBefore r) (map_of pos)" using sp gap(2) unfolding spaced_def by (meson add_increasing2 order_trans order_refl)
  note at = place_subs_at[OF d[rule_format, OF Some] s1 this, of rows m, folded f]
  have "x \<le> fst f" using at gap(2) by (simp add: lane_consts)
  moreover have "\<exists>p. map_of (snd f) k = Some p \<and> x + LANE_GAP + LANE_COL \<le> side * fst p \<and> side * fst p \<le> fst f" if kin: "k \<in> set ids" for k
  proof -
    obtain j where j: "j < length ids" "ids ! j = k" using kin unfolding in_set_conv_nth by blast
    then have "j < m * rows" using m(2) by linarith
    from at[THEN conjunct2, THEN conjunct2, THEN conjunct2, rule_format, OF j(1) this]
    obtain p where "map_of (snd f) k = Some p" "x + gapBefore r + LANE_COL \<le> side * fst p" "side * fst p \<le> fst f"
      unfolding j(2) by blast
    then show ?thesis using gap(1) by (intro exI[of _ p] conjI) linarith+
  qed
  moreover have "spaced side (fst f) (map_of (snd f))" "\<forall>k. k \<notin> set ids \<longrightarrow> map_of (snd f) k = map_of pos k"
    using at by blast+
  ultimately show ?thesis unfolding Some nullish_simps by blast
qed

section \<open>Both sides\<close>

abbreviation col_at :: "lane_cols \<Rightarrow> int \<Rightarrow> string set" where
  "col_at cols k \<equiv> set (nullish (map_of cols k) [])"

definition cols_ok :: "lane_cols \<Rightarrow> bool" where
  "cols_ok cols \<longleftrightarrow> (\<forall>k ids. map_of cols k = Some ids \<longrightarrow> distinct ids) \<and> (\<forall>k k'. k \<noteq> k' \<longrightarrow> col_at cols k \<inter> col_at cols k' = {})"

lemma cols_ok_D: "cols_ok cols \<Longrightarrow> map_of cols k = Some ids \<Longrightarrow> distinct ids"
  and cols_ok_disjoint: "cols_ok cols \<Longrightarrow> i \<in> col_at cols a \<Longrightarrow> i \<in> col_at cols b \<Longrightarrow> a = b"
  unfolding cols_ok_def by blast+

text \<open>The columns of one side from rank 2 to a rank: how far out each one is.\<close>

definition side_ok :: "lane_cols \<Rightarrow> int \<Rightarrow> (string \<Rightarrow> (int \<times> int) option) \<Rightarrow> int list \<Rightarrow> int \<Rightarrow> (string \<Rightarrow> (int \<times> int) option) \<Rightarrow> bool" where
  "side_ok cols side at0 rs x at \<longleftrightarrow>
     0 \<le> x \<and> spaced side x at \<and>
     (\<forall>k. (\<forall>r \<in> set rs. k \<notin> col_at cols (side * r)) \<longrightarrow> at k = at0 k) \<and>
     (\<forall>r \<in> set rs. \<forall>k \<in> col_at cols (side * r). \<exists>p. at k = Some p \<and> LANE_GAP + LANE_COL \<le> side * fst p \<and> side * fst p \<le> x) \<and>
     (\<forall>r \<in> set rs. \<forall>r' \<in> set rs. \<forall>k k' p q. r < r' \<longrightarrow> k \<in> col_at cols (side * r) \<longrightarrow> k' \<in> col_at cols (side * r') \<longrightarrow>
        at k = Some p \<longrightarrow> at k' = Some q \<longrightarrow> side * fst p + LANE_GAP + LANE_COL \<le> side * fst q)"

lemma side_ok_step:
  assumes rows: "1 \<le> rows" and s1: "side * side = 1" and ok: "cols_ok cols"
    and inv: "side_ok cols side at0 rs x (map_of pos)" and r: "\<forall>r' \<in> set rs. r' < r"
  defines "f \<equiv> place_col cols rows side (x, pos) r"
  shows "side_ok cols side at0 (rs @ [r]) (fst f) (map_of (snd f))"
proof -
  have x: "0 \<le> x" and sp: "spaced side x (map_of pos)"
    and other: "\<And>k. (\<forall>r \<in> set rs. k \<notin> col_at cols (side * r)) \<Longrightarrow> map_of pos k = at0 k"
    and pl: "\<And>r k. r \<in> set rs \<Longrightarrow> k \<in> col_at cols (side * r) \<Longrightarrow> \<exists>p. map_of pos k = Some p \<and> LANE_GAP + LANE_COL \<le> side * fst p \<and> side * fst p \<le> x"
    and ord: "\<And>r r' k k' p q. r \<in> set rs \<Longrightarrow> r' \<in> set rs \<Longrightarrow> r < r' \<Longrightarrow> k \<in> col_at cols (side * r) \<Longrightarrow> k' \<in> col_at cols (side * r') \<Longrightarrow>
        map_of pos k = Some p \<Longrightarrow> map_of pos k' = Some q \<Longrightarrow> side * fst p + LANE_GAP + LANE_COL \<le> side * fst q"
    using inv unfolding side_ok_def by blast+
  have d: "\<forall>ids. map_of cols (side * r) = Some ids \<longrightarrow> distinct ids" using cols_ok_D[OF ok] by blast
  note at = place_col_at[OF rows s1 sp d, folded f_def]
  have at1: "x \<le> fst f" and at2: "spaced side (fst f) (map_of (snd f))"
    and at3: "\<And>k. k \<notin> col_at cols (side * r) \<Longrightarrow> map_of (snd f) k = map_of pos k"
    and at4: "\<And>k. k \<in> col_at cols (side * r) \<Longrightarrow> \<exists>p. map_of (snd f) k = Some p \<and> x + LANE_GAP + LANE_COL \<le> side * fst p \<and> side * fst p \<le> fst f"
    using at by blast+
  have old: "map_of (snd f) k = map_of pos k" if "r' \<in> set rs" "k \<in> col_at cols (side * r')" for r' k
  proof (rule at3, rule notI)
    assume "k \<in> col_at cols (side * r)"
    then have "side * r' = side * r" using cols_ok_disjoint[OF ok that(2)] by blast
    then have "r' = r" using s1 by auto
    then show False using r that(1) by blast
  qed
  show ?thesis
    unfolding side_ok_def
  proof (intro conjI allI ballI impI)
    show "0 \<le> fst f" using x at1 by linarith
    show "spaced side (fst f) (map_of (snd f))" by (rule at2)
    show "map_of (snd f) k = at0 k" if "\<forall>r' \<in> set (rs @ [r]). k \<notin> col_at cols (side * r')" for k
      using that by (simp add: at3 other)
  next
    fix r' k assume "r' \<in> set (rs @ [r])" and k: "k \<in> col_at cols (side * r')"
    then consider "r' \<in> set rs" | "r' = r" by auto
    then show "\<exists>p. map_of (snd f) k = Some p \<and> LANE_GAP + LANE_COL \<le> side * fst p \<and> side * fst p \<le> fst f"
    proof cases
      case 1
      then show ?thesis using pl[OF 1 k] old[OF 1 k] at1 by fastforce
    next
      case 2
      then show ?thesis using at4[of k] k x by fastforce
    qed
  next
    fix r1 r2 k k' p q
    assume a: "r1 \<in> set (rs @ [r])" "r2 \<in> set (rs @ [r])" "r1 < r2" and k: "k \<in> col_at cols (side * r1)" and k': "k' \<in> col_at cols (side * r2)"
      and p: "map_of (snd f) k = Some p" and q: "map_of (snd f) k' = Some q"
    have 1: "r1 \<in> set rs" using a r by auto
    show "side * fst p + LANE_GAP + LANE_COL \<le> side * fst q"
    proof (cases "r2 = r")
      case True
      then show ?thesis using at4[of k'] k' q pl[OF 1 k] p old[OF 1 k] by fastforce
    next
      case False
      then have 2: "r2 \<in> set rs" using a by auto
      show ?thesis using ord[OF 1 2 a(3) k k'] p q old[OF 1 k] old[OF 2 k'] by simp
    qed
  qed
qed

lemma side_ok_cols:
  assumes rows: "1 \<le> rows" and s1: "side * side = 1" and ok: "cols_ok cols" and sp: "spaced side 0 (map_of pos)"
  shows "\<exists>x. side_ok cols side (map_of pos) [2..m] x (map_of (snd (foldl (place_col cols rows side) (0, pos) [2..m])))"
proof -
  have "side_ok cols side (map_of pos) rs (fst (foldl (place_col cols rows side) (0, pos) rs)) (map_of (snd (foldl (place_col cols rows side) (0, pos) rs)))"
    if "sorted_wrt (<) rs" for rs
    using that
  proof (induction rs rule: rev_induct)
    case Nil
    then show ?case using sp by (simp add: side_ok_def)
  next
    case (snoc r rs)
    then show ?case using side_ok_step[OF rows s1 ok, of "map_of pos" rs "fst (foldl (place_col cols rows side) (0, pos) rs)" "snd (foldl (place_col cols rows side) (0, pos) rs)" r]
      by (simp add: sorted_wrt_append)
  qed
  then show ?thesis using sorted_wrt_upto[of 2 m] by blast
qed

lemma assign_cols:
  "nullish (map_of (fst (foldl lane_assign cp ns)) k) [] =
   nullish (map_of (fst cp) k) [] @ map gn_id (filter (\<lambda>n. \<not> is_focus n \<and> lane_key n = k) ns)"
  by (induction ns arbitrary: cp) (auto simp: lane_assign_def AList.update_conv' split: prod.splits)

lemma assign_pos:
  "map_of (snd (foldl lane_assign cp ns)) a = (if \<exists>n \<in> set ns. is_focus n \<and> gn_id n = a then Some (0, 0) else map_of (snd cp) a)"
  by (induction ns arbitrary: cp) (auto simp: lane_assign_def AList.update_conv' split: prod.splits)

lemma assign_keys:
  "fst ` set (fst (foldl lane_assign cp ns)) = fst ` set (fst cp) \<union> lane_key ` {n \<in> set ns. \<not> is_focus n}"
proof (induction ns arbitrary: cp)
  case (Cons n ns)
  have "fst ` set (fst (lane_assign cp n)) = fst ` set (fst cp) \<union> (if is_focus n then {} else {lane_key n})"
    by (cases cp) (simp add: lane_assign_def dom_update)
  then show ?case using Cons.IH by auto
qed simp

lemma assign_ok:
  assumes "distinct (map gn_id ns)"
  shows "cols_ok (fst (foldl lane_assign ([], []) ns))"
  unfolding cols_ok_def
proof (intro conjI allI impI)
  let ?cols = "fst (foldl lane_assign ([], []) ns)"
  note at = assign_cols[of "([], [])" ns, unfolded fst_conv map_of.simps nullish_simps append_Nil]
  fix k show "distinct ids" if "map_of ?cols k = Some ids" for ids
    using at[of k] assms that by (simp add: distinct_map_filter)
  fix k' :: int assume ne: "k \<noteq> k'"
  have inj: "inj_on gn_id (set ns)" using assms by (simp add: distinct_map)
  show "col_at ?cols k \<inter> col_at ?cols k' = {}"
    unfolding at using ne inj by (auto dest: inj_onD)
qed

lemma laneRank_ge: "2 \<le> laneRank n"
  by (auto simp: laneRank_def Let_def max_def split: if_splits)

lemma lane_key_split: "lane_key n = sgn (lane_side n) * \<bar>lane_key n\<bar> \<and> 2 \<le> \<bar>lane_key n\<bar>"
proof -
  have "lane_side n \<noteq> 0" by (simp add: lane_side_def)
  then have s: "1 \<le> \<bar>lane_side n\<bar>" by linarith
  have "1 * 2 \<le> \<bar>lane_side n\<bar> * laneRank n" by (rule mult_mono) (use s laneRank_ge[of n] in auto)
  then have "2 \<le> \<bar>lane_key n\<bar>" using laneRank_ge[of n] by (simp add: lane_key_def abs_mult)
  moreover have "sgn (lane_key n) = sgn (lane_side n)" using laneRank_ge[of n] by (simp add: lane_key_def sgn_mult)
  ultimately show ?thesis by (metis sgn_mult_abs)
qed

text \<open>What the two passes leave: every node of a column on its side, and what they started from.\<close>

lemma two_sides:
  assumes rows: "1 \<le> rows" and ok: "cols_ok cols" and zero: "\<forall>a p. map_of pos a = Some p \<longrightarrow> p = (0, 0)"
    and one: "\<forall>a b p q. map_of pos a = Some p \<longrightarrow> map_of pos b = Some q \<longrightarrow> a = b"
  defines "m \<equiv> Max (set (0 # map (abs \<circ> fst) cols))"
  obtains x1 x2 mid where
    "side_ok cols (-1) (map_of pos) [2..m] x1 mid"
    "side_ok cols 1 mid [2..m] x2 (map_of (foldl (place_side cols rows) pos [-1, 1]))"
proof -
  have s0: "spaced (-1) 0 (map_of pos)" unfolding spaced_def using zero one by (metis fst_conv mult_zero_right order_refl)
  obtain x1 where x1: "side_ok cols (-1) (map_of pos) [2..m] x1 (map_of (place_side cols rows pos (-1)))"
    using side_ok_cols[OF rows _ ok s0, of m] by (auto simp: place_side_def m_def)
  have "fst p \<le> 0" if "map_of (place_side cols rows pos (-1)) a = Some p" for a p
  proof (cases "\<exists>r \<in> set [2..m]. a \<in> col_at cols (-1 * r)")
    case True
    then obtain q where "map_of (place_side cols rows pos (-1)) a = Some q" "LANE_GAP + LANE_COL \<le> -1 * fst q"
      using x1 unfolding side_ok_def by blast
    then show ?thesis using that by (simp add: lane_consts)
  next
    case False
    then have "map_of (place_side cols rows pos (-1)) a = map_of pos a" using x1 unfolding side_ok_def by blast
    then have "map_of pos a = Some p" using that by simp
    then have "p = (0, 0)" using zero by blast
    then show ?thesis by simp
  qed
  moreover have "\<forall>a b p q. map_of (place_side cols rows pos (-1)) a = Some p \<longrightarrow> map_of (place_side cols rows pos (-1)) b = Some q \<longrightarrow> a \<noteq> b \<longrightarrow> apart p q"
    using x1 unfolding side_ok_def spaced_def by blast
  ultimately have s1: "spaced 1 0 (map_of (place_side cols rows pos (-1)))" unfolding spaced_def by simp
  obtain x2 where "side_ok cols 1 (map_of (place_side cols rows pos (-1))) [2..m] x2 (map_of (place_side cols rows (place_side cols rows pos (-1)) 1))"
    using side_ok_cols[OF rows _ ok s1, of m] by (auto simp: place_side_def m_def)
  with x1 show thesis using that by simp
qed

definition placed :: "gnode list \<Rightarrow> gnode set" where
  "placed nodes = {n \<in> set nodes. \<not> is_lane_box n}"

lemma filter_at_most_one:
  assumes "length (filter P xs) \<le> 1" "x \<in> set xs" "y \<in> set xs" "P x" "P y"
  shows "x = y"
proof -
  have "x \<in> set (filter P xs)" "y \<in> set (filter P xs)" using assms by auto
  then show ?thesis using assms(1) by (cases "filter P xs") auto
qed

text \<open>Every column of either side, in what the layout returns.\<close>

lemma sides_final:
  assumes ok: "cols_ok cols" and m1: "side_ok cols (-1) at0 [2..m] x1 mid" and m2: "side_ok cols 1 mid [2..m] x2 at"
    and s: "s = 1 \<or> s = -1" and r: "r \<in> set [2..m]" and k: "k \<in> col_at cols (s * r)"
  shows "(s = -1 \<longrightarrow> at k = mid k) \<and> (\<exists>p. at k = Some p \<and> LANE_GAP + LANE_COL \<le> s * fst p)"
proof (cases "s = 1")
  case True
  then show ?thesis using m2 r k unfolding side_ok_def by fastforce
next
  case False
  then have s: "s = -1" using s by simp
  have "\<forall>r' \<in> set [2..m]. k \<notin> col_at cols (1 * r')"
  proof (intro ballI notI)
    fix r' assume "r' \<in> set [2..m]" "k \<in> col_at cols (1 * r')"
    then show False using cols_ok_disjoint[OF ok k] r s by fastforce
  qed
  then have "at k = mid k" using m2 unfolding side_ok_def by blast
  moreover have "\<exists>p. mid k = Some p \<and> LANE_GAP + LANE_COL \<le> s * fst p" using m1 r k unfolding side_ok_def s by blast
  ultimately show ?thesis by simp
qed

lemma sides_order:
  assumes ok: "cols_ok cols" and m1: "side_ok cols (-1) at0 [2..m] x1 mid" and m2: "side_ok cols 1 mid [2..m] x2 at"
    and s: "s = 1 \<or> s = -1" and r: "r \<in> set [2..m]" "r' \<in> set [2..m]" "r < r'"
    and k: "k \<in> col_at cols (s * r)" and k': "k' \<in> col_at cols (s * r')" and p: "at k = Some p" and q: "at k' = Some q"
  shows "s * fst p + LANE_GAP + LANE_COL \<le> s * fst q"
proof (cases "s = 1")
  case True
  have "1 * fst p + LANE_GAP + LANE_COL \<le> 1 * fst q" using m2 r k k' p q unfolding side_ok_def True by blast
  then show ?thesis using True by simp
next
  case False
  then have sm: "s = -1" using s by simp
  have "mid k = Some p" "mid k' = Some q" using sides_final[OF ok m1 m2 s] r k k' sm p q by metis+
  then show ?thesis using m1 r k k' unfolding side_ok_def sm by blast
qed

lemma laneLayout_sides:
  assumes "distinct (map gn_id (filter (\<lambda>n. \<not> is_lane_box n) nodes))" and "length (filter is_focus (filter (\<lambda>n. \<not> is_lane_box n) nodes)) \<le> 1"
  obtains cols at0 m x1 mid x2 where "cols_ok cols" and "side_ok cols (-1) at0 [2..m] x1 mid"
    and "side_ok cols 1 mid [2..m] x2 (map_of (laneLayout lc nodes width height))"
    and "\<forall>a. at0 a = (if \<exists>n \<in> placed nodes. is_focus n \<and> gn_id n = a then Some (0, 0) else None)"
    and "\<forall>k. col_at cols k = gn_id ` {n \<in> placed nodes. \<not> is_focus n \<and> lane_key n = k}"
    and "\<forall>n \<in> placed nodes. \<not> is_focus n \<longrightarrow> \<bar>lane_key n\<bar> \<in> set [2..m]"
proof -
  define ns where "ns = lane_sorted lc nodes"
  define cols where "cols = fst (foldl lane_assign ([], []) ns)"
  define pos where "pos = snd (foldl lane_assign ([], []) ns)"
  define m where "m = Max (set (0 # map (abs \<circ> fst) cols))"
  have set: "set ns = placed nodes" by (simp add: ns_def lane_sorted_def placed_def)
  have mset: "mset ns = mset (filter (\<lambda>n. \<not> is_lane_box n) nodes)" by (simp add: ns_def lane_sorted_def)
  have inj: "distinct (map gn_id ns)" using assms(1) mset by (metis mset_eq_imp_distinct_iff mset_map)
  then have ok: "cols_ok cols" unfolding cols_def by (rule assign_ok)
  have pos: "map_of pos a = (if \<exists>n \<in> placed nodes. is_focus n \<and> gn_id n = a then Some (0, 0) else None)" for a
    unfolding pos_def assign_pos set by simp
  have few: "length (filter is_focus ns) \<le> 1" using assms(2) mset by (metis mset_filter size_mset)
  have one: "n = n'" if "n \<in> placed nodes" "n' \<in> placed nodes" "is_focus n" "is_focus n'" for n n'
    by (rule filter_at_most_one[OF few _ _ that(3,4)]) (simp_all add: set that)
  have z: "\<forall>a p. map_of pos a = Some p \<longrightarrow> p = (0, 0)" unfolding pos by (simp split: if_splits)
  have u: "\<forall>a b p q. map_of pos a = Some p \<longrightarrow> map_of pos b = Some q \<longrightarrow> a = b"
    using one unfolding pos by (metis option.distinct(1))
  have lay: "laneLayout lc nodes width height = foldl (place_side cols (lane_rows cols width height)) pos [-1, 1]"
    by (simp add: laneLayout_def cols_def pos_def ns_def split: prod.splits)
  obtain x1 x2 mid where m1: "side_ok cols (-1) (map_of pos) [2..m] x1 mid" and m2: "side_ok cols 1 mid [2..m] x2 (map_of (laneLayout lc nodes width height))"
    unfolding lay m_def using two_sides[OF lane_rows_pos ok z u] by blast
  have col: "col_at cols k = gn_id ` {n \<in> placed nodes. \<not> is_focus n \<and> lane_key n = k}" for k
    unfolding cols_def assign_cols set[symmetric] by auto
  have "\<bar>lane_key n\<bar> \<in> set [2..m]" if "n \<in> placed nodes" "\<not> is_focus n" for n
  proof -
    have "lane_key n \<in> fst ` set cols" unfolding cols_def assign_keys set using that by simp
    then have "\<bar>lane_key n\<bar> \<in> abs ` fst ` set cols" by (rule imageI)
    then have "\<bar>lane_key n\<bar> \<le> m" unfolding m_def by (intro Max_ge) (simp_all add: image_comp)
    then show ?thesis using lane_key_split[of n] by simp
  qed
  then show thesis using that[OF ok m1 m2] pos col by blast
qed

text \<open>C6: The lane layout never stacks boxes.  With one id per node and one focus, every node that
  is not a lane box gets a place, and nothing else does; any two places are a column step apart
  horizontally or a row step apart vertically, both larger than a box; the focus is at the
  centre; every other node is on its own side of it, past the gap; and of two nodes on one side
  the one of the lower rank is nearer to the centre by at least a gap and a column.  This holds
  whatever the canvas, so whatever number of rows was chosen.\<close>

theorem laneLayout_apart:
  assumes "distinct (map gn_id (filter (\<lambda>n. \<not> is_lane_box n) nodes))" and "length (filter is_focus (filter (\<lambda>n. \<not> is_lane_box n) nodes)) \<le> 1"
  shows "let at = map_of (laneLayout lc nodes width height) in
    (\<forall>i. at i \<noteq> None \<longleftrightarrow> i \<in> gn_id ` placed nodes) \<and>
    (\<forall>a b p q. at a = Some p \<and> at b = Some q \<and> a \<noteq> b \<longrightarrow> NODE_W + 20 \<le> \<bar>fst p - fst q\<bar> \<or> NODE_H + 20 \<le> \<bar>snd p - snd q\<bar>) \<and>
    (\<forall>n \<in> placed nodes. \<exists>p. at (gn_id n) = Some p \<and>
       (if is_focus n then p = (0, 0) else sgn (fst p) = sgn (lane_side n) \<and> LANE_GAP + LANE_COL \<le> \<bar>fst p\<bar>)) \<and>
    (\<forall>n \<in> placed nodes. \<forall>n' \<in> placed nodes. \<forall>p q. \<not> is_focus n \<and> \<not> is_focus n' \<and> sgn (lane_side n) = sgn (lane_side n') \<and>
       \<bar>lane_key n\<bar> < \<bar>lane_key n'\<bar> \<and> at (gn_id n) = Some p \<and> at (gn_id n') = Some q \<longrightarrow> \<bar>fst p\<bar> + LANE_GAP + LANE_COL \<le> \<bar>fst q\<bar>)"
proof -
  let ?at = "map_of (laneLayout lc nodes width height)"
  obtain cols at0 m x1 mid x2 where ok: "cols_ok cols" and m1: "side_ok cols (-1) at0 [2..m] x1 mid" and m2: "side_ok cols 1 mid [2..m] x2 ?at"
    and at0: "\<forall>a. at0 a = (if \<exists>n \<in> placed nodes. is_focus n \<and> gn_id n = a then Some (0, 0) else None)"
    and cols: "\<forall>k. col_at cols k = gn_id ` {n \<in> placed nodes. \<not> is_focus n \<and> lane_key n = k}"
    and range: "\<forall>n \<in> placed nodes. \<not> is_focus n \<longrightarrow> \<bar>lane_key n\<bar> \<in> set [2..m]"
    by (rule laneLayout_sides[OF assms])
  have col: "gn_id n \<in> col_at cols (sgn (lane_side n) * \<bar>lane_key n\<bar>)" "sgn (lane_side n) = 1 \<or> sgn (lane_side n) = -1"
    if "n \<in> placed nodes" "\<not> is_focus n" for n
    using cols that lane_key_split[of n] by (auto simp: sgn_if lane_side_def)
  have node: "\<exists>n \<in> placed nodes. \<not> is_focus n \<and> gn_id n = i" if "i \<in> col_at cols k" for i k
    using that unfolding cols[rule_format] by blast
  have inj: "n = n'" if "n \<in> placed nodes" "n' \<in> placed nodes" "gn_id n = gn_id n'" for n n'
    using assms(1) that unfolding placed_def distinct_map by (auto dest: inj_onD)
  have start: "?at i = at0 i" if "\<forall>k. i \<notin> col_at cols k" for i
    using m1 m2 that unfolding side_ok_def by simp
  have foc: "?at (gn_id n) = Some (0, 0)" if "n \<in> placed nodes" "is_focus n" for n
  proof -
    have "gn_id n \<notin> col_at cols k" for k using node[of "gn_id n" k] inj that by blast
    then show ?thesis using start at0 that by auto
  qed
  have out: "\<exists>p. ?at (gn_id n) = Some p \<and> LANE_GAP + LANE_COL \<le> sgn (lane_side n) * fst p" if "n \<in> placed nodes" "\<not> is_focus n" for n
    using sides_final[OF ok m1 m2 col(2)[OF that] range[rule_format, OF that] col(1)[OF that]] by blast
  show ?thesis
    unfolding Let_def
  proof (intro conjI allI ballI impI)
    fix i show "(?at i \<noteq> None) = (i \<in> gn_id ` placed nodes)"
    proof
      assume "?at i \<noteq> None"
      then consider "at0 i \<noteq> None" | k where "i \<in> col_at cols k" using start[of i] by metis
      then show "i \<in> gn_id ` placed nodes"
      proof cases
        case 1
        then show ?thesis unfolding at0[rule_format] by (auto split: if_splits)
      next
        case 2
        then show ?thesis using node by blast
      qed
    next
      assume "i \<in> gn_id ` placed nodes"
      then show "?at i \<noteq> None" using foc out by fastforce
    qed
  next
    fix a b p q assume "?at a = Some p \<and> ?at b = Some q \<and> a \<noteq> b"
    then have "apart p q" using m2 unfolding side_ok_def spaced_def by blast
    then show "NODE_W + 20 \<le> \<bar>fst p - fst q\<bar> \<or> NODE_H + 20 \<le> \<bar>snd p - snd q\<bar>" by (simp only: apart_def LANE_COL_def LANE_ROW_def)
  next
    fix n assume n: "n \<in> placed nodes"
    show "\<exists>p. ?at (gn_id n) = Some p \<and> (if is_focus n then p = (0, 0) else sgn (fst p) = sgn (lane_side n) \<and> LANE_GAP + LANE_COL \<le> \<bar>fst p\<bar>)"
    proof (cases "is_focus n")
      case False
      obtain p where p: "?at (gn_id n) = Some p" "LANE_GAP + LANE_COL \<le> sgn (lane_side n) * fst p" using out[OF n False] by blast
      then have "sgn (fst p) = sgn (lane_side n) \<and> LANE_GAP + LANE_COL \<le> \<bar>fst p\<bar>" using col(2)[OF n False] by (auto simp: lane_consts)
      then show ?thesis using p(1) False by simp
    qed (use foc[OF n] in simp)
  next
    fix n n' p q
    assume n: "n \<in> placed nodes" "n' \<in> placed nodes" and a: "\<not> is_focus n \<and> \<not> is_focus n' \<and> sgn (lane_side n) = sgn (lane_side n') \<and>
       \<bar>lane_key n\<bar> < \<bar>lane_key n'\<bar> \<and> ?at (gn_id n) = Some p \<and> ?at (gn_id n') = Some q"
    then have f: "\<not> is_focus n" "\<not> is_focus n'" by blast+
    let ?s = "sgn (lane_side n)"
    have "?s * fst p + LANE_GAP + LANE_COL \<le> ?s * fst q"
      using sides_order[OF ok m1 m2 col(2)[OF n(1) f(1)] range[rule_format, OF n(1) f(1)] range[rule_format, OF n(2) f(2)] _ col(1)[OF n(1) f(1)]]
        col(1)[OF n(2) f(2)] a by simp
    moreover have "LANE_GAP + LANE_COL \<le> ?s * fst p" "LANE_GAP + LANE_COL \<le> ?s * fst q" using out[OF n(1) f(1)] out[OF n(2) f(2)] a by auto
    ultimately show "\<bar>fst p\<bar> + LANE_GAP + LANE_COL \<le> \<bar>fst q\<bar>" using col(2)[OF n(1) f(1)] by (auto simp: lane_consts)
  qed
qed

definition demo_lanes :: "gnode list" where
  "demo_lanes = [(plain_node ''f'' ''f'' [])\<lparr> gn_depth := Some 0 \<rparr>, (plain_node ''a'' ''a'' [])\<lparr> gn_depth := Some 1, gn_side := Some (-1) \<rparr>,
     (plain_node ''b'' ''b'' [])\<lparr> gn_depth := Some 1 \<rparr>, (plain_node ''c'' ''c'' [])\<lparr> gn_depth := Some 2 \<rparr>]"

theorem laneLayout_apart_witness:
  "distinct (map gn_id (filter (\<lambda>n. \<not> is_lane_box n) demo_lanes)) \<and> length (filter is_focus (filter (\<lambda>n. \<not> is_lane_box n) demo_lanes)) \<le> 1 \<and>
   (let at = map_of (laneLayout (\<lambda>a b. 0) demo_lanes 1000 600)
    in at ''f'' = Some (0, 0) \<and> (\<exists>p. at ''a'' = Some p \<and> sgn (fst p) = -1) \<and> at ''x'' = None)"
proof -
  have 1: "distinct (map gn_id (filter (\<lambda>n. \<not> is_lane_box n) demo_lanes))" by code_simp
  have 2: "length (filter is_focus (filter (\<lambda>n. \<not> is_lane_box n) demo_lanes)) \<le> 1" by code_simp
  have pl: "placed demo_lanes = set demo_lanes"
  proof -
    have "list_all (\<lambda>n. \<not> is_lane_box n) demo_lanes" by code_simp
    then show ?thesis by (auto simp: placed_def list_all_iff)
  qed
  let ?at = "map_of (laneLayout (\<lambda>a b. 0) demo_lanes 1000 600)"
  note th = laneLayout_apart[OF 1 2, of "\<lambda>a b. 0" 1000 600, unfolded Let_def pl]
  have "\<exists>p. ?at (gn_id n) = Some p \<and> (if is_focus n then p = (0, 0) else sgn (fst p) = sgn (lane_side n) \<and> LANE_GAP + LANE_COL \<le> \<bar>fst p\<bar>)"
    if "n \<in> set demo_lanes" for n by (rule th[THEN conjunct2, THEN conjunct2, THEN conjunct1, rule_format, OF that])
  from this[of "demo_lanes ! 0"] this[of "demo_lanes ! 1"]
  have "?at ''f'' = Some (0, 0)" "\<exists>p. ?at ''a'' = Some p \<and> sgn (fst p) = -1"
    by (auto simp: demo_lanes_def plain_node_def is_focus_def lane_side_def)
  moreover have "''x'' \<notin> gn_id ` set demo_lanes" by (simp add: demo_lanes_def plain_node_def)
  then have "?at ''x'' = None" using th[THEN conjunct1, rule_format, of "''x''"] by blast
  ultimately show ?thesis using 1 2 by (simp add: Let_def)
qed

end
