(* ===== verification/Json.thy ===== *)
theory Json
  imports Numbers
begin

text \<open>
  JSON values as the release scripts handle them, their text (\<open>JSON.stringify\<close>) and the canonical
  form behind every release hash (\<open>release/orchestrator/canonical.mjs\<close>).  An object is the list of
  its own properties in enumeration order.  A number's text is the decimal of an integer below
  \<open>2 ^ 53\<close>; for every other finite number it is the parameter \<open>dtoa\<close> (the language's
  \<open>Number::toString\<close>).
\<close>

section \<open>Values\<close>

datatype json = JNull | JBool bool | JNum jsnum | JStr string | JArr "json list" | JObj "(string \<times> json) list"

text \<open>\<open>v[k]\<close>: \<open>None\<close> is \<open>undefined\<close>.\<close>

fun json_get :: "json \<Rightarrow> string \<Rightarrow> json option" where
  "json_get (JObj kvs) k = map_of kvs k"
| "json_get v k = None"

text \<open>\<open>typeof v === 'object'\<close> and not \<open>null\<close>; and \<open>v?.[k]\<close>.\<close>

fun is_object :: "json option \<Rightarrow> bool" where
  "is_object (Some (JObj _)) = True"
| "is_object (Some (JArr _)) = True"
| "is_object _ = False"

abbreviation field :: "json option \<Rightarrow> string \<Rightarrow> json option" where
  "field v k \<equiv> Option.bind v (\<lambda>j. json_get j k)"

text \<open>A value in a condition.\<close>

fun json_truthy :: "json option \<Rightarrow> bool" where
  "json_truthy None = False"
| "json_truthy (Some JNull) = False"
| "json_truthy (Some (JBool b)) = b"
| "json_truthy (Some (JNum x)) = (x \<noteq> NaN \<and> (case x of Fin m e \<Rightarrow> m \<noteq> 0 | _ \<Rightarrow> True))"
| "json_truthy (Some (JStr s)) = (s \<noteq> [])"
| "json_truthy (Some (JArr _)) = True"
| "json_truthy (Some (JObj _)) = True"

section \<open>Key order\<close>

text \<open>
  An array index among the keys: the decimal of a number below \<open>2 ^ 32 - 1\<close>.  An object lists
  these first, by value, and then the other keys in the order they were added.
\<close>

definition is_index :: "string \<Rightarrow> bool" where
  "is_index k \<longleftrightarrow> k \<noteq> [] \<and> list_all is_digit k \<and> show_nat (read_digits k) = k \<and> int (read_digits k) < 4294967295"

definition own_order :: "(string \<times> 'a) list \<Rightarrow> (string \<times> 'a) list" where
  "own_order kvs =
     sort_by (\<lambda>a b. int (read_digits (fst a)) - int (read_digits (fst b))) (filter (\<lambda>kv. is_index (fst kv)) kvs) @
     filter (\<lambda>kv. \<not> is_index (fst kv)) kvs"

text \<open>\<open>Object.fromEntries\<close>.\<close>

definition from_entries :: "(string \<times> 'a) list \<Rightarrow> (string \<times> 'a) list" where
  "from_entries kvs = own_order (foldl (\<lambda>m kv. AList.update (fst kv) (snd kv) m) [] kvs)"

section \<open>The canonical form\<close>

definition sort_keys :: "(string \<times> 'a) list \<Rightarrow> (string \<times> 'a) list" where
  "sort_keys = sort_by (\<lambda>a b. str_cmp (fst a) (fst b))"

fun stable :: "json \<Rightarrow> json" where
  "stable (JArr xs) = JArr (map stable xs)"
| "stable (JObj kvs) = JObj (from_entries (sort_keys (map (map_prod id stable) kvs)))"
| "stable v = v"

section \<open>Text\<close>

definition hex_low :: "nat \<Rightarrow> char" where
  "hex_low n = (if n < 10 then char_of (48 + n) else char_of (87 + n))"

definition json_esc :: "char \<Rightarrow> string" where
  "json_esc c =
     (if c = CHR 0x22 then [CHR 0x5C, CHR 0x22]
      else if c = CHR 0x5C then [CHR 0x5C, CHR 0x5C]
      else if c = CHR 0x08 then [CHR 0x5C, CHR ''b'']
      else if c = CHR 0x0C then [CHR 0x5C, CHR ''f'']
      else if c = CHR 0x0A then [CHR 0x5C, CHR ''n'']
      else if c = CHR 0x0D then [CHR 0x5C, CHR ''r'']
      else if c = CHR 0x09 then [CHR 0x5C, CHR ''t'']
      else if (of_char c :: nat) < 32 then [CHR 0x5C] @ ''u00'' @ [hex_low (of_char c div 16), hex_low (of_char c mod 16)]
      else [c])"

definition json_quote :: "string \<Rightarrow> string" where
  "json_quote s = [CHR 0x22] @ concat (map json_esc s) @ [CHR 0x22]"

definition num_text :: "(jsnum \<Rightarrow> string) \<Rightarrow> jsnum \<Rightarrow> string" where
  "num_text dtoa x =
     (case x of
        NaN \<Rightarrow> ''NaN''
      | Inf neg \<Rightarrow> if neg then ''-Infinity'' else ''Infinity''
      | Fin m e \<Rightarrow>
          if \<bar>m\<bar> * 2 ^ nat e < 2 ^ 53 * 2 ^ nat (- e) \<and> (0 \<le> e \<or> m mod 2 ^ nat (- e) = 0) then show_int (fin_trunc m e)
          else dtoa x)"

fun stringify :: "(jsnum \<Rightarrow> string) \<Rightarrow> json \<Rightarrow> string" where
  "stringify dtoa JNull = ''null''"
| "stringify dtoa (JBool b) = (if b then ''true'' else ''false'')"
| "stringify dtoa (JNum x) = (case x of Fin _ _ \<Rightarrow> num_text dtoa x | _ \<Rightarrow> ''null'')"
| "stringify dtoa (JStr s) = json_quote s"
| "stringify dtoa (JArr xs) = ''['' @ join '','' (map (stringify dtoa) xs) @ '']''"
| "stringify dtoa (JObj kvs) = ''{'' @ join '','' (map (\<lambda>(k, v). json_quote k @ '':'' @ stringify dtoa v) kvs) @ ''}''"

section \<open>The text determines the value\<close>

lemma hex_low_inj: "a < 16 \<Longrightarrow> b < 16 \<Longrightarrow> hex_low a = hex_low b \<longleftrightarrow> a = b"
  by (auto simp: hex_low_def char_of_eq_iff of_char_eq_iff take_bit_nat_eq_self split: if_splits)

lemma json_esc_cases:
  "(json_esc c = [c] \<and> c \<noteq> CHR 0x22 \<and> c \<noteq> CHR 0x5C) \<or> (\<exists>d. json_esc c = [CHR 0x5C, d] \<and> d \<noteq> CHR ''u'') \<or>
   (\<exists>r. json_esc c = [CHR 0x5C, CHR ''u''] @ r)"
  by (auto simp: json_esc_def)

lemma json_esc_quote: "json_esc c @ r \<noteq> CHR 0x22 # r'"
  using json_esc_cases[of c] by auto

lemma json_esc_prefix: "json_esc c @ r = json_esc d @ r' \<Longrightarrow> c = d \<and> r = r'"
proof -
  assume a: "json_esc c @ r = json_esc d @ r'"
  have hex: "c = d" if "(of_char c :: nat) div 16 = of_char d div 16" "(of_char c :: nat) mod 16 = of_char d mod 16"
    using that by (metis div_mult_mod_eq of_char_eq_iff)
  show ?thesis
    using a hex by (auto simp: json_esc_def hex_low_inj split: if_splits)
qed

lemma json_body_prefix:
  "concat (map json_esc a) @ CHR 0x22 # r = concat (map json_esc b) @ CHR 0x22 # r' \<Longrightarrow> a = b \<and> r = r'"
proof (induction a arbitrary: b)
  case Nil
  show ?case
  proof (cases b)
    case (Cons d b')
    then show ?thesis using Nil json_esc_quote[of d "concat (map json_esc b') @ CHR 0x22 # r'" r] by simp
  qed (use Nil in simp)
next
  case (Cons c a)
  show ?case
  proof (cases b)
    case Nil
    then show ?thesis using Cons.prems json_esc_quote[of c "concat (map json_esc a) @ CHR 0x22 # r" r'] by simp
  next
    case (Cons d b')
    then show ?thesis using Cons.prems Cons.IH[of b'] json_esc_prefix[of c _ d] by auto
  qed
qed

lemma json_quote_prefix: "json_quote a @ r = json_quote b @ r' \<Longrightarrow> a = b \<and> r = r'"
  using json_body_prefix[of a r b r'] by (simp add: json_quote_def)

fun no_nums :: "json \<Rightarrow> bool" where
  "no_nums (JNum _) = False"
| "no_nums (JArr xs) = list_all no_nums xs"
| "no_nums (JObj kvs) = list_all (\<lambda>(_, v). no_nums v) kvs"
| "no_nums v = True"

lemma join_prefix:
  assumes "\<And>x y r r'. x \<in> set xs \<Longrightarrow> y \<in> set ys \<Longrightarrow> f x @ r = f y @ r' \<Longrightarrow> x = y \<and> r = r'"
    and "\<And>x r r'. x \<in> set xs \<union> set ys \<Longrightarrow> f x @ r \<noteq> c # r'" and "c \<noteq> CHR '',''"
  shows "join '','' (map f xs) @ c # r = join '','' (map f ys) @ c # r' \<Longrightarrow> xs = ys \<and> r = r'"
  using assms(1,2)
proof (induction xs arbitrary: ys)
  case Nil
  show ?case
  proof (cases ys)
    case (Cons y ys')
    have "\<exists>t. join '','' (map f ys) = f y @ t" using Cons by (cases ys') auto
    then obtain t where "join '','' (map f ys) = f y @ t" by blast
    then show ?thesis using Nil.prems(1) Nil.prems(3)[of y "t @ c # r'" r] Cons by simp
  qed (use Nil in simp)
next
  case (Cons x xs)
  obtain y ys' where ys: "ys = y # ys'"
  proof (cases ys)
    case Nil
    have "\<exists>t. join '','' (map f (x # xs)) = f x @ t" by (cases xs) auto
    then obtain t where "join '','' (map f (x # xs)) = f x @ t" by blast
    then show ?thesis using Cons.prems(1) Cons.prems(3)[of x "t @ c # r" r'] Nil by simp
  qed
  let ?rest = "\<lambda>zs r. if zs = [] then c # r else CHR '','' # join '','' (map f zs) @ c # r"
  have split: "join '','' (map f (z # zs)) @ c # r = f z @ ?rest zs r" for z zs r by (cases zs) auto
  have eq: "x = y \<and> ?rest xs r = ?rest ys' r'"
    using Cons.prems(1) unfolding ys split by (intro Cons.prems(2)) (auto simp: ys)
  then show ?case
  proof (cases "xs = [] \<or> ys' = []")
    case True
    then show ?thesis using eq assms(3) ys by (auto split: if_splits)
  next
    case False
    then have "join '','' (map f xs) @ c # r = join '','' (map f ys') @ c # r'" using eq by simp
    then have "xs = ys' \<and> r = r'" by (rule Cons.IH) (use Cons.prems(2,3) ys in auto)
    then show ?thesis using eq ys by simp
  qed
qed

lemma stringify_start: "no_nums v \<Longrightarrow> \<exists>c s. stringify dtoa v = c # s \<and> c \<in> {CHR ''n'', CHR ''t'', CHR ''f'', CHR 0x22, CHR ''['', CHR ''{''}"
  by (cases v) (auto simp: json_quote_def)

lemma stringify_prefix:
  "no_nums v \<Longrightarrow> no_nums w \<Longrightarrow> stringify dtoa v @ r = stringify dtoa w @ r' \<Longrightarrow> v = w \<and> r = r'"
proof (induction v arbitrary: w r r')
  case JNull
  then show ?case by (cases w) (auto simp: json_quote_def split: if_splits)
next
  case (JBool b)
  then show ?case by (cases w) (auto simp: json_quote_def split: if_splits)
next
  case (JNum x)
  then show ?case by simp
next
  case (JStr s)
  then show ?case using json_quote_prefix[of s r] by (cases w) (auto simp: json_quote_def split: if_splits)
next
  case (JArr xs)
  show ?case
  proof (cases w)
    case [simp]: (JArr ys)
    have "xs = ys \<and> r = r'"
    proof (rule join_prefix)
      show "join '','' (map (stringify dtoa) xs) @ CHR '']'' # r = join '','' (map (stringify dtoa) ys) @ CHR '']'' # r'" using JArr.prems(3) by simp
      show "x = y \<and> q = q'" if "x \<in> set xs" "y \<in> set ys" "stringify dtoa x @ q = stringify dtoa y @ q'" for x y q q'
        using JArr.IH[OF that(1) _ _ that(3)] JArr.prems(1,2) that by (auto simp: list_all_iff)
      show "stringify dtoa x @ q \<noteq> CHR '']'' # q'" if "x \<in> set xs \<union> set ys" for x q q'
        using stringify_start[of x dtoa] JArr.prems(1,2) that by (fastforce simp: list_all_iff)
    qed simp
    then show ?thesis by simp
  qed (use JArr.prems in \<open>auto simp: json_quote_def split: if_splits\<close>)
next
  case (JObj kvs)
  show ?case
  proof (cases w)
    case [simp]: (JObj lws)
    let ?f = "\<lambda>(k, v). json_quote k @ '':'' @ stringify dtoa v"
    have "kvs = lws \<and> r = r'"
    proof (rule join_prefix)
      show "join '','' (map ?f kvs) @ CHR ''}'' # r = join '','' (map ?f lws) @ CHR ''}'' # r'" using JObj.prems(3) by simp
      show "x = y \<and> q = q'" if xy: "x \<in> set kvs" "y \<in> set lws" and e: "?f x @ q = ?f y @ q'" for x y q q'
      proof -
        obtain k v l u where [simp]: "x = (k, v)" "y = (l, u)" by (meson surj_pair)
        have "k = l \<and> '':'' @ stringify dtoa v @ q = '':'' @ stringify dtoa u @ q'" using e by (intro json_quote_prefix) simp
        moreover have "v = u \<and> q = q'" using JObj.IH[of "(k, v)" v u q q'] calculation xy JObj.prems(1,2) by (auto simp: list_all_iff)
        ultimately show ?thesis by simp
      qed
      show "?f x @ q \<noteq> CHR ''}'' # q'" for x q q' by (cases x) (simp add: json_quote_def)
    qed simp
    then show ?thesis by simp
  qed (use JObj.prems in \<open>auto simp: json_quote_def split: if_splits\<close>)
qed

section \<open>The canonical form depends on the content alone\<close>

lemma byte_rank_inj: "byte_rank a = byte_rank b \<Longrightarrow> a = b"
proof -
  have lt: "(of_char c :: nat) < 256" for c using nat_of_char_less_256[of c] by simp
  assume "byte_rank a = byte_rank b"
  then have "(of_char a :: nat) = of_char b" using lt[of a] lt[of b] by (auto simp: byte_rank_def Let_def simp del: nat_of_char_less_256 split: if_splits)
  then show ?thesis by simp
qed

lemma str_cmp_total: "str_cmp a b \<le> 0 \<or> str_cmp b a \<le> 0"
  by (induction a b rule: str_cmp.induct) auto

lemma str_cmp_antisym: "str_cmp a b \<le> 0 \<Longrightarrow> str_cmp b a \<le> 0 \<Longrightarrow> a = b"
  by (induction a b rule: str_cmp.induct) (auto split: if_splits intro: byte_rank_inj)

lemma str_cmp_trans: "str_cmp a b \<le> 0 \<Longrightarrow> str_cmp b c \<le> 0 \<Longrightarrow> str_cmp a c \<le> 0"
proof (induction a b arbitrary: c rule: str_cmp.induct)
  case (2 b bs)
  then show ?case by (cases c) simp_all
next
  case (4 a as b bs)
  show ?case
  proof (cases c)
    case (Cons d ds)
    have IH: "byte_rank a = byte_rank b \<Longrightarrow> str_cmp as bs \<le> 0 \<Longrightarrow> str_cmp bs ds \<le> 0 \<Longrightarrow> str_cmp as ds \<le> 0"
      using 4(1)[of ds] by simp
    show ?thesis
      using 4(2,3) IH unfolding Cons str_cmp.simps
      by (cases "byte_rank a" "byte_rank b" rule: linorder_cases; cases "byte_rank b" "byte_rank d" rule: linorder_cases) simp_all
  qed (use 4(3) in simp)
qed simp_all

interpretation str_order: comparator str_cmp
  using str_cmp_total str_cmp_trans by unfold_locales

interpretation key_order: comparator "\<lambda>a b. str_cmp (fst a) (fst b)"
  using str_cmp_total str_cmp_trans by unfold_locales

lemma sorted_wrt_unique:
  assumes "sorted_wrt R xs" "sorted_wrt R ys" "distinct xs" "distinct ys" "set xs = set ys"
    and "\<And>x y. x \<in> set xs \<Longrightarrow> y \<in> set xs \<Longrightarrow> R x y \<Longrightarrow> R y x \<Longrightarrow> x = y"
  shows "xs = ys"
  using assms
proof (induction xs arbitrary: ys)
  case (Cons x xs)
  then obtain y ys' where ys: "ys = y # ys'" by (cases ys) auto
  have "x = y"
  proof (rule ccontr)
    assume ne: "x \<noteq> y"
    then have "x \<in> set ys'" "y \<in> set xs" using Cons.prems(5) ys by auto
    then have "R y x" "R x y" using Cons.prems(1,2) ys by auto
    then show False using Cons.prems(6)[of x y] ne \<open>y \<in> set xs\<close> by auto
  qed
  moreover have "xs = ys'"
  proof (rule Cons.IH)
    have "set xs = set (x # xs) - {x}" "set (y # ys') - {y} = set ys'" using Cons.prems(3,4) ys by auto
    then show "set xs = set ys'" using Cons.prems(5) unfolding ys \<open>x = y\<close> by argo
    show "a = b" if "a \<in> set xs" "b \<in> set xs" "R a b" "R b a" for a b using Cons.prems(6)[of a b] that by simp
  qed (use Cons.prems ys in auto)
  ultimately show ?case by (simp add: ys)
qed simp

lemma foldl_update_fresh:
  "distinct (map fst (m @ kvs)) \<Longrightarrow> foldl (\<lambda>m kv. AList.update (fst kv) (snd kv) m) m kvs = m @ kvs"
proof (induction kvs arbitrary: m)
  case (Cons kv kvs)
  have "AList.update (fst kv) (snd kv) m = m @ [kv]"
    using Cons.prems by (induction m) auto
  then show ?case using Cons by simp
qed simp

lemma from_entries_distinct:
  assumes "distinct (map fst kvs)"
  shows "set (from_entries kvs) = set kvs \<and> distinct (map fst (from_entries kvs)) \<and> from_entries kvs = own_order kvs"
proof -
  have e: "from_entries kvs = own_order kvs" using foldl_update_fresh[of "[]" kvs] assms by (simp add: from_entries_def)
  have s: "set (own_order kvs) = set kvs" by (auto simp: own_order_def)
  have "mset (own_order kvs) = mset kvs" 
    unfolding own_order_def mset_append mset_sort_by mset_filter by (rule multiset_partition[symmetric])
  then have "distinct (map fst (own_order kvs))" using assms by (metis mset_eq_imp_distinct_iff mset_map)
  then show ?thesis using e s by simp
qed

lemma distinct_sort_keys: "distinct (map fst kvs) \<Longrightarrow> distinct (map fst (sort_keys kvs))"
  unfolding sort_keys_def by (metis mset_eq_imp_distinct_iff mset_map mset_sort_by)

lemma set_sort_keys [simp]: "set (sort_keys kvs) = set kvs"
  by (simp add: sort_keys_def)

lemma canon_set: "distinct (map fst kvs) \<Longrightarrow> set (from_entries (sort_keys kvs)) = set kvs"
  using from_entries_distinct[OF distinct_sort_keys, of kvs] unfolding set_sort_keys by blast

lemma canon_entries:
  assumes "distinct (map fst xs)" "distinct (map fst ys)"
  shows "from_entries (sort_keys xs) = from_entries (sort_keys ys) \<longleftrightarrow> map_of xs = map_of ys"
proof -
  note d = distinct_sort_keys and s = set_sort_keys
  show ?thesis
  proof
    assume "from_entries (sort_keys xs) = from_entries (sort_keys ys)"
    then have "set xs = set ys" using canon_set[OF assms(1)] canon_set[OF assms(2)] by simp
    then show "map_of xs = map_of ys" by (rule map_of_inject_set[OF assms, THEN iffD2])
  next
    assume "map_of xs = map_of ys"
    then have set: "set xs = set ys" by (rule map_of_inject_set[OF assms, THEN iffD1])
    have "sort_keys xs = sort_keys ys"
    proof (rule sorted_wrt_unique)
      show "sorted_wrt (\<lambda>a b. str_cmp (fst a) (fst b) \<le> 0) (sort_keys xs)" "sorted_wrt (\<lambda>a b. str_cmp (fst a) (fst b) \<le> 0) (sort_keys ys)"
        unfolding sort_keys_def by (rule key_order.sort_by_sorted)+
      show "distinct (sort_keys xs)" "distinct (sort_keys ys)" using d[OF assms(1)] d[OF assms(2)] by (auto simp: distinct_map)
      show "x = y" if "x \<in> set (sort_keys xs)" "y \<in> set (sort_keys xs)" "str_cmp (fst x) (fst y) \<le> 0" "str_cmp (fst y) (fst x) \<le> 0" for x y
        using str_cmp_antisym[OF that(3,4)] that(1,2) assms(1) unfolding s by (metis eq_key_imp_eq_value prod.collapse)
    qed (simp add: s set)
    then show "from_entries (sort_keys xs) = from_entries (sort_keys ys)" by simp
  qed
qed

fun wf_json :: "json \<Rightarrow> bool" where
  "wf_json (JArr xs) = list_all wf_json xs"
| "wf_json (JObj kvs) = (distinct (map fst kvs) \<and> list_all (\<lambda>(_, v). wf_json v) kvs)"
| "wf_json v = True"

text \<open>Two values with the same content: objects have the same keys with the same content under
  each, in whatever order.\<close>

inductive json_eq :: "json \<Rightarrow> json \<Rightarrow> bool" where
  eq_null: "json_eq JNull JNull"
| eq_bool: "json_eq (JBool b) (JBool b)"
| eq_num: "json_eq (JNum x) (JNum x)"
| eq_str: "json_eq (JStr s) (JStr s)"
| eq_arr: "list_all2 json_eq xs ys \<Longrightarrow> json_eq (JArr xs) (JArr ys)"
| eq_obj: "(\<And>k. rel_option json_eq (map_of a k) (map_of b k)) \<Longrightarrow> json_eq (JObj a) (JObj b)"
  monos list_all2_mono option.rel_mono

inductive_simps json_eq_simps:
  "json_eq JNull w" "json_eq (JBool b) w" "json_eq (JNum x) w" "json_eq (JStr s) w" "json_eq (JArr xs) w" "json_eq (JObj a) w"

lemma map_of_map_snd: "map_of (map (map_prod id f) kvs) k = map_option f (map_of kvs k)"
  by (induction kvs) auto

lemma stable_eq_iff: "wf_json v \<Longrightarrow> wf_json w \<Longrightarrow> stable v = stable w \<longleftrightarrow> json_eq v w"
proof (induction v arbitrary: w)
  case (JArr xs)
  have IH: "stable x = stable y \<longleftrightarrow> json_eq x y" if "x \<in> set xs" "wf_json y" for x y
    using JArr.IH[OF that(1) _ that(2)] JArr.prems(1) that(1) by (simp add: list_all_iff)
  have "map stable xs = map stable ys \<longleftrightarrow> list_all2 json_eq xs ys" if "list_all wf_json ys" for ys
  proof -
    have "map stable xs = map stable ys \<longleftrightarrow> list_all2 (\<lambda>x y. stable x = stable y) xs ys"
      by (simp add: list_all2_conv_all_nth list_eq_iff_nth_eq) (metis nth_map)
    also have "\<dots> \<longleftrightarrow> list_all2 json_eq xs ys"
      using IH that by (auto simp: list_all2_conv_all_nth list_all_iff)
    finally show ?thesis .
  qed
  then show ?case using JArr.prems(2) by (cases w) (auto simp: json_eq_simps)
next
  case (JObj kvs)
  have IH: "stable x = stable y \<longleftrightarrow> json_eq x y" if "map_of kvs k = Some x" "wf_json y" for k x y
    using JObj.IH[OF map_of_SomeD[OF that(1)], of x y] JObj.prems(1) that map_of_SomeD[OF that(1)] by (auto simp: list_all_iff)
  have "stable (JObj kvs) = stable (JObj lws) \<longleftrightarrow> json_eq (JObj kvs) (JObj lws)" if w: "wf_json (JObj lws)" for lws
  proof -
    have wf: "wf_json y" if "map_of lws k = Some y" for k y using w map_of_SomeD[OF that] by (auto simp: list_all_iff)
    have "stable (JObj kvs) = stable (JObj lws) \<longleftrightarrow> map_of (map (map_prod id stable) kvs) = map_of (map (map_prod id stable) lws)"
      using JObj.prems(1) w by (simp add: canon_entries comp_def)
    also have "\<dots> \<longleftrightarrow> (\<forall>k. rel_option json_eq (map_of kvs k) (map_of lws k))"
      unfolding fun_eq_iff map_of_map_snd using IH wf by (intro all_cong1) (auto simp: option.rel_sel map_option_case split: option.splits)
    also have "\<dots> \<longleftrightarrow> json_eq (JObj kvs) (JObj lws)" by (auto simp: json_eq_simps)
    finally show ?thesis .
  qed
  then show ?case using JObj.prems(2) by (cases w) (auto simp: json_eq_simps)
next
  case JNull
  then show ?case by (cases w) (simp_all add: json_eq_simps)
next
  case (JBool b)
  then show ?case by (cases w) (auto simp: json_eq_simps)
next
  case (JNum x)
  then show ?case by (cases w) (auto simp: json_eq_simps)
next
  case (JStr s)
  then show ?case by (cases w) (auto simp: json_eq_simps)
qed

lemma no_nums_stable: "wf_json v \<Longrightarrow> no_nums v \<Longrightarrow> no_nums (stable v)"
proof (induction v)
  case (JArr xs)
  then show ?case by (auto simp: list_all_iff)
next
  case (JObj kvs)
  have "set (from_entries (sort_keys (map (map_prod id stable) kvs))) = set (map (map_prod id stable) kvs)"
    using JObj.prems(1) by (intro canon_set) (simp add: comp_def)
  then show ?case using JObj by (force simp: list_all_iff)
qed auto

text \<open>C5: The canonical text is the same for two values exactly when they have the same content:
  whatever order their objects list their keys in, and never for two values that differ.  The
  values hold no numbers, as the release documents do not, and no object has a key twice.\<close>

theorem stable_canonical:
  assumes "wf_json v" "wf_json w" "no_nums v" "no_nums w"
  shows "stringify dtoa (stable v) = stringify dtoa (stable w) \<longleftrightarrow> json_eq v w"
proof
  assume "stringify dtoa (stable v) = stringify dtoa (stable w)"
  then have "stable v = stable w"
    using stringify_prefix[of "stable v" "stable w" dtoa "[]" "[]"] no_nums_stable assms by simp
  then show "json_eq v w" using stable_eq_iff assms by blast
qed (use stable_eq_iff assms in force)

definition demo_doc :: "json \<times> json" where
  "demo_doc = (JObj [(''b'', JStr ''1.0.0''), (''a'', JObj [(''10'', JNull), (''9'', JBool True)])],
     JObj [(''a'', JObj [(''9'', JBool True), (''10'', JNull)]), (''b'', JStr ''1.0.0'')])"

theorem stable_canonical_witness:
  "wf_json (fst demo_doc) \<and> wf_json (snd demo_doc) \<and> no_nums (fst demo_doc) \<and> no_nums (snd demo_doc) \<and>
   stringify (\<lambda>_. []) (stable (fst demo_doc)) = stringify (\<lambda>_. []) (stable (snd demo_doc)) \<and> json_eq (fst demo_doc) (snd demo_doc)"
proof -
  have wf: "wf_json (fst demo_doc)" "wf_json (snd demo_doc)" "no_nums (fst demo_doc)" "no_nums (snd demo_doc)" by code_simp+
  moreover have t: "stringify (\<lambda>_. []) (stable (fst demo_doc)) = stringify (\<lambda>_. []) (stable (snd demo_doc))" by code_simp
  moreover have "json_eq (fst demo_doc) (snd demo_doc)" using stable_canonical[OF wf] t by blast
  ultimately show ?thesis by blast
qed

end
