(* ===== verification/Release.thy ===== *)
theory Release
  imports Json
begin

text \<open>
  The release plan and the release transaction
  (\<open>release/scripts/build-release-plan.mjs\<close>): which version each unit publishes at, the refusal
  of a version its module path cannot carry, and the transaction that records what changed.
  The SHA-256 hex digest of a text is the parameter \<open>sha\<close>.
\<close>

section \<open>Units\<close>

record unit_package =
  up_releaseUnit :: string
  up_version :: string
  up_kind :: string
  up_coordinate :: "string option"

record unit_info =
  ui_version :: string
  ui_kind :: string
  ui_coordinate :: "string option"

text \<open>The package of each directory of \<open>release/units\<close>, in the sorted order of their names.\<close>

definition readUnits :: "(string \<times> unit_package) list \<Rightarrow> unit_info dict" where
  "readUnits dirs =
     foldl (\<lambda>out d. AList.update (up_releaseUnit (snd d))
         \<lparr> ui_version = up_version (snd d), ui_kind = up_kind (snd d), ui_coordinate = up_coordinate (snd d) \<rparr> out)
       [] (sort_keys dirs)"

section \<open>The major a module path carries\<close>

text \<open>The digits of a trailing \<open>/vN\<close>.\<close>

definition path_suffix :: "string \<Rightarrow> string option" where
  "path_suffix c =
     (case rev (split_on (CHR ''/'') c) of
        (v # ds) # _ # _ \<Rightarrow> if v = CHR ''v'' \<and> ds \<noteq> [] \<and> list_all is_digit ds then Some ds else None
      | _ \<Rightarrow> None)"

definition pathMajorOf :: "string \<Rightarrow> jsnum" where
  "pathMajorOf c = Number_of (nullish (path_suffix c) ''1'')"

definition strip_v :: "string \<Rightarrow> string" where
  "strip_v s = nullish (strip_prefix ''v'' s) s"

definition first_part :: "string \<Rightarrow> jsnum" where
  "first_part v = Number_of (hd (split_on (CHR ''.'') v))"

definition fits_path :: "jsnum \<Rightarrow> jsnum \<Rightarrow> bool" where
  "fits_path pathMajor verMajor = (if num_le (Fin 2 0) pathMajor then num_eq verMajor pathMajor else num_le verMajor (Fin 1 0))"

datatype release_err = TypeErr | Refused string string string

text \<open>What is refused: which group, the coordinate and the version.\<close>

definition assertVersionFitsPath :: "string \<Rightarrow> string \<Rightarrow> string \<Rightarrow> release_err option" where
  "assertVersionFitsPath what coordinate version =
     (if fits_path (pathMajorOf coordinate) (first_part (strip_v version)) then None else Some (Refused what coordinate version))"

text \<open>The version a module is published at: its unit's, or the first of the path's major while
  the unit still reads an earlier one.\<close>

definition module_version :: "(jsnum \<Rightarrow> string) \<Rightarrow> string \<Rightarrow> string \<Rightarrow> string" where
  "module_version dtoa coordinate version =
     (if num_less (first_part version) (pathMajorOf coordinate) then num_text dtoa (pathMajorOf coordinate) @ ''.0.0'' else version)"

text \<open>\<open>Math.max\<close>.\<close>

definition num_max :: "jsnum \<Rightarrow> jsnum \<Rightarrow> jsnum" where
  "num_max x y = (if x = NaN \<or> y = NaN then NaN else if num_less x y then y else x)"

section \<open>The plan\<close>

record artifact =
  ar_unit :: string
  ar_kind :: string
  ar_coordinate :: "string option"
  ar_tag :: "string option"
  ar_release :: "string option"
  ar_chartVersion :: "string option"
  ar_appVersion :: "string option"
  ar_defaultImageTag :: "string option"
  ar_version :: "string option"

record plan_group =
  gr_version :: string
  gr_tags :: "string list"
  gr_goModPin :: "(string \<times> string) option"
  gr_assertNoReplace :: bool
  gr_artifacts :: "artifact list"
  gr_pactoCore :: "string option"

record release_plan =
  rp_groups :: "plan_group dict"
  rp_publishOrder :: "string list"

definition artifact_of :: "string \<Rightarrow> string \<Rightarrow> string option \<Rightarrow> artifact" where
  "artifact_of u k c = \<lparr> ar_unit = u, ar_kind = k, ar_coordinate = c, ar_tag = None, ar_release = None,
     ar_chartVersion = None, ar_appVersion = None, ar_defaultImageTag = None, ar_version = None \<rparr>"

abbreviation coord_of :: "unit_info dict \<Rightarrow> string \<Rightarrow> string option" where
  "coord_of u name \<equiv> Option.bind (map_of u name) ui_coordinate"

definition core_artifacts :: "unit_info dict \<Rightarrow> string \<Rightarrow> artifact list" where
  "core_artifacts u core =
     [(artifact_of ''core'' ''go-module'' (coord_of u ''core''))\<lparr> ar_tag := Some (''v'' @ core) \<rparr>,
      (artifact_of ''cli'' ''binaries'' None)\<lparr> ar_release := Some (''v'' @ core) \<rparr>,
      (artifact_of ''dashboard-image'' ''oci-image'' (coord_of u ''dashboard-image''))\<lparr> ar_tag := Some core \<rparr>,
      (artifact_of ''dashboard-contract-bundle'' ''oci-image'' (coord_of u ''dashboard-contract-bundle''))\<lparr> ar_tag := Some core \<rparr>,
      (artifact_of ''demo-bundles'' ''oci-image'' (coord_of u ''demo-bundles''))\<lparr> ar_tag := Some core \<rparr>,
      (artifact_of ''demo-compose'' ''oci-image'' (coord_of u ''demo-compose''))\<lparr> ar_tag := Some core \<rparr>]"

definition k8s_artifacts :: "unit_info dict \<Rightarrow> string \<Rightarrow> string \<Rightarrow> artifact list" where
  "k8s_artifacts u k8s k8sModuleTag =
     [(artifact_of ''k8s-module'' ''go-module'' (coord_of u ''k8s-module''))\<lparr> ar_tag := Some k8sModuleTag \<rparr>,
      (artifact_of ''operator-image'' ''oci-image'' (coord_of u ''operator-image''))\<lparr> ar_tag := Some k8s \<rparr>,
      (artifact_of ''operator-chart'' ''helm-chart'' (coord_of u ''operator-chart''))
        \<lparr> ar_chartVersion := Some k8s, ar_appVersion := Some k8s, ar_defaultImageTag := Some k8s \<rparr>,
      (artifact_of ''delivery-image'' ''oci-image'' (coord_of u ''delivery-image''))\<lparr> ar_tag := Some k8s \<rparr>,
      (artifact_of ''k8s-docs'' ''docs'' None)\<lparr> ar_version := Some k8s \<rparr>]"

definition PUBLISH_ORDER :: "string list" where
  "PUBLISH_ORDER =
     [''core:go-module'', ''core:dashboard-image'', ''core:dashboard-contract-bundle'', ''core:cli'', ''core:demo-bundles'',
      ''core:demo-compose'', ''kubernetes:go-mod-pin'', ''kubernetes:go-module'', ''kubernetes:operator-image'',
      ''kubernetes:operator-chart'', ''kubernetes:delivery-image'', ''kubernetes:docs'']"

text \<open>The units whose \<open>coordinate\<close> the plan reads; one that is missing is a \<open>TypeError\<close>.\<close>

definition PLAN_UNITS :: "string list" where
  "PLAN_UNITS = [''core'', ''dashboard-image'', ''dashboard-contract-bundle'', ''demo-bundles'', ''demo-compose'',
     ''k8s-module'', ''operator-image'', ''operator-chart'', ''delivery-image'']"

definition plan_of :: "(jsnum \<Rightarrow> string) \<Rightarrow> unit_info dict \<Rightarrow> string \<Rightarrow> string \<Rightarrow> string \<Rightarrow> string \<Rightarrow> release_plan" where
  "plan_of dtoa u core coreCoord k8s k8sCoord =
     (let k8sModuleTag = ''integrations/kubernetes/v'' @ module_version dtoa k8sCoord k8s;
          compatMajor = num_max (pathMajorOf coreCoord) (first_part core)
      in \<lparr> rp_groups =
             [(''core'', \<lparr> gr_version = core, gr_tags = [''v'' @ core], gr_goModPin = None, gr_assertNoReplace = False,
                gr_artifacts = core_artifacts u core, gr_pactoCore = None \<rparr>),
              (''kubernetes'', \<lparr> gr_version = k8s, gr_tags = [k8sModuleTag],
                gr_goModPin = Some (coreCoord, ''v'' @ module_version dtoa coreCoord core), gr_assertNoReplace = True,
                gr_artifacts = k8s_artifacts u k8s k8sModuleTag,
                gr_pactoCore = Some (''>='' @ num_text dtoa compatMajor @ ''.0.0'') \<rparr>)],
           rp_publishOrder = PUBLISH_ORDER \<rparr>)"

definition buildPlan :: "(jsnum \<Rightarrow> string) \<Rightarrow> unit_info dict \<Rightarrow> release_err + release_plan" where
  "buildPlan dtoa u =
     (case (map_of u ''core'', map_of u ''k8s-module'') of
        (Some c, Some k) \<Rightarrow>
          (case ui_coordinate c of
             None \<Rightarrow> Inl TypeErr
           | Some cc \<Rightarrow>
               case assertVersionFitsPath ''the core group'' cc (''v'' @ module_version dtoa cc (ui_version c)) of
                 Some err \<Rightarrow> Inl err
               | None \<Rightarrow>
                   case ui_coordinate k of
                     None \<Rightarrow> Inl TypeErr
                   | Some kc \<Rightarrow>
                       case assertVersionFitsPath ''the kubernetes group'' kc (module_version dtoa kc (ui_version k)) of
                         Some err \<Rightarrow> Inl err
                       | None \<Rightarrow>
                           if list_all (\<lambda>n. map_of u n \<noteq> None) PLAN_UNITS
                           then Inr (plan_of dtoa u (ui_version c) cc (ui_version k) kc) else Inl TypeErr)
      | _ \<Rightarrow> Inl TypeErr)"

section \<open>The transaction\<close>

text \<open>The versions an earlier manifest records: its units with their versions.\<close>

type_synonym versions = "string dict"

definition plan_artifacts :: "release_plan \<Rightarrow> (string \<times> plan_group \<times> artifact) list" where
  "plan_artifacts plan = concat (map (\<lambda>(name, g). map (\<lambda>a. (name, g, a)) (gr_artifacts g)) (rp_groups plan))"

definition artifact_tag :: "plan_group \<Rightarrow> artifact \<Rightarrow> string" where
  "artifact_tag g a =
     (case ar_tag a of Some t \<Rightarrow> t
      | None \<Rightarrow> case ar_release a of Some r \<Rightarrow> r
      | None \<Rightarrow> case ar_chartVersion a of Some v \<Rightarrow> v
      | None \<Rightarrow> nullish (ar_version a) (gr_version g))"

definition dict_of :: "(string \<times> 'a) list \<Rightarrow> 'a dict" where
  "dict_of kvs = foldl (\<lambda>m kv. AList.update (fst kv) (snd kv) m) [] kvs"

definition newVersions :: "release_plan \<Rightarrow> versions" where
  "newVersions plan = dict_of (map (\<lambda>(_, g, a). (ar_unit a, gr_version g)) (plan_artifacts plan))"

definition unitGroup :: "release_plan \<Rightarrow> string dict" where
  "unitGroup plan = dict_of (map (\<lambda>(name, _, a). (ar_unit a, name)) (plan_artifacts plan))"

definition changedUnits :: "release_plan \<Rightarrow> versions \<Rightarrow> string list" where
  "changedUnits plan prev =
     sort_by str_cmp (filter (\<lambda>u. map_of prev u \<noteq> map_of (newVersions plan) u) (keys_of (newVersions plan)))"

definition str_obj :: "string dict \<Rightarrow> json" where
  "str_obj d = JObj (own_order (map (map_prod id JStr) d))"

definition previousVersions :: "release_plan \<Rightarrow> versions \<Rightarrow> json" where
  "previousVersions plan prev =
     JObj (own_order (map (\<lambda>u. (u, case map_of prev u of None \<Rightarrow> JNull | Some v \<Rightarrow> JStr v)) (keys_of (newVersions plan))))"

definition sha256Stable :: "(string \<Rightarrow> string) \<Rightarrow> (jsnum \<Rightarrow> string) \<Rightarrow> json \<Rightarrow> string" where
  "sha256Stable sha dtoa v = sha (stringify dtoa (stable v))"

definition manifestSha :: "(string \<Rightarrow> string) \<Rightarrow> (jsnum \<Rightarrow> string) \<Rightarrow> json \<Rightarrow> string" where
  "manifestSha sha dtoa v = sha256Stable sha dtoa v"

definition TXN_SCHEMA :: string where "TXN_SCHEMA = ''pacto-release-transaction/v1''"

definition buildTransaction :: "(string \<Rightarrow> string) \<Rightarrow> (jsnum \<Rightarrow> string) \<Rightarrow> release_plan \<Rightarrow> unit_info dict \<Rightarrow> versions \<Rightarrow> json" where
  "buildTransaction sha dtoa plan units prev =
     (let changed = changedUnits plan prev;
          strs = (\<lambda>xs. JArr (map JStr xs));
          groups = sort_by str_cmp (uniq (map (\<lambda>u. nullish (map_of (unitGroup plan) u) []) changed));
          coords = dict_of (map (\<lambda>(_, _, a). (ar_unit a,
              case ar_coordinate a of Some c \<Rightarrow> JStr c | None \<Rightarrow>
                case coord_of units (ar_unit a) of Some c \<Rightarrow> JStr c | None \<Rightarrow> JNull)) (plan_artifacts plan));
          tags = dict_of (map (\<lambda>(_, g, a). (ar_unit a, artifact_tag g a)) (plan_artifacts plan))
      in stable (JObj
           [(''schema'', JStr TXN_SCHEMA),
            (''ready'', JBool (changed \<noteq> [])),
            (''transactionId'', JStr (if changed = [] then []
               else take 16 (sha256Stable sha dtoa (JObj [(''changedUnits'', strs changed),
                 (''newVersions'', str_obj (newVersions plan)), (''previousVersions'', previousVersions plan prev)])))),
            (''sourceSha'', JStr []),
            (''manifestSha'', JStr (manifestSha sha dtoa (str_obj (newVersions plan)))),
            (''changedGroups'', strs groups),
            (''changedUnits'', strs changed),
            (''previousVersions'', previousVersions plan prev),
            (''newVersions'', str_obj (newVersions plan)),
            (''expectedTags'', str_obj tags),
            (''expectedCoordinates'', JObj (own_order coords)),
            (''dependencyOrder'', strs (rp_publishOrder plan)),
            (''units'', JObj (own_order (map (\<lambda>u. (u, JObj [(''status'', JStr ''pending'')])) changed)))]))"

section \<open>Which plans are refused\<close>

definition num_is :: "jsnum \<Rightarrow> nat \<Rightarrow> bool" where
  "num_is x n \<longleftrightarrow> (\<exists>e \<le> 0. x = Fin (int n * 2 ^ nat (- e)) e)"

lemma num_is_less: "num_is x a \<Longrightarrow> num_is y b \<Longrightarrow> num_less x y \<longleftrightarrow> a < b"
proof -
  assume "num_is x a" "num_is y b"
  then obtain e e' where e: "e \<le> 0" "x = Fin (int a * 2 ^ nat (- e)) e" and e': "e' \<le> 0" "y = Fin (int b * 2 ^ nat (- e')) e'"
    unfolding num_is_def by blast
  let ?m = "min e e'"
  have p: "(2::int) ^ nat (- d) * 2 ^ nat (d - ?m) = 2 ^ nat (- ?m)" if "d \<le> 0" "?m \<le> d" for d
    using that by (simp add: power_add[symmetric] nat_add_distrib[symmetric])
  have s: "int a * 2 ^ nat (- e) * 2 ^ nat (e - ?m) = int a * 2 ^ nat (- ?m)" "int b * 2 ^ nat (- e') * 2 ^ nat (e' - ?m) = int b * 2 ^ nat (- ?m)"
    using p[of e] p[of e'] e(1) e'(1) by (simp_all add: mult.assoc)
  show ?thesis unfolding e(2) e'(2) num_less_def prod.case jsnum.case s by simp
qed

lemma num_is_eq: "num_is x a \<Longrightarrow> num_is y b \<Longrightarrow> num_eq x y \<longleftrightarrow> a = b"
  using num_is_less[of x a y b] num_is_less[of y b x a] by (auto simp: num_eq_def num_is_def)

lemma num_is_le: "num_is x a \<Longrightarrow> num_is y b \<Longrightarrow> num_le x y \<longleftrightarrow> a \<le> b"
  using num_is_less[of x a y b] num_is_eq[of x a y b] by (auto simp: num_le_def)

lemma num_is_const: "num_is (Fin 2 0) 2" "num_is (Fin 1 0) 1"
  unfolding num_is_def by (intro exI[of _ 0]; simp)+

lemma num_is_show: "n < 2 ^ 53 \<Longrightarrow> num_is (Number_of (show_nat n)) n"
  using round_ratio_exact by (simp add: Number_of_show_nat num_is_def)

lemma num_text_is: "num_is x n \<Longrightarrow> n < 2 ^ 53 \<Longrightarrow> num_text dtoa x = show_nat n"
proof -
  assume "num_is x n" "n < 2 ^ 53"
  then obtain e where e: "e \<le> 0" "x = Fin (int n * 2 ^ nat (- e)) e" unfolding num_is_def by blast
  have "int n < 2 ^ 53" using \<open>n < 2 ^ 53\<close> by (metis of_nat_less_iff of_nat_numeral of_nat_power)
  then show ?thesis using e(1) fin_trunc_exact[OF e(1), of n] unfolding e(2) num_text_def by (simp add: abs_mult show_int_def)
qed

text \<open>A version of a major, and the major a module path carries: one when it has no suffix.\<close>

definition has_major :: "string \<Rightarrow> nat \<Rightarrow> bool" where
  "has_major v m \<longleftrightarrow> hd (split_on (CHR ''.'') v) = show_nat m \<and> m < 2 ^ 53"

definition path_carries :: "string \<Rightarrow> nat \<Rightarrow> bool" where
  "path_carries c p \<longleftrightarrow> (path_suffix c = Some (show_nat p) \<or> path_suffix c = None \<and> p = 1) \<and> 1 \<le> p \<and> p < 2 ^ 53"

lemma pathMajorOf_is: "path_carries c p \<Longrightarrow> num_is (pathMajorOf c) p"
proof -
  have "show_nat 1 = ''1''" by code_simp
  then show "path_carries c p \<Longrightarrow> num_is (pathMajorOf c) p"
    using num_is_show[of p] num_is_show[of 1] by (auto simp: path_carries_def pathMajorOf_def)
qed

lemma first_part_is: "has_major v m \<Longrightarrow> num_is (first_part v) m"
  using num_is_show by (simp add: has_major_def first_part_def)

lemma show_nat_no_dot: "CHR ''.'' \<notin> set (show_nat n)"
  using show_nat_digits[of n] by (auto simp: is_digit_def)

lemma module_version_major:
  assumes "has_major v m" "path_carries c p"
  shows "has_major (module_version dtoa c v) (max m p)"
proof (cases "m < p")
  case True
  then have "module_version dtoa c v = show_nat p @ CHR ''.'' # ''0.0''"
    using num_is_less[OF first_part_is[OF assms(1)] pathMajorOf_is[OF assms(2)]] num_text_is[OF pathMajorOf_is[OF assms(2)]] assms(2)
    by (simp add: module_version_def path_carries_def)
  then show ?thesis using True assms(2) show_nat_no_dot[of p] by (simp add: has_major_def path_carries_def max_def)
next
  case False
  then show ?thesis
    using num_is_less[OF first_part_is[OF assms(1)] pathMajorOf_is[OF assms(2)]] assms(1) by (simp add: module_version_def max_def)
qed

lemma has_major_strip: "has_major v m \<Longrightarrow> strip_v v = v \<and> strip_v (CHR ''v'' # v) = v"
proof -
  assume m: "has_major v m"
  have "v = [] \<or> hd v \<noteq> CHR ''v''"
  proof (cases v)
    case (Cons c r)
    obtain d s where s: "show_nat m = d # s" "is_digit d" using show_nat_hd by blast
    have "hd (split_on (CHR ''.'') v) \<noteq> [] \<Longrightarrow> hd (hd (split_on (CHR ''.'') v)) = c" using Cons by (cases "split_on (CHR ''.'') r") (auto split: if_splits)
    then have "c = d" using m s by (simp add: has_major_def)
    then show ?thesis using s(2) Cons by (auto simp: is_digit_def)
  qed simp
  then show ?thesis by (cases v) (auto simp: strip_v_def)
qed

lemma fits_iff:
  assumes "has_major v m" "path_carries c p"
  shows "fits_path (pathMajorOf c) (first_part (module_version dtoa c v)) \<longleftrightarrow> m \<le> p"
proof -
  note vm = first_part_is[OF module_version_major[OF assms], of dtoa] and pm = pathMajorOf_is[OF assms(2)]
  have "1 \<le> p" using assms(2) by (simp add: path_carries_def)
  then show ?thesis
    using num_is_le[OF num_is_const(1) pm] num_is_le[OF vm num_is_const(2)] num_is_eq[OF vm pm] by (auto simp: fits_path_def)
qed

lemma assert_module:
  assumes "has_major v m" "path_carries c p"
  shows "assertVersionFitsPath w c (CHR ''v'' # module_version dtoa c v) = (if m \<le> p then None else Some (Refused w c (CHR ''v'' # v)))"
    and "assertVersionFitsPath w c (module_version dtoa c v) = (if m \<le> p then None else Some (Refused w c v))"
proof -
  have "module_version dtoa c v = v" if "\<not> m \<le> p"
    using num_is_less[OF first_part_is[OF assms(1)] pathMajorOf_is[OF assms(2)]] that by (simp add: module_version_def)
  then show "assertVersionFitsPath w c (CHR ''v'' # module_version dtoa c v) = (if m \<le> p then None else Some (Refused w c (CHR ''v'' # v)))"
    "assertVersionFitsPath w c (module_version dtoa c v) = (if m \<le> p then None else Some (Refused w c v))"
    using fits_iff[OF assms, of dtoa] has_major_strip[OF module_version_major[OF assms], of dtoa] by (auto simp: assertVersionFitsPath_def)
qed

lemma buildPlan_cases:
  assumes "map_of u ''core'' = Some c" "ui_coordinate c = Some cc" "has_major (ui_version c) m" "path_carries cc p"
    and "map_of u ''k8s-module'' = Some k" "ui_coordinate k = Some kc" "has_major (ui_version k) n" "path_carries kc q"
    and "list_all (\<lambda>x. map_of u x \<noteq> None) PLAN_UNITS"
  shows "buildPlan dtoa u =
    (if p < m then Inl (Refused ''the core group'' cc (''v'' @ ui_version c))
     else if q < n then Inl (Refused ''the kubernetes group'' kc (ui_version k))
     else Inr (plan_of dtoa u (ui_version c) cc (ui_version k) kc))"
  using assert_module(1)[OF assms(3,4), of "''the core group''" dtoa] assert_module(2)[OF assms(7,8), of "''the kubernetes group''" dtoa] assms(1,2,5,6,9)
  by (simp add: buildPlan_def)

text \<open>C22: A plan is emitted exactly when neither module's unit version has outrun the major its
  path carries; otherwise it is refused, the core group first, naming the coordinate and the
  version.  In an emitted plan the core version the operator pins and the Kubernetes module tag
  are on the major of their paths; the tag of the core module itself is its unit version, whose
  major may still be an earlier one than the path's.\<close>

theorem buildPlan_majors:
  assumes "map_of u ''core'' = Some c" "ui_coordinate c = Some cc" "has_major (ui_version c) m" "path_carries cc p"
    and "map_of u ''k8s-module'' = Some k" "ui_coordinate k = Some kc" "has_major (ui_version k) n" "path_carries kc q"
    and "list_all (\<lambda>x. map_of u x \<noteq> None) PLAN_UNITS"
  shows "case buildPlan dtoa u of
      Inl err \<Rightarrow> p < m \<and> err = Refused ''the core group'' cc (''v'' @ ui_version c) \<or>
        m \<le> p \<and> q < n \<and> err = Refused ''the kubernetes group'' kc (ui_version k)
    | Inr plan \<Rightarrow> m \<le> p \<and> n \<le> q \<and> map_option gr_tags (map_of (rp_groups plan) ''core'') = Some [''v'' @ ui_version c] \<and>
        (\<exists>pin tag. map_option gr_goModPin (map_of (rp_groups plan) ''kubernetes'') = Some (Some (cc, ''v'' @ pin)) \<and> has_major pin p \<and>
           map_option gr_tags (map_of (rp_groups plan) ''kubernetes'') = Some [''integrations/kubernetes/v'' @ tag] \<and> has_major tag q)"
proof -
  note cm = module_version_major[OF assms(3,4), of dtoa] and km = module_version_major[OF assms(7,8), of dtoa]
  consider "p < m" | "m \<le> p" "q < n" | "m \<le> p" "n \<le> q" by linarith
  then show ?thesis
  proof cases
    case 3
    then have "max m p = p" "max n q = q" by auto
    then show ?thesis using 3 cm km unfolding buildPlan_cases[OF assms] by (auto simp: plan_of_def Let_def)
  qed (auto simp: buildPlan_cases[OF assms])
qed

definition demo_units :: "string \<Rightarrow> string \<Rightarrow> unit_info dict" where
  "demo_units core k8s = map (\<lambda>(n, v, c). (n, \<lparr> ui_version = v, ui_kind = [], ui_coordinate = Some c \<rparr>))
     [(''core'', core, ''ex/pacto/v4''), (''dashboard-image'', core, ''ex/dash''), (''dashboard-contract-bundle'', core, ''ex/bundle''),
      (''demo-bundles'', core, ''ex''), (''demo-compose'', core, ''ex/demo''), (''k8s-module'', k8s, ''ex/kubernetes/v6''),
      (''operator-image'', k8s, ''ex/op''), (''operator-chart'', k8s, ''ex/chart''), (''delivery-image'', k8s, ''ex/dl'')]"

theorem buildPlan_majors_witness:
  "has_major ''5.0.0'' 5 \<and> path_carries ''ex/pacto/v4'' 4 \<and> has_major ''6.4.1'' 6 \<and> path_carries ''ex/kubernetes/v6'' 6 \<and>
   (case buildPlan (\<lambda>_. []) (demo_units ''5.0.0'' ''6.4.1'') of
      Inl err \<Rightarrow> err = Refused ''the core group'' ''ex/pacto/v4'' ''v5.0.0'' | Inr _ \<Rightarrow> False)"
proof -
  have s: "show_nat 4 = ''4''" "show_nat 5 = ''5''" "show_nat 6 = ''6''" by code_simp+
  have "hd (split_on (CHR ''.'') ''5.0.0'') = ''5''" "hd (split_on (CHR ''.'') ''6.4.1'') = ''6''"
    "path_suffix ''ex/pacto/v4'' = Some ''4''" "path_suffix ''ex/kubernetes/v6'' = Some ''6''" by code_simp+
  then have h: "has_major ''5.0.0'' 5" "path_carries ''ex/pacto/v4'' 4" "has_major ''6.4.1'' 6" "path_carries ''ex/kubernetes/v6'' 6"
    using s by (simp_all add: has_major_def path_carries_def)
  let ?u = "demo_units ''5.0.0'' ''6.4.1''" and ?i = "\<lambda>v c. \<lparr> ui_version = v, ui_kind = [], ui_coordinate = Some c \<rparr>"
  have u: "map_of ?u ''core'' = Some (?i ''5.0.0'' ''ex/pacto/v4'')" "map_of ?u ''k8s-module'' = Some (?i ''6.4.1'' ''ex/kubernetes/v6'')"
    "list_all (\<lambda>x. map_of ?u x \<noteq> None) PLAN_UNITS" by code_simp+
  show ?thesis
    using buildPlan_majors[OF u(1) _ _ h(2) u(2) _ _ h(4) u(3), of 5 6 "\<lambda>_. []"] h by (simp split: sum.splits)
qed

text \<open>
  The tag of the core module itself is not moved to the major of its path: a plan is emitted
  although the core unit still reads the earlier major, and tags it with that.
\<close>

lemma core_tag_behind_path:
  "\<exists>plan. buildPlan (\<lambda>_. []) (demo_units ''3.9.0'' ''6.4.1'') = Inr plan \<and> path_carries ''ex/pacto/v4'' 4 \<and>
     map_option gr_tags (map_of (rp_groups plan) ''core'') = Some [''v3.9.0'']"
proof -
  have s: "show_nat 4 = ''4''" "show_nat 3 = ''3''" "show_nat 6 = ''6''" by code_simp+
  have "hd (split_on (CHR ''.'') ''3.9.0'') = ''3''" "hd (split_on (CHR ''.'') ''6.4.1'') = ''6''"
    "path_suffix ''ex/pacto/v4'' = Some ''4''" "path_suffix ''ex/kubernetes/v6'' = Some ''6''" by code_simp+
  then have h: "has_major ''3.9.0'' 3" "path_carries ''ex/pacto/v4'' 4" "has_major ''6.4.1'' 6" "path_carries ''ex/kubernetes/v6'' 6"
    using s by (simp_all add: has_major_def path_carries_def)
  let ?u = "demo_units ''3.9.0'' ''6.4.1''" and ?i = "\<lambda>v c. \<lparr> ui_version = v, ui_kind = [], ui_coordinate = Some c \<rparr>"
  have u: "map_of ?u ''core'' = Some (?i ''3.9.0'' ''ex/pacto/v4'')" "map_of ?u ''k8s-module'' = Some (?i ''6.4.1'' ''ex/kubernetes/v6'')"
    "list_all (\<lambda>x. map_of ?u x \<noteq> None) PLAN_UNITS" by code_simp+
  show ?thesis
    using buildPlan_cases[OF u(1) _ _ h(2) u(2) _ _ h(4) u(3), of 3 6 "\<lambda>_. []"] h by (simp add: plan_of_def Let_def)
qed

end
