(* ===== verification/Detect.thy ===== *)
theory Detect
  imports Release
begin

text \<open>
  Whether a commit releases (\<open>release/orchestrator/detect.mjs\<close>).  A transaction is the JSON value
  read from the repository, \<open>None\<close> when it could not be read (\<open>null\<close>); nothing is assumed
  about its shape.  Each refusal is a value of its own instead of a sentence.
\<close>

section \<open>Reading a transaction\<close>

definition txn_get :: "json option \<Rightarrow> string \<Rightarrow> json option" where
  "txn_get txn k = Option.bind txn (\<lambda>v. json_get v k)"

text \<open>\<open>Array.isArray\<close>.\<close>

definition json_array :: "json option \<Rightarrow> json list option" where
  "json_array v = (case v of Some (JArr xs) \<Rightarrow> Some xs | _ \<Rightarrow> None)"

text \<open>\<open>===\<close>: two arrays or objects read apart are never the same one.\<close>

definition strict_eq :: "json option \<Rightarrow> json option \<Rightarrow> bool" where
  "strict_eq v w =
     (case (v, w) of
        (None, None) \<Rightarrow> True
      | (Some (JNum x), Some (JNum y)) \<Rightarrow> num_eq x y
      | (Some (JArr _), _) \<Rightarrow> False
      | (Some (JObj _), _) \<Rightarrow> False
      | _ \<Rightarrow> v = w)"

definition valid :: "json option \<Rightarrow> bool" where
  "valid txn \<longleftrightarrow> json_truthy txn \<and> strict_eq (txn_get txn ''schema'') (Some (JStr TXN_SCHEMA)) \<and> json_array (txn_get txn ''changedUnits'') \<noteq> None"

definition txn_units :: "json option \<Rightarrow> json list" where
  "txn_units txn = nullish (json_array (txn_get txn ''changedUnits'')) []"

section \<open>A push\<close>

datatype no_release = NoValidTransaction | NotReady | Unchanged

record release_decision =
  rd_transactionId :: "json option"
  rd_changedGroups :: "json option"
  rd_changedUnits :: "json list"
  rd_dependencyOrder :: "json option"

definition decideRelease :: "json option \<Rightarrow> json option \<Rightarrow> no_release + release_decision" where
  "decideRelease txn prevTxn =
     (if \<not> valid txn then Inl NoValidTransaction
      else if \<not> json_truthy (txn_get txn ''ready'') \<or> txn_units txn = [] then Inl NotReady
      else if valid prevTxn \<and> json_truthy (txn_get prevTxn ''ready'') \<and>
          strict_eq (txn_get prevTxn ''transactionId'') (txn_get txn ''transactionId'') then Inl Unchanged
      else Inr \<lparr> rd_transactionId = txn_get txn ''transactionId'', rd_changedGroups = txn_get txn ''changedGroups'',
             rd_changedUnits = txn_units txn, rd_dependencyOrder = txn_get txn ''dependencyOrder'' \<rparr>)"

section \<open>A recovery\<close>

record recovery_input =
  ri_transactionId :: "string option"
  ri_sourceSha :: "string option"
  ri_units :: "string list option"

datatype no_recovery =
    NoTransaction | NotAReadyRelease | NeedsTransactionId | TransactionIdMismatch | NeedsSourceSha | SourceShaMismatch
  | ManifestShaMismatch | ForeignUnits "string list" | NoUnits

definition decideRecovery ::
    "(string \<Rightarrow> string) \<Rightarrow> (jsnum \<Rightarrow> string) \<Rightarrow> json option \<Rightarrow> recovery_input option \<Rightarrow> json option \<Rightarrow> no_recovery + (json option \<times> json list)" where
  "decideRecovery sha dtoa txn input manifestVersions =
     (if \<not> valid txn then Inl NoTransaction
      else if \<not> json_truthy (txn_get txn ''ready'') \<or> txn_units txn = [] then Inl NotAReadyRelease
      else case input of
        None \<Rightarrow> Inl NeedsTransactionId
      | Some inp \<Rightarrow>
          if \<not> truthy (ri_transactionId inp) then Inl NeedsTransactionId
          else if \<not> strict_eq (map_option JStr (ri_transactionId inp)) (txn_get txn ''transactionId'') then Inl TransactionIdMismatch
          else if \<not> truthy (ri_sourceSha inp) then Inl NeedsSourceSha
          else if json_truthy (txn_get txn ''sourceSha'') \<and> \<not> strict_eq (map_option JStr (ri_sourceSha inp)) (txn_get txn ''sourceSha'')
            then Inl SourceShaMismatch
          else if json_truthy manifestVersions \<and>
              \<not> strict_eq (Some (JStr (manifestSha sha dtoa (the manifestVersions)))) (txn_get txn ''manifestSha'')
            then Inl ManifestShaMismatch
          else
            let asked = nullish (ri_units inp) [];
                foreign = filter (\<lambda>u. JStr u \<notin> set (txn_units txn)) asked
            in if foreign \<noteq> [] then Inl (ForeignUnits foreign)
               else let units = (if asked \<noteq> [] then map JStr asked else txn_units txn)
                    in if units = [] then Inl NoUnits else Inr (txn_get txn ''transactionId'', units))"

section \<open>The job\<close>

record detect_output =
  do_release :: bool
  do_recover :: bool
  do_units :: "json list"
  do_groups :: "json option"
  do_transaction_id :: "json option"
  do_source_sha :: string

definition no_output :: detect_output where
  "no_output = \<lparr> do_release = False, do_recover = False, do_units = [], do_groups = None, do_transaction_id = None, do_source_sha = [] \<rparr>"

record detect_env =
  de_event :: "string option"
  de_transactionId :: "string option"
  de_sourceSha :: "string option"
  de_units :: "string option"
  de_sha :: "string option"

definition recovery_of_env :: "detect_env \<Rightarrow> recovery_input" where
  "recovery_of_env env =
     \<lparr> ri_transactionId = de_transactionId env, ri_sourceSha = de_sourceSha env,
       ri_units = Some (filter (\<lambda>s. s \<noteq> []) (map trim (split_on (CHR '','') (or_else (de_units env) [])))) \<rparr>"

text \<open>The exit code of the job and what it emits.\<close>

definition detect_main :: "(string \<Rightarrow> string) \<Rightarrow> (jsnum \<Rightarrow> string) \<Rightarrow> detect_env \<Rightarrow> json option \<Rightarrow> json option \<Rightarrow> json option \<Rightarrow> nat \<times> detect_output" where
  "detect_main sha dtoa env head_txn prev_txn manifestVersions =
     (if or_else (de_event env) ''push'' = ''workflow_dispatch'' then
        (case decideRecovery sha dtoa head_txn (Some (recovery_of_env env)) manifestVersions of
           Inl _ \<Rightarrow> (1, no_output)
         | Inr (tid, units) \<Rightarrow> (0, \<lparr> do_release = True, do_recover = True, do_units = units, do_groups = None,
             do_transaction_id = tid, do_source_sha = nullish (de_sourceSha env) [] \<rparr>))
      else
        (case decideRelease head_txn prev_txn of
           Inl _ \<Rightarrow> (0, no_output\<lparr> do_source_sha := or_else (de_sha env) [] \<rparr>)
         | Inr d \<Rightarrow> (0, \<lparr> do_release = True, do_recover = False, do_units = rd_changedUnits d, do_groups = rd_changedGroups d,
             do_transaction_id = rd_transactionId d, do_source_sha = or_else (de_sha env) [] \<rparr>)))"

end
