(* ===== verification/Apply.thy ===== *)
theory Apply
  imports Release
begin

text \<open>
  Moving the working tree into release state (\<open>release/scripts/apply-release-plan.mjs\<close>): the check
  of the pinned version, the edits that are keyed to a version pattern, and the manifest of every
  unit.  A file is its text.  The checksum step (\<open>go mod download\<close>, git) is not modelled.
\<close>

section \<open>The pin\<close>

text \<open>\<open>/^v(\d+)\./\<close>.\<close>

definition majorOf :: "string \<Rightarrow> jsnum" where
  "majorOf v =
     (case strip_prefix ''v'' v of
        None \<Rightarrow> NaN
      | Some r \<Rightarrow>
          case span_digits r of (ds, rest) \<Rightarrow>
            if ds \<noteq> [] \<and> startsWith rest ''.'' then Number_of ds else NaN)"

definition pin_fits :: "string \<times> string \<Rightarrow> bool" where
  "pin_fits pin = fits_path (pathMajorOf (fst pin)) (majorOf (snd pin))"

section \<open>Version edits\<close>

definition sem_char :: "char \<Rightarrow> bool" where
  "sem_char c \<longleftrightarrow> is_digit c \<or> CHR ''A'' \<le> c \<and> c \<le> CHR ''Z'' \<or> CHR ''a'' \<le> c \<and> c \<le> CHR ''z'' \<or> c = CHR ''.'' \<or> c = CHR ''-''"

text \<open>\<open>\d+\<close> at the head of a text, and \<open>\d+\.\<close>: what follows it.\<close>

definition digits1 :: "string \<Rightarrow> string option" where
  "digits1 s = (if takeWhile is_digit s = [] then None else Some (dropWhile is_digit s))"

definition digits_dot :: "string \<Rightarrow> string option" where
  "digits_dot s = Option.bind (digits1 s) (strip_prefix ''.'')"

text \<open>\<open>(?:-[0-9A-Za-z.-]+)?\<close>.\<close>

definition prerelease :: "string \<Rightarrow> string" where
  "prerelease s =
     (case s of
        c # r \<Rightarrow> if c = CHR ''-'' \<and> takeWhile sem_char r \<noteq> [] then dropWhile sem_char r else s
      | [] \<Rightarrow> [])"

text \<open>The text after a \<open>SEMVER\<close> at the head.\<close>

definition semver_rest :: "string \<Rightarrow> string option" where
  "semver_rest s = map_option prerelease (Option.bind (Option.bind (digits_dot s) digits_dot) digits1)"

text \<open>A pattern: a literal prefix and a version that may or must start with \<open>v\<close>.\<close>

datatype v_mode = MayV | MustV

definition version_rest :: "v_mode \<Rightarrow> string \<Rightarrow> string option" where
  "version_rest mode s =
     (case strip_prefix ''v'' s of
        Some r \<Rightarrow> semver_rest r
      | None \<Rightarrow> if mode = MayV then semver_rest s else None)"

definition pattern_rest :: "string \<Rightarrow> v_mode \<Rightarrow> string \<Rightarrow> string option" where
  "pattern_rest pre mode s = Option.bind (strip_prefix pre s) (version_rest mode)"

fun replace_first :: "string \<Rightarrow> v_mode \<Rightarrow> string \<Rightarrow> string \<Rightarrow> string" where
  "replace_first pre mode ver [] = (case pattern_rest pre mode [] of Some rest \<Rightarrow> pre @ ver @ rest | None \<Rightarrow> [])"
| "replace_first pre mode ver (c # s) =
     (case pattern_rest pre mode (c # s) of Some rest \<Rightarrow> pre @ ver @ rest | None \<Rightarrow> c # replace_first pre mode ver s)"

lemma digits1_less: "digits1 s = Some r \<Longrightarrow> length r < length s"
proof -
  assume "digits1 s = Some r"
  then have "takeWhile is_digit s \<noteq> []" "r = dropWhile is_digit s" by (auto simp: digits1_def split: if_splits)
  then show ?thesis using takeWhile_dropWhile_id[of is_digit s] by (metis length_append length_greater_0_conv less_add_same_cancel2)
qed

lemma strip_prefix_length: "strip_prefix p s = Some r \<Longrightarrow> length r + length p = length s"
  by (simp add: strip_prefix_Some)

lemma prerelease_le: "length (prerelease s) \<le> length s"
proof -
  have "length (dropWhile sem_char r) \<le> Suc (length r)" for r by (meson le_SucI length_dropWhile_le)
  then show ?thesis by (auto simp: prerelease_def split: list.splits)
qed

lemma semver_rest_less: "semver_rest s = Some r \<Longrightarrow> length r < length s"
proof -
  assume "semver_rest s = Some r"
  then obtain a b a' b' c where "digits1 s = Some a" "strip_prefix ''.'' a = Some b" "digits1 b = Some a'" "strip_prefix ''.'' a' = Some b'"
      "digits1 b' = Some c" "r = prerelease c"
    by (auto simp: semver_rest_def digits_dot_def bind_eq_Some_conv)
  then have "length a < length s" "length b \<le> length a" "length a' < length b" "length b' \<le> length a'" "length c < length b'" "length r \<le> length c"
    using digits1_less strip_prefix_length[of "''.''"] prerelease_le by (fastforce, fastforce, fastforce, fastforce, fastforce, fastforce)
  then show ?thesis by linarith
qed

lemma version_rest_less: "version_rest mode s = Some r \<Longrightarrow> length r < length s"
proof (cases "strip_prefix ''v'' s")
  case (Some t)
  assume "version_rest mode s = Some r"
  then have "semver_rest t = Some r" using Some by (simp add: version_rest_def)
  then show ?thesis using semver_rest_less[of t r] strip_prefix_length[OF Some] by simp
qed (auto simp: version_rest_def semver_rest_less split: if_splits)

lemma pattern_rest_less: "pattern_rest pre mode s = Some r \<Longrightarrow> length r < length s"
proof -
  assume "pattern_rest pre mode s = Some r"
  then obtain t where "strip_prefix pre s = Some t" "version_rest mode t = Some r" by (auto simp: pattern_rest_def bind_eq_Some_conv)
  then show ?thesis using version_rest_less[of mode t r] strip_prefix_length[of pre s t] by simp
qed

function replace_all :: "string \<Rightarrow> v_mode \<Rightarrow> string \<Rightarrow> string \<Rightarrow> string" where
  "replace_all pre mode ver s =
     (case pattern_rest pre mode s of
        Some rest \<Rightarrow> pre @ ver @ replace_all pre mode ver rest
      | None \<Rightarrow> case s of [] \<Rightarrow> [] | c # s' \<Rightarrow> c # replace_all pre mode ver s')"
  by pat_completeness auto
termination
  by (relation "measure (\<lambda>(_, _, _, s). length s)") (auto dest: pattern_rest_less)

declare replace_all.simps [simp del]

text \<open>The texts the pattern finds (\<open>matchAll\<close>).\<close>

function version_matches :: "string \<Rightarrow> v_mode \<Rightarrow> string \<Rightarrow> string list" where
  "version_matches pre mode s =
     (case pattern_rest pre mode s of
        Some rest \<Rightarrow> take (length s - length rest) s # version_matches pre mode rest
      | None \<Rightarrow> case s of [] \<Rightarrow> [] | c # s' \<Rightarrow> version_matches pre mode s')"
  by pat_completeness auto
termination
  by (relation "measure (\<lambda>(_, _, s). length s)") (auto dest: pattern_rest_less)

declare version_matches.simps [simp del]

section \<open>The edits of the script\<close>

text \<open>The operator's \<open>go.mod\<close>: the first require of the core module; and the line, if any, that
  starts with a \<open>replace\<close> directive, which fails the script.\<close>

definition go_mod_edit :: "string \<times> string \<Rightarrow> string \<Rightarrow> string" where
  "go_mod_edit pin = replace_first (fst pin @ '' '') MustV (snd pin)"

definition replace_here :: "string \<Rightarrow> bool" where
  "replace_here s =
     (case strip_prefix ''replace'' (dropWhile is_space s) of
        Some (c # _) \<Rightarrow> is_space c \<or> c = CHR ''(''
      | _ \<Rightarrow> False)"

fun has_replace :: "bool \<Rightarrow> string \<Rightarrow> bool" where
  "has_replace bol [] = (bol \<and> replace_here [])"
| "has_replace bol (c # s) = (bol \<and> replace_here (c # s) \<or> has_replace (c = CHR 0x0A \<or> c = CHR 0x0D) s)"

text \<open>The step on \<open>go.mod\<close>: \<open>None\<close> is the failure that ends the script.\<close>

definition go_mod_step :: "bool \<Rightarrow> string \<times> string \<Rightarrow> string \<Rightarrow> string option" where
  "go_mod_step assertNoReplace pin s =
     (let after = go_mod_edit pin s
      in if \<not> pin_fits pin \<or> \<not> str_includes after (fst pin @ '' '' @ snd pin) \<or> assertNoReplace \<and> has_replace True after
         then None else Some after)"

text \<open>An image coordinate in a chart (the first one) and in a page (every one), and the step on a
  page: it fails on a coordinate left at another tag.\<close>

definition chart_image_edit :: "string \<Rightarrow> string \<Rightarrow> string \<Rightarrow> string" where
  "chart_image_edit coord tag = replace_first (coord @ '':'') MayV tag"

definition image_edit :: "string \<Rightarrow> string \<Rightarrow> string \<Rightarrow> string" where
  "image_edit coord tag = replace_all (coord @ '':'') MayV tag"

definition page_step :: "(string \<times> string) list \<Rightarrow> string \<Rightarrow> string option" where
  "page_step images s =
     (let after = foldl (\<lambda>s (coord, tag). image_edit coord tag s) s images
      in if list_all (\<lambda>(coord, tag). list_all (\<lambda>t. t = coord @ '':'' @ tag) (version_matches (coord @ '':'') MayV after)) images
         then Some after else None)"

section \<open>The manifest\<close>

record manifest_unit =
  mu_version :: string
  mu_coordinate :: "string option"
  mu_tag :: string
  mu_artifactKind :: string

definition manifest_units :: "release_plan \<Rightarrow> string option dict \<Rightarrow> manifest_unit dict" where
  "manifest_units plan unitCoord =
     dict_of (map (\<lambda>(_, g, a). (ar_unit a, \<lparr> mu_version = gr_version g,
         mu_coordinate = (case ar_coordinate a of Some c \<Rightarrow> Some c | None \<Rightarrow> nullish (map_of unitCoord (ar_unit a)) None),
         mu_tag = artifact_tag g a, mu_artifactKind = ar_kind a \<rparr>)) (plan_artifacts plan))"

text \<open>What the next plan reads back (\<open>readPrevVersions\<close>) and what a recovery checks
  (\<open>readManifestVersions\<close>).\<close>

definition manifest_versions :: "manifest_unit dict \<Rightarrow> versions" where
  "manifest_versions m = dict_of (map (map_prod id mu_version) m)"

section \<open>Re-running an edit\<close>

definition plain_version :: "v_mode \<Rightarrow> string \<Rightarrow> bool" where
  "plain_version mode ver \<longleftrightarrow>
     (\<exists>vs a b c. ver = vs @ a @ ''.'' @ b @ ''.'' @ c \<and> (vs = ''v'' \<or> vs = [] \<and> mode = MayV) \<and>
        (\<forall>ds \<in> {a, b, c}. ds \<noteq> [] \<and> list_all is_digit ds))"

definition sem_stop :: "string \<Rightarrow> bool" where
  "sem_stop r \<longleftrightarrow> (case r of [] \<Rightarrow> True | c # t \<Rightarrow> \<not> is_digit c \<and> (c = CHR ''-'' \<longrightarrow> takeWhile sem_char t = []))"

lemma digit_sem: "is_digit c \<Longrightarrow> sem_char c" "sem_char CHR ''.''" "sem_char CHR ''v''" "\<not> is_digit CHR ''.''" "\<not> is_digit CHR ''v''" "\<not> is_digit CHR ''-''"
  by (simp_all add: sem_char_def is_digit_def)

lemma digits1_append:
  assumes "ds \<noteq> []" "list_all is_digit ds" "r = [] \<or> \<not> is_digit (hd r)"
  shows "digits1 (ds @ r) = Some r"
proof -
  have "takeWhile is_digit (ds @ r) = ds @ takeWhile is_digit r" "dropWhile is_digit (ds @ r) = dropWhile is_digit r"
    using assms(2) by (auto simp: list_all_iff)
  moreover have "takeWhile is_digit ds = ds" "dropWhile is_digit r = r" using assms(2,3) by (auto simp: list_all_iff takeWhile_eq_all_conv dropWhile_eq_self_iff)
  ultimately show ?thesis using assms(1) by (simp add: digits1_def)
qed

lemma plain_rest:
  assumes "plain_version mode ver" "sem_stop r"
  shows "version_rest mode (ver @ r) = Some r"
proof -
  obtain vs a b c where ver: "ver = vs @ a @ ''.'' @ b @ ''.'' @ c" "vs = ''v'' \<or> vs = [] \<and> mode = MayV"
    and ds: "a \<noteq> []" "list_all is_digit a" "b \<noteq> []" "list_all is_digit b" "c \<noteq> []" "list_all is_digit c"
    using assms(1) unfolding plain_version_def by blast
  have "digits1 (c @ r) = Some r" using ds assms(2) by (intro digits1_append) (auto simp: sem_stop_def split: list.splits)
  moreover have "prerelease r = r" using assms(2) by (auto simp: prerelease_def sem_stop_def split: list.splits)
  ultimately have rest: "semver_rest (a @ CHR ''.'' # b @ CHR ''.'' # c @ r) = Some r"
    using ds digits1_append[of a "CHR ''.'' # b @ CHR ''.'' # c @ r"] digits1_append[of b "CHR ''.'' # c @ r"] digit_sem
    by (simp add: semver_rest_def digits_dot_def)
  have "strip_prefix ''v'' (a @ t) = None" for t using ds digit_sem by (cases a) auto
  then show ?thesis using rest ver by (auto simp: version_rest_def)
qed

lemma digits1_stop: "digits1 s = Some r \<Longrightarrow> r = [] \<or> \<not> is_digit (hd r)"
  by (auto simp: digits1_def hd_dropWhile split: if_splits)

lemma semver_stop: "semver_rest s = Some r \<Longrightarrow> sem_stop r"
proof -
  assume "semver_rest s = Some r"
  then obtain b c where "digits1 b = Some c" and r: "r = prerelease c" by (auto simp: semver_rest_def bind_eq_Some_conv)
  then have c: "c = [] \<or> \<not> is_digit (hd c)" using digits1_stop by blast
  show ?thesis
  proof (cases c)
    case (Cons d t)
    show ?thesis
    proof (cases "d = CHR ''-'' \<and> takeWhile sem_char t \<noteq> []")
      case True
      then have "r = dropWhile sem_char t" using r Cons by (simp add: prerelease_def)
      then have "r = [] \<or> \<not> sem_char (hd r)" using hd_dropWhile[of sem_char t] by blast
      moreover have "sem_char CHR ''-''" by (simp add: sem_char_def)
      ultimately show ?thesis using digit_sem(1) by (cases r) (auto simp: sem_stop_def)
    next
      case False
      then show ?thesis using c r Cons by (auto simp: prerelease_def sem_stop_def)
    qed
  qed (simp add: r prerelease_def sem_stop_def)
qed

lemma version_stop: "version_rest mode s = Some r \<Longrightarrow> sem_stop r"
  by (auto simp: version_rest_def semver_stop split: option.splits if_splits)

text \<open>Whether a version is found depends on the text up to the first character no version has.\<close>

lemma digits1_take: "digits1 (takeWhile sem_char s) = map_option (takeWhile sem_char) (digits1 s)"
proof -
  have "takeWhile is_digit (takeWhile sem_char s) = takeWhile is_digit s" by (induction s) (auto simp: digit_sem)
  moreover have "dropWhile is_digit (takeWhile sem_char s) = takeWhile sem_char (dropWhile is_digit s)" by (induction s) (auto simp: digit_sem)
  ultimately show ?thesis by (simp add: digits1_def)
qed

lemma strip_take: "sem_char c \<Longrightarrow> strip_prefix [c] (takeWhile sem_char s) = map_option (takeWhile sem_char) (strip_prefix [c] s)"
  by (cases s) auto

lemma version_take: "version_rest mode s = None \<longleftrightarrow> version_rest mode (takeWhile sem_char s) = None"
proof -
  have dot: "digits_dot (takeWhile sem_char s) = map_option (takeWhile sem_char) (digits_dot s)" for s
    unfolding digits_dot_def digits1_take by (cases "digits1 s") (simp_all add: strip_take digit_sem)
  have "semver_rest s = None \<longleftrightarrow> semver_rest (takeWhile sem_char s) = None" for s
    unfolding semver_rest_def dot
    by (cases "digits_dot s"; simp; cases "digits_dot (the (digits_dot s))"; simp add: dot digits1_take)
  then show ?thesis unfolding version_rest_def
    by (cases "strip_prefix ''v'' s") (simp_all add: strip_take digit_sem)
qed

definition edit_ok :: "string \<Rightarrow> v_mode \<Rightarrow> string \<Rightarrow> bool" where
  "edit_ok pre mode ver \<longleftrightarrow> 2 \<le> length pre \<and> \<not> sem_char (last pre) \<and> plain_version mode ver"

lemma pattern_pre:
  assumes "x \<noteq> []" "pre \<noteq> []" "\<not> sem_char (last pre)"
  shows "pattern_rest pre mode (x @ pre @ y) = None \<longleftrightarrow> pattern_rest pre mode (x @ pre @ z) = None"
proof (cases "take (length pre) (x @ pre) = pre")
  case True
  define r where "r = drop (length pre) (x @ pre)"
  have split: "x @ pre = pre @ r" using True append_take_drop_id[of "length pre" "x @ pre"] by (simp add: r_def)
  have "r \<noteq> []" using assms(1) unfolding r_def drop_eq_Nil length_append by simp
  then have "last r = last pre" using split assms(2) by (metis last_appendR)
  then have "\<not> sem_char (last r)" using assms(3) by simp
  moreover have "last r \<in> set r" using \<open>r \<noteq> []\<close> by (rule last_in_set)
  ultimately have t: "takeWhile sem_char (r @ w) = takeWhile sem_char r" for w by (intro takeWhile_append1)
  have "pattern_rest pre mode (x @ pre @ w) = version_rest mode (r @ w)" for w
  proof -
    have e: "x @ pre @ w = pre @ r @ w" using split by (metis append.assoc)
    show ?thesis unfolding pattern_rest_def e by simp
  qed
  then show ?thesis using version_take[of mode "r @ y"] version_take[of mode "r @ z"] t by simp
next
  case False
  have "strip_prefix pre (x @ pre @ w) = None" for w
  proof (cases "strip_prefix pre (x @ pre @ w)")
    case (Some t)
    then have "x @ pre @ w = pre @ t" by (simp add: strip_prefix_Some)
    then have "take (length pre) ((x @ pre) @ w) = pre" by simp
    then show ?thesis using False by simp
  qed
  then show ?thesis by (simp add: pattern_rest_def)
qed

lemma pattern_Some: "pattern_rest pre mode s = Some rest \<Longrightarrow> \<exists>w. s = pre @ w \<and> sem_stop rest"
  using version_stop by (auto simp: pattern_rest_def bind_eq_Some_conv strip_prefix_Some)

lemma pattern_plain: "plain_version mode ver \<Longrightarrow> sem_stop r \<Longrightarrow> pattern_rest pre mode (pre @ ver @ r) = Some r"
  using plain_rest by (simp add: pattern_rest_def)

lemma replace_first_before:
  assumes "pre \<noteq> []" "\<not> sem_char (last pre)" "x \<noteq> []"
  shows "pattern_rest pre mode (x @ replace_first pre mode ver s) = None \<longleftrightarrow> pattern_rest pre mode (x @ s) = None"
  using assms(3)
proof (induction s arbitrary: x)
  case Nil
  have "pattern_rest pre mode [] = None" using assms(1) by (cases pre) (simp_all add: pattern_rest_def)
  then show ?case by simp
next
  case (Cons c s)
  show ?case
  proof (cases "pattern_rest pre mode (c # s)")
    case None
    then show ?thesis using Cons.IH[of "x @ [c]"] by simp
  next
    case (Some rest)
    then obtain w where w: "c # s = pre @ w" using pattern_Some by blast
    have "replace_first pre mode ver (c # s) = pre @ ver @ rest" using Some by simp
    then show ?thesis unfolding w using pattern_pre[OF Cons.prems assms(1,2), of mode w "ver @ rest"] by simp
  qed
qed

lemma replace_first_twice:
  assumes "edit_ok pre mode ver"
  shows "replace_first pre mode ver (replace_first pre mode ver s) = replace_first pre mode ver s"
proof (induction s)
  case Nil
  have "pattern_rest pre mode [] = None" using assms by (cases pre) (simp_all add: edit_ok_def pattern_rest_def)
  then show ?case by simp
next
  case (Cons c s)
  have pre: "pre \<noteq> []" "\<not> sem_char (last pre)" "plain_version mode ver" using assms by (auto simp: edit_ok_def)
  show ?case
  proof (cases "pattern_rest pre mode (c # s)")
    case None
    then have "pattern_rest pre mode (c # replace_first pre mode ver s) = None"
      using replace_first_before[OF pre(1,2), of "[c]"] by simp
    then show ?thesis using None Cons.IH by simp
  next
    case (Some rest)
    then have "pattern_rest pre mode (pre @ ver @ rest) = Some rest" using pattern_Some pattern_plain pre(3) by blast
    moreover obtain p ps where "pre = p # ps" using pre(1) by (cases pre) auto
    ultimately show ?thesis using Some by simp
  qed
qed

lemma replace_all_Some: "pattern_rest pre mode s = Some rest \<Longrightarrow> replace_all pre mode ver s = pre @ ver @ replace_all pre mode ver rest"
  by (simp add: replace_all.simps[of pre mode ver s])

lemma replace_all_Cons: "pattern_rest pre mode (c # s) = None \<Longrightarrow> replace_all pre mode ver (c # s) = c # replace_all pre mode ver s"
  by (simp add: replace_all.simps[of pre mode ver "c # s"])

lemma replace_all_Nil: "pre \<noteq> [] \<Longrightarrow> replace_all pre mode ver [] = []"
  by (cases pre) (simp_all add: replace_all.simps[of _ mode ver "[]"] pattern_rest_def)

lemma matches_Some: "pattern_rest pre mode s = Some rest \<Longrightarrow> version_matches pre mode s = take (length s - length rest) s # version_matches pre mode rest"
  by (simp add: version_matches.simps[of pre mode s])

lemma matches_Cons: "pattern_rest pre mode (c # s) = None \<Longrightarrow> version_matches pre mode (c # s) = version_matches pre mode s"
  by (simp add: version_matches.simps[of pre mode "c # s"])

lemma matches_Nil: "pre \<noteq> [] \<Longrightarrow> version_matches pre mode [] = []"
  by (cases pre) (simp_all add: version_matches.simps[of _ mode "[]"] pattern_rest_def)

lemma replace_all_before:
  assumes "pre \<noteq> []" "\<not> sem_char (last pre)" "x \<noteq> []"
  shows "pattern_rest pre mode (x @ replace_all pre mode ver s) = None \<longleftrightarrow> pattern_rest pre mode (x @ s) = None"
  using assms(3)
proof (induction s arbitrary: x)
  case Nil
  then show ?case using assms(1) by (simp add: replace_all_Nil)
next
  case (Cons c s)
  show ?case
  proof (cases "pattern_rest pre mode (c # s)")
    case None
    then show ?thesis using Cons.IH[of "x @ [c]"] by (simp add: replace_all_Cons)
  next
    case (Some rest)
    then obtain w where w: "c # s = pre @ w" using pattern_Some by blast
    show ?thesis unfolding replace_all_Some[OF Some] unfolding w using pattern_pre[OF Cons.prems assms(1,2)] by blast
  qed
qed

lemma replace_all_start:
  assumes "2 \<le> length pre"
  shows "take 2 (replace_all pre mode ver s) = take 2 s \<and> take 1 (replace_all pre mode ver s) = take 1 s"
proof (induction s)
  case Nil
  then show ?case using assms replace_all_Nil[of pre mode ver] by (cases pre) simp_all
next
  case (Cons c s)
  show ?case
  proof (cases "pattern_rest pre mode (c # s)")
    case None
    have "take 2 (c # xs) = c # take 1 xs" for xs by (simp add: numeral_2_eq_2)
    then show ?thesis using Cons.IH by (simp add: replace_all_Cons[OF None])
  next
    case (Some rest)
    then obtain w where w: "c # s = pre @ w" using pattern_Some by blast
    show ?thesis unfolding replace_all_Some[OF Some] unfolding w using assms by simp
  qed
qed

lemma replace_all_stop:
  assumes "2 \<le> length pre" "sem_stop r"
  shows "sem_stop (replace_all pre mode ver r)"
proof -
  have "sem_stop a \<longleftrightarrow> sem_stop b" if "take 2 a = take 2 b" for a b
  proof (cases a; cases b)
    fix c t c' t' assume "a = c # t" "b = c' # t'"
    moreover have "take 1 t = take 1 t'" "c = c'" using that calculation by (simp_all add: numeral_2_eq_2)
    ultimately show ?thesis by (cases t; cases t') (auto simp: sem_stop_def)
  qed (use that in auto)
  then show ?thesis using replace_all_start[OF assms(1)] assms(2) by blast
qed

lemma replace_all_twice:
  assumes "edit_ok pre mode ver"
  shows "replace_all pre mode ver (replace_all pre mode ver s) = replace_all pre mode ver s \<and>
    (\<forall>t \<in> set (version_matches pre mode (replace_all pre mode ver s)). t = pre @ ver)"
proof (induction s rule: length_induct)
  case (1 s)
  have pre: "pre \<noteq> []" "\<not> sem_char (last pre)" "plain_version mode ver" "2 \<le> length pre" using assms by (auto simp: edit_ok_def)
  show ?case
  proof (cases "pattern_rest pre mode s")
    case (Some rest)
    let ?r = "replace_all pre mode ver rest"
    have "pattern_rest pre mode (pre @ ver @ ?r) = Some ?r"
      using pattern_Some[OF Some] pattern_plain[OF pre(3)] replace_all_stop[OF pre(4)] by blast
    moreover have "replace_all pre mode ver ?r = ?r \<and> (\<forall>t \<in> set (version_matches pre mode ?r). t = pre @ ver)"
      using 1 pattern_rest_less[OF Some] by blast
    ultimately show ?thesis unfolding replace_all_Some[OF Some] by (simp add: replace_all_Some matches_Some)
  next
    case None
    show ?thesis
    proof (cases s)
      case Nil
      then show ?thesis using pre(1) by (simp add: replace_all_Nil matches_Nil)
    next
      case (Cons c s')
      have n: "pattern_rest pre mode (c # s') = None" using None Cons by simp
      have "pattern_rest pre mode (c # replace_all pre mode ver s') = None"
        using replace_all_before[OF pre(1,2), of "[c]" mode ver s'] n by simp
      moreover have "replace_all pre mode ver (replace_all pre mode ver s') = replace_all pre mode ver s' \<and>
          (\<forall>t \<in> set (version_matches pre mode (replace_all pre mode ver s')). t = pre @ ver)" by (rule 1[rule_format]) (simp add: Cons)
      ultimately show ?thesis unfolding Cons by (simp add: replace_all_Cons[OF n] replace_all_Cons matches_Cons)
    qed
  qed
qed

text \<open>C23: Running the version edits again changes nothing.  With a plain version (no prerelease
  suffix) as the target, the edit of the \<open>go.mod\<close> require, the edit of an image in the chart and
  the edit of every image in a page give the same text when applied to their own result, whatever
  the text was; and every version the image pattern finds in an edited page is the target, so the
  check after the edit passes.\<close>

theorem version_edits_settle:
  assumes "plain_version MustV version" "plain_version MayV tag" "module \<noteq> []" "coord \<noteq> []"
  shows "go_mod_edit (module, version) (go_mod_edit (module, version) s) = go_mod_edit (module, version) s \<and>
    chart_image_edit coord tag (chart_image_edit coord tag s) = chart_image_edit coord tag s \<and>
    image_edit coord tag (image_edit coord tag s) = image_edit coord tag s \<and>
    page_step [(coord, tag)] s = Some (image_edit coord tag s)"
proof -
  have "edit_ok (module @ '' '') MustV version" "edit_ok (coord @ '':'') MayV tag"
    using assms by (cases module; cases coord; simp add: edit_ok_def sem_char_def is_digit_def)+
  then show ?thesis
    using replace_first_twice replace_all_twice[of "coord @ '':''" MayV tag s]
    by (simp add: go_mod_edit_def chart_image_edit_def image_edit_def page_step_def Let_def list_all_iff)
qed

theorem version_edits_settle_witness:
  "plain_version MustV ''v4.4.2'' \<and> plain_version MayV ''6.4.1'' \<and>
   go_mod_edit (''ex/pacto/v4'', ''v4.4.2'') (''require ex/pacto/v4 v4.4.2-rc.1'') = ''require ex/pacto/v4 v4.4.2'' \<and>
   go_mod_edit (''ex/pacto/v4'', ''v4.4.2'') (''require ex/pacto/v4 v4.4.2'') = ''require ex/pacto/v4 v4.4.2'' \<and>
   page_step [(''ex/op'', ''6.4.1'')] ''run ex/op:v6.0.0 or ex/op:5.9.9.'' = Some ''run ex/op:6.4.1 or ex/op:6.4.1.''"
proof -
  have m: "plain_version MustV ''v4.4.2''"
    unfolding plain_version_def by (rule exI[of _ "''v''"], rule exI[of _ "''4''"], rule exI[of _ "''4''"], rule exI[of _ "''2''"]) (simp add: is_digit_def)
  have t: "plain_version MayV ''6.4.1''"
    unfolding plain_version_def by (rule exI[of _ "[]"], rule exI[of _ "''6''"], rule exI[of _ "''4''"], rule exI[of _ "''1''"]) (simp add: is_digit_def)
  have e: "go_mod_edit (''ex/pacto/v4'', ''v4.4.2'') (''require ex/pacto/v4 v4.4.2-rc.1'') = ''require ex/pacto/v4 v4.4.2''" by code_simp
  have i: "image_edit ''ex/op'' ''6.4.1'' ''run ex/op:v6.0.0 or ex/op:5.9.9.'' = ''run ex/op:6.4.1 or ex/op:6.4.1.''" by code_simp
  show ?thesis
    using version_edits_settle[OF m t, of "''ex/pacto/v4''" "''ex/op''" "''require ex/pacto/v4 v4.4.2-rc.1''"]
      version_edits_settle[OF m t, of "''ex/pacto/v4''" "''ex/op''" "''run ex/op:v6.0.0 or ex/op:5.9.9.''"] m t e i by simp
qed

text \<open>
  With a prerelease target an edit can extend over what follows it: a full stop after a tag is
  taken for part of the version at the next run and removed, and the check of the page fails.
\<close>

lemma prerelease_edit_unstable:
  "image_edit ''ex/op'' ''6.5.0-rc.1'' ''Use ex/op:6.4.1.'' = ''Use ex/op:6.5.0-rc.1.'' \<and>
   image_edit ''ex/op'' ''6.5.0-rc.1'' ''Use ex/op:6.5.0-rc.1.'' = ''Use ex/op:6.5.0-rc.1'' \<and>
   page_step [(''ex/op'', ''6.5.0-rc.1'')] ''Use ex/op:6.4.1.'' = None"
  by code_simp

end
