(* ===== verification/ReleaseCycle.thy ===== *)
theory ReleaseCycle
  imports Detect Apply
begin

text \<open>
  The release scripts together: the transaction a plan yields, the manifest written for it, and
  what the next commit and a recovery decide from them.
\<close>

section \<open>Fields of a transaction\<close>

lemma json_get_stable: "distinct (map fst kvs) \<Longrightarrow> json_get (stable (JObj kvs)) k = map_option stable (map_of kvs k)"
proof -
  assume d: "distinct (map fst kvs)"
  let ?ms = "map (map_prod id stable) kvs"
  have d': "distinct (map fst ?ms)" using d by (simp add: comp_def)
  have "set (from_entries (sort_keys ?ms)) = set ?ms" by (rule canon_set[OF d'])
  moreover have "distinct (map fst (from_entries (sort_keys ?ms)))" using from_entries_distinct[OF distinct_sort_keys[OF d']] by blast
  ultimately have "map_of (from_entries (sort_keys ?ms)) = map_of ?ms" using map_of_inject_set[OF _ d'] by blast
  then show ?thesis by (simp add: map_of_map_snd)
qed

lemma stable_strs [simp]: "map (stable \<circ> JStr) xs = map JStr xs"
  by simp

lemma txn_fields:
  defines "txn \<equiv> \<lambda>sha dtoa plan units prev. Some (buildTransaction sha dtoa plan units prev)"
  shows "txn_get (txn sha dtoa plan units prev) ''schema'' = Some (JStr TXN_SCHEMA)"
    and "txn_get (txn sha dtoa plan units prev) ''ready'' = Some (JBool (changedUnits plan prev \<noteq> []))"
    and "txn_get (txn sha dtoa plan units prev) ''changedUnits'' = Some (JArr (map JStr (changedUnits plan prev)))"
    and "txn_get (txn sha dtoa plan units prev) ''sourceSha'' = Some (JStr [])"
    and "txn_get (txn sha dtoa plan units prev) ''manifestSha'' = Some (JStr (manifestSha sha dtoa (str_obj (newVersions plan))))"
    and "\<exists>t. txn_get (txn sha dtoa plan units prev) ''transactionId'' = Some (JStr (if changedUnits plan prev = [] then [] else take 16 (sha t)))"
    and "json_truthy (txn sha dtoa plan units prev)"
  unfolding txn_def txn_get_def buildTransaction_def Let_def bind.simps
  by (subst json_get_stable; simp add: sha256Stable_def; blast?)+ simp?

lemma txn_valid:
  "valid (Some (buildTransaction sha dtoa plan units prev))"
  "txn_units (Some (buildTransaction sha dtoa plan units prev)) = map JStr (changedUnits plan prev)"
  using txn_fields by (simp_all add: valid_def txn_units_def strict_eq_def json_array_def)

section \<open>The manifest\<close>

lemma dict_of_distinct: "distinct (map fst (dict_of kvs))"
proof -
  have "distinct (map fst m) \<Longrightarrow> distinct (map fst (foldl (\<lambda>m kv. AList.update (fst kv) (snd kv) m) m kvs))" for m
    by (induction kvs arbitrary: m) (simp_all add: distinct_update)
  then show ?thesis by (simp add: dict_of_def)
qed

lemma dict_of_id: "distinct (map fst kvs) \<Longrightarrow> dict_of kvs = kvs"
  using foldl_update_fresh[of "[]" kvs] by (simp add: dict_of_def)

lemma dict_of_map: "dict_of (map (map_prod id f) kvs) = map (map_prod id f) (dict_of kvs)"
proof -
  have up: "AList.update k (f v) (map (map_prod id f) m) = map (map_prod id f) (AList.update k v m)" for k v m
    by (induction m) auto
  have "foldl (\<lambda>m kv. AList.update (fst kv) (snd kv) m) (map (map_prod id f) m) (map (map_prod id f) kvs) =
      map (map_prod id f) (foldl (\<lambda>m kv. AList.update (fst kv) (snd kv) m) m kvs)" for m
  proof (induction kvs arbitrary: m)
    case (Cons kv kvs)
    have "foldl (\<lambda>m kv. AList.update (fst kv) (snd kv) m) (map (map_prod id f) m) (map (map_prod id f) (kv # kvs)) =
        foldl (\<lambda>m kv. AList.update (fst kv) (snd kv) m) (map (map_prod id f) (AList.update (fst kv) (snd kv) m)) (map (map_prod id f) kvs)"
      unfolding list.map foldl_Cons fst_map_prod snd_map_prod id_apply up ..
    also have "\<dots> = map (map_prod id f) (foldl (\<lambda>m kv. AList.update (fst kv) (snd kv) m) m (kv # kvs))"
      unfolding foldl_Cons by (rule Cons.IH)
    finally show ?case .
  qed simp
  from this[of "[]"] show ?thesis by (simp add: dict_of_def)
qed

lemma manifest_records_versions: "manifest_versions (manifest_units plan unitCoord) = newVersions plan"
proof -
  have "map (map_prod id mu_version) (manifest_units plan unitCoord) = newVersions plan"
    unfolding manifest_units_def newVersions_def dict_of_map[symmetric] by (simp add: comp_def split_def)
  then show ?thesis using dict_of_id[OF dict_of_distinct] unfolding manifest_versions_def newVersions_def by metis
qed

lemma changedUnits_iff:
  "u \<in> set (changedUnits plan prev) \<longleftrightarrow> u \<in> set (keys_of (newVersions plan)) \<and> map_of prev u \<noteq> map_of (newVersions plan) u"
  by (auto simp: changedUnits_def)

lemma changedUnits_settled: "changedUnits plan (newVersions plan) = []"
  by (simp add: changedUnits_def)

lemma str_obj_ok: "distinct (map fst d) \<Longrightarrow> wf_json (str_obj d) \<and> no_nums (str_obj d)"
proof -
  assume d: "distinct (map fst d)"
  have "set (own_order (map (map_prod id JStr) d)) = set (map (map_prod id JStr) d)" by (auto simp: own_order_def)
  moreover have "distinct (map fst (own_order (map (map_prod id JStr) d)))"
  proof -
    have "distinct (map fst (map (map_prod id JStr) d))" using d by (simp add: comp_def)
    from from_entries_distinct[OF this] show ?thesis by metis
  qed
  ultimately show ?thesis by (auto simp: str_obj_def list_all_iff)
qed

lemma manifestSha_content:
  assumes "wf_json mv" "json_eq mv (str_obj (newVersions plan))"
  shows "manifestSha sha dtoa mv = manifestSha sha dtoa (str_obj (newVersions plan))"
proof -
  have "wf_json (str_obj (newVersions plan))" using str_obj_ok dict_of_distinct unfolding newVersions_def by blast
  then have "stable mv = stable (str_obj (newVersions plan))" using stable_eq_iff[OF assms(1)] assms(2) by blast
  then show ?thesis by (simp add: manifestSha_def sha256Stable_def)
qed

section \<open>One release\<close>

text \<open>C8: A release and what follows it.  The transaction built from a plan names exactly the units
  whose version differs from the one recorded before; it releases when there is one, unless the
  previous commit already carried it ready, and it never releases on a commit that carries it
  unchanged.  Once the manifest of the plan is written, the transaction built against it releases
  nothing.  And a recovery that names the transaction and a source is accepted for exactly those
  units when the manifest it reads has the plan's versions, in whatever order it lists them.\<close>

theorem release_cycle:
  assumes "\<forall>t. length (sha t) = 64"
  shows "let txn = Some (buildTransaction sha dtoa plan units prev);
      after = Some (buildTransaction sha dtoa plan units (manifest_versions (manifest_units plan unitCoord)));
      changed = changedUnits plan prev in
    (\<forall>u. u \<in> set changed \<longleftrightarrow> u \<in> set (keys_of (newVersions plan)) \<and> map_of prev u \<noteq> map_of (newVersions plan) u) \<and>
    (case decideRelease txn prevTxn of
       Inl r \<Rightarrow> changed = [] \<and> r = NotReady \<or>
         changed \<noteq> [] \<and> valid prevTxn \<and> strict_eq (txn_get prevTxn ''transactionId'') (txn_get txn ''transactionId'') \<and> r = Unchanged
     | Inr d \<Rightarrow> changed \<noteq> [] \<and> rd_changedUnits d = map JStr changed) \<and>
    (\<forall>d. decideRelease txn txn \<noteq> Inr d) \<and>
    decideRelease after prevTxn = Inl NotReady \<and>
    (\<forall>mv inp. changed \<noteq> [] \<and> wf_json mv \<and> json_eq mv (str_obj (newVersions plan)) \<and>
       txn_get txn ''transactionId'' = map_option JStr (ri_transactionId inp) \<and> truthy (ri_sourceSha inp) \<and> ri_units inp = None \<longrightarrow>
       decideRecovery sha dtoa txn (Some inp) (Some mv) = Inr (txn_get txn ''transactionId'', map JStr changed))"
proof -
  let ?txn = "Some (buildTransaction sha dtoa plan units prev)"
  let ?changed = "changedUnits plan prev"
  note f = txn_fields[of sha dtoa plan units prev] txn_valid[of sha dtoa plan units prev]
  obtain t where tid: "txn_get ?txn ''transactionId'' = Some (JStr (if ?changed = [] then [] else take 16 (sha t)))" using f(6) by blast
  have rel: "decideRelease ?txn prev' =
      (if ?changed = [] then Inl NotReady
       else if valid prev' \<and> json_truthy (txn_get prev' ''ready'') \<and> strict_eq (txn_get prev' ''transactionId'') (txn_get ?txn ''transactionId'') then Inl Unchanged
       else Inr \<lparr> rd_transactionId = txn_get ?txn ''transactionId'', rd_changedGroups = txn_get ?txn ''changedGroups'',
             rd_changedUnits = map JStr ?changed, rd_dependencyOrder = txn_get ?txn ''dependencyOrder'' \<rparr>)" for prev'
    using f by (simp add: decideRelease_def)
  have same: "decideRelease ?txn ?txn \<noteq> Inr d" for d unfolding rel using f tid by (simp add: strict_eq_def)
  have after: "decideRelease (Some (buildTransaction sha dtoa plan units (manifest_versions (manifest_units plan unitCoord)))) prevTxn = Inl NotReady"
    using txn_fields txn_valid unfolding manifest_records_versions by (simp add: decideRelease_def changedUnits_settled)
  have rec: "decideRecovery sha dtoa ?txn (Some inp) (Some mv) = Inr (txn_get ?txn ''transactionId'', map JStr ?changed)"
    if "?changed \<noteq> []" "wf_json mv" "json_eq mv (str_obj (newVersions plan))" "txn_get ?txn ''transactionId'' = map_option JStr (ri_transactionId inp)"
      "truthy (ri_sourceSha inp)" "ri_units inp = None" for mv inp
  proof -
    have "ri_transactionId inp = Some (take 16 (sha t))" using that(1,4) tid by (cases "ri_transactionId inp") simp_all
    moreover have "take 16 (sha t) \<noteq> []" using assms by (metis length_0_conv numeral_eq_iff take_eq_Nil zero_neq_numeral)
    ultimately show ?thesis
      using f tid that manifestSha_content[OF that(2,3), of sha dtoa] by (simp add: decideRecovery_def strict_eq_def truthy_def)
  qed
  show ?thesis
    unfolding Let_def
  proof (intro conjI allI impI)
    show "case decideRelease ?txn prevTxn of
       Inl r \<Rightarrow> ?changed = [] \<and> r = NotReady \<or>
         ?changed \<noteq> [] \<and> valid prevTxn \<and> strict_eq (txn_get prevTxn ''transactionId'') (txn_get ?txn ''transactionId'') \<and> r = Unchanged
     | Inr d \<Rightarrow> ?changed \<noteq> [] \<and> rd_changedUnits d = map JStr ?changed" unfolding rel by simp
  qed (use same after rec in \<open>simp_all add: changedUnits_iff\<close>)
qed

definition demo_plan :: "string \<Rightarrow> release_plan" where
  "demo_plan v = \<lparr> rp_groups = [(''core'', \<lparr> gr_version = v, gr_tags = [], gr_goModPin = None, gr_assertNoReplace = False,
     gr_artifacts = core_artifacts [] v, gr_pactoCore = None \<rparr>)], rp_publishOrder = PUBLISH_ORDER \<rparr>"

theorem release_cycle_witness:
  "let sha = (\<lambda>_. replicate 64 (CHR ''0'')); prev = [(''core'', ''4.4.1''), (''cli'', ''4.4.2'')];
       txn = Some (buildTransaction sha (\<lambda>_. []) (demo_plan ''4.4.2'') [] prev);
       after = Some (buildTransaction sha (\<lambda>_. []) (demo_plan ''4.4.2'') [] (manifest_versions (manifest_units (demo_plan ''4.4.2'') [])))
   in (\<forall>t::string. length (sha t) = 64) \<and>
      changedUnits (demo_plan ''4.4.2'') prev = [''core'', ''dashboard-contract-bundle'', ''dashboard-image'', ''demo-bundles'', ''demo-compose''] \<and>
      (\<forall>d. decideRelease txn txn \<noteq> Inr d) \<and> decideRelease after txn = Inl NotReady"
proof -
  have sha: "\<forall>t::string. length ((\<lambda>_. replicate 64 (CHR ''0'')) t) = 64" by simp
  have c: "changedUnits (demo_plan ''4.4.2'') [(''core'', ''4.4.1''), (''cli'', ''4.4.2'')] =
      [''core'', ''dashboard-contract-bundle'', ''dashboard-image'', ''demo-bundles'', ''demo-compose'']" by code_simp
  show ?thesis
    using release_cycle[OF sha, of "\<lambda>_. []" "demo_plan ''4.4.2''" "[]" "[(''core'', ''4.4.1''), (''cli'', ''4.4.2'')]" "[]"
        "Some (buildTransaction (\<lambda>_. replicate 64 (CHR ''0'')) (\<lambda>_. []) (demo_plan ''4.4.2'') [] [(''core'', ''4.4.1''), (''cli'', ''4.4.2'')])"] c sha
    unfolding Let_def by blast
qed

section \<open>The job never publishes more than the transaction\<close>

lemma strict_eq_str: "strict_eq (Some (JStr s)) w \<longleftrightarrow> w = Some (JStr s)"
  by (auto simp: strict_eq_def split: option.splits json.splits)

text \<open>When a transaction may be released by a push, and when it may be recovered.\<close>

definition releasable :: "json option \<Rightarrow> bool" where
  "releasable txn \<longleftrightarrow> valid txn \<and> json_truthy (txn_get txn ''ready'') \<and> txn_units txn \<noteq> []"

lemma decideRelease_exact:
  "case decideRelease txn prev of
     Inl _ \<Rightarrow> \<not> releasable txn \<or> valid prev \<and> json_truthy (txn_get prev ''ready'') \<and> strict_eq (txn_get prev ''transactionId'') (txn_get txn ''transactionId'')
   | Inr d \<Rightarrow> releasable txn \<and> rd_changedUnits d = txn_units txn \<and> rd_transactionId d = txn_get txn ''transactionId'' \<and>
       \<not> (valid prev \<and> json_truthy (txn_get prev ''ready'') \<and> strict_eq (txn_get prev ''transactionId'') (txn_get txn ''transactionId''))"
  by (simp add: decideRelease_def releasable_def)

definition recoverable ::
    "(string \<Rightarrow> string) \<Rightarrow> (jsnum \<Rightarrow> string) \<Rightarrow> json option \<Rightarrow> string option \<Rightarrow> string option \<Rightarrow> string list \<Rightarrow> json option \<Rightarrow> bool" where
  "recoverable sha dtoa txn tid src asked mv \<longleftrightarrow>
     releasable txn \<and> truthy tid \<and> txn_get txn ''transactionId'' = map_option JStr tid \<and> truthy src \<and>
     (json_truthy (txn_get txn ''sourceSha'') \<longrightarrow> txn_get txn ''sourceSha'' = map_option JStr src) \<and>
     (json_truthy mv \<longrightarrow> txn_get txn ''manifestSha'' = Some (JStr (manifestSha sha dtoa (the mv)))) \<and>
     JStr ` set asked \<subseteq> set (txn_units txn)"

lemma decideRecovery_exact:
  "case decideRecovery sha dtoa txn (Some inp) mv of
     Inl _ \<Rightarrow> \<not> recoverable sha dtoa txn (ri_transactionId inp) (ri_sourceSha inp) (nullish (ri_units inp) []) mv
   | Inr b \<Rightarrow> recoverable sha dtoa txn (ri_transactionId inp) (ri_sourceSha inp) (nullish (ri_units inp) []) mv \<and>
       b = (txn_get txn ''transactionId'', if nullish (ri_units inp) [] = [] then txn_units txn else map JStr (nullish (ri_units inp) []))"
proof -
  have id: "strict_eq (map_option JStr x) w \<longleftrightarrow> w = map_option JStr x" if "truthy x" for x w
    using that by (cases x) (simp_all add: strict_eq_str)
  have f: "filter (\<lambda>u. JStr u \<notin> U) xs = [] \<longleftrightarrow> JStr ` set xs \<subseteq> U" for U xs by (auto simp: filter_empty_conv)
  show ?thesis
    unfolding decideRecovery_def Let_def recoverable_def releasable_def by (simp add: id strict_eq_str f)
qed

text \<open>C2: Exactly what the detect job emits.  It emits a release exactly when the transaction is valid,
  ready and not empty, and: on a push, the previous commit did not carry the same ready
  transaction; on a dispatch, it was given the transaction's own id and a source commit, that
  commit is the recorded one if one is recorded, the manifest has the recorded hash if it could
  be read, and every unit asked for is a unit of the transaction.  What it emits are the units
  asked for on a dispatch that asks for some, else all of the transaction's, under its id.  It
  exits with an error exactly when it refuses a dispatch.\<close>

theorem detect_main_safe:
  assumes "detect_main sha dtoa env head prev mv = (code, out)" "ri_units (recovery_of_env env) = Some asked"
  shows "do_release out =
      (valid head \<and> json_truthy (txn_get head ''ready'') \<and> txn_units head \<noteq> [] \<and>
       (if de_event env = Some ''workflow_dispatch''
        then truthy (de_transactionId env) \<and> txn_get head ''transactionId'' = map_option JStr (de_transactionId env) \<and> truthy (de_sourceSha env) \<and>
          (json_truthy (txn_get head ''sourceSha'') \<longrightarrow> txn_get head ''sourceSha'' = map_option JStr (de_sourceSha env)) \<and>
          (json_truthy mv \<longrightarrow> txn_get head ''manifestSha'' = Some (JStr (manifestSha sha dtoa (the mv)))) \<and>
          JStr ` set asked \<subseteq> set (txn_units head)
        else \<not> (valid prev \<and> json_truthy (txn_get prev ''ready'') \<and> strict_eq (txn_get prev ''transactionId'') (txn_get head ''transactionId'')))) \<and>
    (do_release out \<longrightarrow>
       do_units out = (if de_event env = Some ''workflow_dispatch'' \<and> asked \<noteq> [] then map JStr asked else txn_units head) \<and>
       do_units out \<noteq> [] \<and> set (do_units out) \<subseteq> set (txn_units head) \<and>
       do_transaction_id out = txn_get head ''transactionId'' \<and> do_recover out = (de_event env = Some ''workflow_dispatch'')) \<and>
    code = (if de_event env = Some ''workflow_dispatch'' \<and> \<not> do_release out then 1 else 0)"
proof (cases "de_event env = Some ''workflow_dispatch''")
  case True
  then have e: "or_else (de_event env) ''push'' = ''workflow_dispatch''" by (simp add: or_else_def truthy_def)
  have i: "ri_transactionId (recovery_of_env env) = de_transactionId env" "ri_sourceSha (recovery_of_env env) = de_sourceSha env"
    "nullish (ri_units (recovery_of_env env)) [] = asked" using assms(2) by (simp_all add: recovery_of_env_def)
  note d = decideRecovery_exact[of sha dtoa head "recovery_of_env env" mv, unfolded i]
  show ?thesis
  proof (cases "decideRecovery sha dtoa head (Some (recovery_of_env env)) mv")
    case (Inl r)
    then show ?thesis using assms(1) True e d by (auto simp: detect_main_def no_output_def recoverable_def releasable_def)
  next
    case (Inr b)
    then show ?thesis using assms(1) True e d by (cases b) (auto simp: detect_main_def recoverable_def releasable_def)
  qed
next
  case False
  then have e: "or_else (de_event env) ''push'' \<noteq> ''workflow_dispatch''" by (cases "de_event env") (auto simp: or_else_def truthy_def)
  note d = decideRelease_exact[of head prev]
  show ?thesis
  proof (cases "decideRelease head prev")
    case (Inl r)
    then show ?thesis using assms(1) False e d by (auto simp: detect_main_def no_output_def releasable_def)
  next
    case (Inr x)
    then show ?thesis using assms(1) False e d by (auto simp: detect_main_def releasable_def)
  qed
qed

definition demo_versions :: json where
  "demo_versions = JObj [(''cli'', JStr ''1.2.0''), (''core'', JStr ''4.4.2'')]"

definition demo_txn :: json where
  "demo_txn =
     JObj [(''changedUnits'', JArr [JStr ''cli'', JStr ''core'']), (''manifestSha'', JStr (manifestSha id (\<lambda>_. []) demo_versions)), (''ready'', JBool True),
       (''schema'', JStr TXN_SCHEMA), (''sourceSha'', JStr ''abc''), (''transactionId'', JStr ''t1'')]"

definition demo_env :: "string \<Rightarrow> detect_env" where
  "demo_env src =
     \<lparr> de_event = Some ''workflow_dispatch'', de_transactionId = Some ''t1'', de_sourceSha = Some src, de_units = Some ''cli, '', de_sha = None \<rparr>"

text \<open>A recorded source and a readable manifest: recovered from that commit, refused from another.\<close>

theorem detect_main_safe_witness:
  "(let (code, out) = detect_main id (\<lambda>_. []) (demo_env ''abc'') (Some demo_txn) None (Some demo_versions)
    in code = 0 \<and> do_release out \<and> do_recover out \<and> do_units out = [JStr ''cli'']) \<and>
   (let (code, out) = detect_main id (\<lambda>_. []) (demo_env ''def'') (Some demo_txn) None (Some demo_versions) in code = 1 \<and> \<not> do_release out)"
proof -
  have u: "ri_units (recovery_of_env (demo_env s)) = Some [''cli'']" for s unfolding demo_env_def recovery_of_env_def by simp code_simp
  have t: "valid (Some demo_txn)" "txn_units (Some demo_txn) = [JStr ''cli'', JStr ''core'']" "txn_get (Some demo_txn) ''ready'' = Some (JBool True)"
    "txn_get (Some demo_txn) ''transactionId'' = Some (JStr ''t1'')" "txn_get (Some demo_txn) ''sourceSha'' = Some (JStr ''abc'')"
    "txn_get (Some demo_txn) ''manifestSha'' = Some (JStr (manifestSha id (\<lambda>_. []) demo_versions))"
    by (simp_all add: demo_txn_def valid_def txn_get_def txn_units_def json_array_def strict_eq_def)
  have r: "do_release out = (s = ''abc'') \<and> (do_release out \<longrightarrow> do_units out = [JStr ''cli''] \<and> do_recover out) \<and> code = (if do_release out then 0 else 1)"
    if "detect_main id (\<lambda>_. []) (demo_env s) (Some demo_txn) None (Some demo_versions) = (code, out)" "s \<noteq> []" for s code out
    using detect_main_safe[OF that(1) u] that(2) t by (auto simp: demo_env_def truthy_def)
  show ?thesis using r[OF prod.collapse[symmetric], of "''abc''"] r[OF prod.collapse[symmetric], of "''def''"] by (simp add: case_prod_beta)
qed

text \<open>
  A missing input does not refuse a recovery.  The planner records no source commit, so any
  commit is accepted for its transactions, and a manifest that cannot be read is not compared.
\<close>

lemma recovery_unchecked:
  assumes "changedUnits plan prev \<noteq> []" "txn = Some (buildTransaction sha dtoa plan units prev)"
    and "txn_get txn ''transactionId'' = Some (JStr tid)" "tid \<noteq> []" "src \<noteq> []"
  shows "decideRecovery sha dtoa txn (Some \<lparr> ri_transactionId = Some tid, ri_sourceSha = Some src, ri_units = None \<rparr>) None =
    Inr (Some (JStr tid), map JStr (changedUnits plan prev))"
  using assms(1,3-5) txn_fields(2,4) txn_valid unfolding assms(2) by (simp add: decideRecovery_def strict_eq_def truthy_def)

end
