(* ===== verification/Api.thy ===== *)
theory Api
  imports Json
begin

text \<open>
  The product API at the boundary (\<open>lib/api.ts\<close>): how a response becomes data or a typed error,
  the runtime check of an entity detail, and the CSRF token of a mutating request with its single
  retry.  A response body is a JSON value (\<open>None\<close> is \<open>undefined\<close>); the network is a parameter of
  the definitions that use it.  The cached token is threaded through one request at a time, and a
  token has no surrounding blanks, which a header would lose.
\<close>

section \<open>Responses\<close>

record api_response =
  re_ok :: bool
  re_status :: int
  re_statusText :: string
  re_data :: "json option"
  re_error :: "json option"

text \<open>\<open>ApiError\<close> with its status, message, code and plan; \<open>SchemaCompatibilityError\<close>; and
  \<open>ApiContractError\<close> with its message.\<close>

datatype client_err = HttpErr int json json "json option" | SchemaErr json | ContractErr string

text \<open>\<open>??\<close> on a field: \<open>null\<close> and \<open>undefined\<close> give the default.\<close>

definition or_null :: "json option \<Rightarrow> json \<Rightarrow> json" where
  "or_null v d = (case v of None \<Rightarrow> d | Some JNull \<Rightarrow> d | Some j \<Rightarrow> j)"

definition errorCode :: "json option \<Rightarrow> json \<times> json option" where
  "errorCode err = (if is_object err then (or_null (field err ''code'') (JStr []), field err ''plan'') else (JStr [], None))"

definition errorMessage :: "json option \<Rightarrow> api_response \<Rightarrow> json" where
  "errorMessage err r =
     (if is_object err \<and> json_truthy (field err ''detail'') then the (field err ''detail'')
      else if is_object err \<and> json_truthy (field err ''title'') then the (field err ''title'')
      else case err of
        Some (JStr s) \<Rightarrow> if s \<noteq> [] then JStr s else JStr (if re_statusText r \<noteq> [] then re_statusText r else ''HTTP '' @ show_int (re_status r))
      | _ \<Rightarrow> JStr (if re_statusText r \<noteq> [] then re_statusText r else ''HTTP '' @ show_int (re_status r)))"

definition unwrap :: "api_response \<Rightarrow> client_err + json" where
  "unwrap r =
     (if \<not> re_ok r \<or> re_error r \<noteq> None
      then Inl (HttpErr (re_status r) (errorMessage (re_error r) r) (fst (errorCode (re_error r))) (snd (errorCode (re_error r))))
      else Inr (or_null (re_data r) JNull))"

definition PRODUCT_SCHEMA_VERSION :: string where
  "PRODUCT_SCHEMA_VERSION = ''pacto.dev/fleet-product/v1''"

definition checkProductSchema :: "json option \<Rightarrow> client_err option" where
  "checkProductSchema meta =
     (let v = or_null (field meta ''schemaVersion'') (JStr [])
      in if v \<noteq> JStr PRODUCT_SCHEMA_VERSION then Some (SchemaErr v) else None)"

definition productGet :: "api_response \<Rightarrow> client_err + json" where
  "productGet r =
     (case unwrap r of
        Inl e \<Rightarrow> Inl e
      | Inr res \<Rightarrow> (case checkProductSchema (json_get res ''meta'') of Some e \<Rightarrow> Inl e | None \<Rightarrow> Inr res))"

section \<open>Entity detail\<close>

definition DETAIL_KINDS :: "string list" where
  "DETAIL_KINDS = [''service'', ''revision'', ''target'', ''owner'', ''source'', ''domain'', ''offering'']"

definition narrowEntityDetail :: "(jsnum \<Rightarrow> string) \<Rightarrow> json \<Rightarrow> client_err + json" where
  "narrowEntityDetail dtoa raw =
     (let entity = json_get raw ''entity''; kind = field entity ''kind'' in
      if \<not> json_truthy entity \<or> \<not> json_truthy kind then Inl (ContractErr ''entity-detail response carries no entity'')
      else if the kind \<notin> JStr ` set DETAIL_KINDS
        then Inl (ContractErr (''entity-detail response has unsupported kind '' @ stringify dtoa (the kind)))
      else
        let present = filter (\<lambda>k. json_get raw k \<notin> {None, Some JNull}) DETAIL_KINDS in
        if length present \<noteq> 1
        then Inl (ContractErr (''entity-detail response must carry exactly one payload, found '' @ show_nat (length present) @
          (if present \<noteq> [] then '' ('' @ join '', '' present @ '')'' else [])))
        else if the kind \<noteq> JStr (hd present)
        then Inl (ContractErr (''entity-detail response kind '' @ (case the kind of JStr k \<Rightarrow> k | _ \<Rightarrow> []) @
          '' does not match its payload '' @ hd present))
        else Inr raw)"

definition fleetEntityDetail :: "(jsnum \<Rightarrow> string) \<Rightarrow> api_response \<Rightarrow> client_err + json" where
  "fleetEntityDetail dtoa r = (case productGet r of Inl e \<Rightarrow> Inl e | Inr raw \<Rightarrow> narrowEntityDetail dtoa raw)"

section \<open>The CSRF token\<close>

text \<open>The cached token, and what a read of the session gives: \<open>None\<close> when it fails.\<close>

definition csrfHeaders :: "string \<Rightarrow> string option option \<Rightarrow> string" where
  "csrfHeaders csrf session = (if csrf \<noteq> [] then csrf else nullish (nullish session None) [])"

record csrf_run =
  cr_csrf :: string
  cr_sent :: "string option list"
  cr_status :: int
  cr_unauthorized :: bool

definition token_header :: "string \<Rightarrow> string option" where
  "token_header t = (if t = [] then None else Some t)"

text \<open>
  One request through the middleware: the token it carries, the response of the server to the
  token it was sent with, and the retry.  \<open>session1\<close> is the session read before the request,
  \<open>session2\<close> the one after a refusal.
\<close>

definition send_request ::
    "(string option \<Rightarrow> int) \<Rightarrow> string option option \<Rightarrow> string option option \<Rightarrow> string \<Rightarrow> string \<Rightarrow> string \<Rightarrow> csrf_run" where
  "send_request serve session1 session2 pathname meth csrf =
     (let mutating = (meth \<noteq> ''GET'' \<and> meth \<noteq> ''HEAD'');
          csrf1 = (if mutating then csrfHeaders csrf session1 else csrf);
          sent = (if mutating then token_header csrf1 else None);
          status = serve sent;
          unauthorized = (status = 401 \<and> pathname \<noteq> ''/api/session'')
      in if status \<noteq> 403 \<or> \<not> mutating
         then \<lparr> cr_csrf = csrf1, cr_sent = [sent], cr_status = status, cr_unauthorized = unauthorized \<rparr>
         else
           let fresh = csrfHeaders [] session2
           in if fresh = [] \<or> fresh = nullish sent []
              then \<lparr> cr_csrf = fresh, cr_sent = [sent], cr_status = status, cr_unauthorized = unauthorized \<rparr>
              else \<lparr> cr_csrf = fresh, cr_sent = [sent, Some fresh], cr_status = serve (Some fresh), cr_unauthorized = unauthorized \<rparr>)"

section \<open>People\<close>

text \<open>Who signed in: their username and their name.\<close>

type_synonym me_person = "string option \<times> string option"

text \<open>\<open>/^system:serviceaccount:[^:]+:(.+)$/\<close> on a name with no line break.\<close>

definition service_account :: "string \<Rightarrow> string option" where
  "service_account user =
     (case strip_prefix ''system:serviceaccount:'' user of
        None \<Rightarrow> None
      | Some r \<Rightarrow> (case cut_at (CHR '':'') r of
            (ns, Some name) \<Rightarrow> if ns \<noteq> [] \<and> name \<noteq> [] then Some name else None
          | _ \<Rightarrow> None))"

definition personLabel :: "string option \<Rightarrow> string dict option \<Rightarrow> me_person option \<Rightarrow> string" where
  "personLabel user people self =
     (if \<not> truthy user then []
      else if truthy (Option.bind people (\<lambda>p. map_of p (the user))) then the (map_of (the people) (the user))
      else if truthy (Option.bind self snd) \<and> Option.bind self fst = user then the (snd (the self))
      else case service_account (the user) of
        Some name \<Rightarrow> name
      | None \<Rightarrow>
          (case cut_at (CHR ''#'') (rev (the user)) of
             (tl_rev, Some hd_rev) \<Rightarrow> if hd_rev \<noteq> [] \<and> tl_rev \<noteq> [] then rev tl_rev else the user
           | _ \<Rightarrow> the user))"

definition teamGroups :: "string list option \<Rightarrow> string list" where
  "teamGroups groups = filter (\<lambda>g. \<not> startsWith g ''system:'') (nullish groups [])"

section \<open>What the boundary lets through\<close>

lemma or_null_str: "or_null v (JStr []) = JStr s \<Longrightarrow> s \<noteq> [] \<Longrightarrow> v = Some (JStr s)"
  by (auto simp: or_null_def split: option.splits json.splits)

lemma json_get_JNull [simp]: "json_get JNull k = None"
  by simp

lemma productGet_Inr:
  assumes "productGet r = Inr raw"
  shows "re_ok r \<and> re_error r = None \<and> re_data r = Some raw \<and> field (json_get raw ''meta'') ''schemaVersion'' = Some (JStr PRODUCT_SCHEMA_VERSION)"
proof -
  have u: "unwrap r = Inr raw" and c: "checkProductSchema (json_get raw ''meta'') = None"
    using assms by (auto simp: productGet_def split: sum.splits option.splits)
  have "or_null (field (json_get raw ''meta'') ''schemaVersion'') (JStr []) = JStr PRODUCT_SCHEMA_VERSION"
    using c by (simp add: checkProductSchema_def Let_def split: if_splits)
  then have v: "field (json_get raw ''meta'') ''schemaVersion'' = Some (JStr PRODUCT_SCHEMA_VERSION)"
    by (rule or_null_str) (simp add: PRODUCT_SCHEMA_VERSION_def)
  then have "raw \<noteq> JNull" by auto
  then show ?thesis using u v by (auto simp: unwrap_def or_null_def split: if_splits option.splits json.splits)
qed

lemma productGet_Inl:
  assumes "productGet r = Inl e"
  shows "case e of
      HttpErr status _ _ _ \<Rightarrow> (\<not> re_ok r \<or> re_error r \<noteq> None) \<and> status = re_status r
    | SchemaErr v \<Rightarrow> re_ok r \<and> re_error r = None \<and> v \<noteq> JStr PRODUCT_SCHEMA_VERSION \<and>
        v = or_null (field (Option.bind (re_data r) (\<lambda>d. json_get d ''meta'')) ''schemaVersion'') (JStr [])
    | ContractErr _ \<Rightarrow> False"
proof (cases "unwrap r")
  case (Inl e')
  then have "e = e'" using assms by (simp add: productGet_def)
  then show ?thesis using Inl by (auto simp: unwrap_def split: if_splits)
next
  case (Inr res)
  then have ok: "re_ok r" "re_error r = None" "res = or_null (re_data r) JNull" by (auto simp: unwrap_def split: if_splits)
  have meta: "json_get res ''meta'' = Option.bind (re_data r) (\<lambda>d. json_get d ''meta'')"
    unfolding ok(3) by (auto simp: or_null_def split: option.splits json.splits)
  from assms Inr obtain v where "e = SchemaErr v" "v \<noteq> JStr PRODUCT_SCHEMA_VERSION" "v = or_null (field (json_get res ''meta'') ''schemaVersion'') (JStr [])"
    by (auto simp: productGet_def checkProductSchema_def Let_def split: if_splits option.splits)
  then show ?thesis using ok meta by simp
qed

lemma filter_single: "length (filter P xs) = 1 \<Longrightarrow> x \<in> set xs \<Longrightarrow> P x \<longleftrightarrow> x = hd (filter P xs)"
proof -
  assume "length (filter P xs) = 1" "x \<in> set xs"
  then obtain y where y: "filter P xs = [y]" by (metis length_0_conv length_Suc_conv One_nat_def)
  then have "{x \<in> set xs. P x} = {y}" using set_filter[of P xs] by simp
  then have "x \<in> set xs \<and> P x \<longleftrightarrow> x = y" by blast
  then show ?thesis using \<open>x \<in> set xs\<close> y by simp
qed

lemma narrow_Inr:
  assumes "narrowEntityDetail dtoa raw = Inr raw'"
  shows "raw' = raw \<and> (\<exists>k \<in> set DETAIL_KINDS. field (json_get raw ''entity'') ''kind'' = Some (JStr k) \<and>
    (\<forall>k' \<in> set DETAIL_KINDS. json_get raw k' \<notin> {None, Some JNull} \<longleftrightarrow> k' = k))"
proof -
  let ?kind = "field (json_get raw ''entity'') ''kind''" and ?P = "\<lambda>k. json_get raw k \<notin> {None, Some JNull}"
  have c: "raw' = raw" "json_truthy ?kind" "the ?kind \<in> JStr ` set DETAIL_KINDS" "length (filter ?P DETAIL_KINDS) = 1" "the ?kind = JStr (hd (filter ?P DETAIL_KINDS))"
    using assms by (auto simp: narrowEntityDetail_def Let_def simp del: One_nat_def split: if_splits)
  let ?k = "hd (filter ?P DETAIL_KINDS)"
  have kind: "?kind = Some (JStr ?k)" using c(2,5) by (cases ?kind) simp_all
  have "filter ?P DETAIL_KINDS \<noteq> []" using c(4) by (metis length_0_conv zero_neq_one)
  then have "?k \<in> set DETAIL_KINDS" using hd_in_set by (metis (mono_tags, lifting) filter_is_subset subsetD)
  then show ?thesis using c(1) kind filter_single[OF c(4)] by blast
qed

text \<open>What a view is typed for: the entity's kind is one of the seven, and of the seven payloads
  exactly the one of that kind is present.\<close>

definition detail_shape :: "json \<Rightarrow> bool" where
  "detail_shape raw \<longleftrightarrow> (\<exists>k \<in> set DETAIL_KINDS. field (json_get raw ''entity'') ''kind'' = Some (JStr k) \<and>
     (\<forall>k' \<in> set DETAIL_KINDS. json_get raw k' \<notin> {None, Some JNull} \<longleftrightarrow> k' = k))"

lemma narrow_shape:
  assumes "detail_shape raw"
  shows "narrowEntityDetail dtoa raw = Inr raw"
proof -
  obtain k where k: "k \<in> set DETAIL_KINDS" "field (json_get raw ''entity'') ''kind'' = Some (JStr k)"
    "\<forall>k' \<in> set DETAIL_KINDS. json_get raw k' \<notin> {None, Some JNull} \<longleftrightarrow> k' = k" using assms by (auto simp: detail_shape_def)
  obtain e where e: "json_get raw ''entity'' = Some e" "json_get e ''kind'' = Some (JStr k)" using k(2) by (cases "json_get raw ''entity''") auto
  have t: "json_truthy (Some e)" using e(2) by (cases e) simp_all
  have "k \<noteq> []" using k(1) by (auto simp: DETAIL_KINDS_def)
  have f: "filter (\<lambda>k'. json_get raw k' \<notin> {None, Some JNull}) DETAIL_KINDS = filter (\<lambda>k'. k' = k) DETAIL_KINDS"
    by (rule filter_cong[OF refl]) (rule bspec[OF k(3)])
  have "filter (\<lambda>k'. k' = k) DETAIL_KINDS = [k]" using k(1) by (auto simp: DETAIL_KINDS_def)
  then show ?thesis unfolding narrowEntityDetail_def Let_def f e(1) using e(2) t \<open>k \<noteq> []\<close> k(1) by simp
qed

lemma narrow_Inl: "narrowEntityDetail dtoa raw = Inl e \<Longrightarrow> (\<exists>m. e = ContractErr m) \<and> \<not> detail_shape raw"
  using narrow_shape[of raw dtoa] by (auto simp: narrowEntityDetail_def Let_def split: if_splits)

text \<open>C10: An entity detail reaches a view only as the shape the view is typed for: the response was
  successful, the product schema is the one this dashboard speaks, the entity has one of the
  seven kinds, and of the seven payloads exactly the one of that kind is present.  Anything else
  is the typed error of its cause, looked for in this order: an HTTP error exactly when the
  response failed or carries an error, a schema error exactly when it did not and the version
  differs, and a contract error exactly when the version is right and the shape is not.\<close>

theorem fleetEntityDetail_typed:
  "case fleetEntityDetail dtoa r of
     Inr raw \<Rightarrow> re_ok r \<and> re_error r = None \<and> re_data r = Some raw \<and>
       field (json_get raw ''meta'') ''schemaVersion'' = Some (JStr PRODUCT_SCHEMA_VERSION) \<and>
       (\<exists>k \<in> set DETAIL_KINDS. field (json_get raw ''entity'') ''kind'' = Some (JStr k) \<and>
          (\<forall>k' \<in> set DETAIL_KINDS. json_get raw k' \<notin> {None, Some JNull} \<longleftrightarrow> k' = k))
   | Inl (HttpErr status _ _ _) \<Rightarrow> (\<not> re_ok r \<or> re_error r \<noteq> None) \<and> status = re_status r
   | Inl (SchemaErr v) \<Rightarrow> re_ok r \<and> re_error r = None \<and> v \<noteq> JStr PRODUCT_SCHEMA_VERSION \<and>
       v = or_null (field (Option.bind (re_data r) (\<lambda>d. json_get d ''meta'')) ''schemaVersion'') (JStr [])
   | Inl (ContractErr _) \<Rightarrow> re_ok r \<and> re_error r = None \<and>
       (\<exists>raw. re_data r = Some raw \<and> field (json_get raw ''meta'') ''schemaVersion'' = Some (JStr PRODUCT_SCHEMA_VERSION) \<and>
          \<not> (\<exists>k \<in> set DETAIL_KINDS. field (json_get raw ''entity'') ''kind'' = Some (JStr k) \<and>
               (\<forall>k' \<in> set DETAIL_KINDS. json_get raw k' \<notin> {None, Some JNull} \<longleftrightarrow> k' = k)))"
proof (cases "productGet r")
  case (Inl e)
  then show ?thesis using productGet_Inl[OF Inl] by (cases e) (auto simp: fleetEntityDetail_def)
next
  case (Inr raw)
  note g = productGet_Inr[OF Inr]
  show ?thesis
  proof (cases "narrowEntityDetail dtoa raw")
    case (Inl e)
    then obtain m where m: "e = ContractErr m" "\<not> detail_shape raw" using narrow_Inl[OF Inl] by blast
    have f: "fleetEntityDetail dtoa r = Inl (ContractErr m)" using Inr Inl m(1) by (simp add: fleetEntityDetail_def)
    show ?thesis unfolding f sum.case client_err.case using g m(2)[unfolded detail_shape_def] by blast
  next
    case r: (Inr raw')
    then have f: "fleetEntityDetail dtoa r = Inr raw'" using Inr by (simp add: fleetEntityDetail_def)
    show ?thesis unfolding f sum.case using g narrow_Inr[OF r] by blast
  qed
qed

definition demo_detail :: api_response where
  "demo_detail = \<lparr> re_ok = True, re_status = 200, re_statusText = [], re_data = Some (JObj [
     (''meta'', JObj [(''schemaVersion'', JStr PRODUCT_SCHEMA_VERSION)]), (''entity'', JObj [(''kind'', JStr ''owner'')]),
     (''owner'', JObj []), (''service'', JNull)]), re_error = None \<rparr>"

theorem fleetEntityDetail_typed_witness:
  "fleetEntityDetail (\<lambda>_. []) demo_detail = Inr (the (re_data demo_detail)) \<and> re_ok demo_detail \<and>
   field (json_get (the (re_data demo_detail)) ''entity'') ''kind'' = Some (JStr ''owner'') \<and>
   json_get (the (re_data demo_detail)) ''service'' \<in> {None, Some JNull}"
proof -
  have f: "fleetEntityDetail (\<lambda>_. []) demo_detail = Inr (the (re_data demo_detail))" by code_simp
  have k: "field (json_get (the (re_data demo_detail)) ''entity'') ''kind'' = Some (JStr ''owner'')" by code_simp
  have th: "re_ok demo_detail \<and> (\<exists>k \<in> set DETAIL_KINDS. field (json_get (the (re_data demo_detail)) ''entity'') ''kind'' = Some (JStr k) \<and>
      (\<forall>k' \<in> set DETAIL_KINDS. json_get (the (re_data demo_detail)) k' \<notin> {None, Some JNull} \<longleftrightarrow> k' = k))"
    using fleetEntityDetail_typed[of demo_detail "\<lambda>_. []"] unfolding f sum.case by blast
  then have "\<forall>k' \<in> set DETAIL_KINDS. json_get (the (re_data demo_detail)) k' \<notin> {None, Some JNull} \<longleftrightarrow> k' = ''owner''"
    unfolding k by (simp only: option.inject json.inject) blast
  moreover have "''service'' \<in> set DETAIL_KINDS" by (simp add: DETAIL_KINDS_def)
  ultimately have "json_get (the (re_data demo_detail)) ''service'' \<notin> {None, Some JNull} \<longleftrightarrow> ''service'' = ''owner''" by (rule bspec)
  then have "json_get (the (re_data demo_detail)) ''service'' \<in> {None, Some JNull}" by simp
  with th f k show ?thesis by blast
qed

text \<open>C13: A mutating request is retried at most once, and only for a stale token.  It is sent a
  second time exactly when the server refused it with 403 and the session, read again, has a token
  that is not empty and not the one that was sent; the second request carries that token, which is
  then the cached one, and its response is the answer.  In every other case the first response is
  the answer.  A request that only reads never carries a token.  So when the server accepts
  exactly its current token and the session gives that token, a mutating request is accepted
  whatever token was cached.\<close>

theorem send_request_retries_once:
  "let run = send_request serve session1 session2 pathname meth csrf; mutating = (meth \<noteq> ''GET'' \<and> meth \<noteq> ''HEAD'');
       token = (if csrf \<noteq> [] then csrf else nullish (nullish session1 None) []);
       sent = (if mutating \<and> token \<noteq> [] then Some token else None);
       fresh = nullish (nullish session2 None) []
   in (if mutating \<and> serve sent = 403 \<and> fresh \<noteq> [] \<and> sent \<noteq> Some fresh
       then cr_sent run = [sent, Some fresh] \<and> cr_status run = serve (Some fresh) \<and> cr_csrf run = fresh
       else cr_sent run = [sent] \<and> cr_status run = serve sent) \<and>
      (mutating \<and> fresh \<noteq> [] \<and> (\<forall>t. serve t = (if t = Some fresh then 200 else 403)) \<longrightarrow> cr_status run = 200)"
proof -
  define token where "token = (if csrf \<noteq> [] then csrf else nullish (nullish session1 None) [])"
  define fresh where "fresh = nullish (nullish session2 None) []"
  have t: "csrfHeaders csrf session1 = token" "csrfHeaders [] session2 = fresh" by (simp_all add: csrfHeaders_def token_def fresh_def)
  show ?thesis
    unfolding token_def[symmetric] fresh_def[symmetric] send_request_def t Let_def token_header_def
    by (cases "meth = ''GET'' \<or> meth = ''HEAD''"; cases "token = []"; cases "fresh = []"; cases "fresh = token") auto
qed

theorem send_request_retries_once_witness:
  "let serve = (\<lambda>t. if t = Some ''new'' then 200 else 403); run = send_request serve None (Some (Some ''new'')) ''/api/refresh'' ''POST'' ''old''
   in cr_sent run = [Some ''old'', Some ''new''] \<and> cr_status run = 200 \<and> cr_csrf run = ''new''"
  using send_request_retries_once[of "\<lambda>t. if t = Some ''new'' then 200 else 403" None "Some (Some ''new'')" "''/api/refresh''" "''POST''" "''old''"]
  by (simp add: Let_def)

end
