(* ===== verification/JsonParse.thy ===== *)
theory JsonParse
  imports Json
begin

text \<open>
  \<open>JSON.parse\<close> (ECMA-262): the value of a JSON text, or \<open>None\<close> where it throws a
  \<open>SyntaxError\<close>.  The parser runs on fuel; the length of the text is always enough
  (\<open>parse_fuel\<close>).  A text printed by \<open>JSON.stringify\<close> parses to the value printed.
  An escaped lone surrogate is kept as its three-byte form.
\<close>

section \<open>Tokens\<close>

definition skip_ws :: "string \<Rightarrow> string" where
  "skip_ws = dropWhile (\<lambda>c. c = CHR '' '' \<or> c = CHR 0x09 \<or> c = CHR 0x0A \<or> c = CHR 0x0D)"

definition hex_val :: "char \<Rightarrow> nat option" where
  "hex_val c = (if radix_digit c < 16 then Some (radix_digit c) else None)"

definition read_hex4 :: "string \<Rightarrow> (nat \<times> string) option" where
  "read_hex4 s =
     (case s of
        a # b # c # d # r \<Rightarrow>
          (case (hex_val a, hex_val b, hex_val c, hex_val d) of
             (Some w, Some x, Some y, Some z) \<Rightarrow> Some (((w * 16 + x) * 16 + y) * 16 + z, r)
           | _ \<Rightarrow> None)
      | _ \<Rightarrow> None)"

definition encode_point :: "nat \<Rightarrow> string" where
  "encode_point n =
     (if n < 0x80 then [char_of n]
      else if n < 0x800 then [char_of (0xC0 + n div 64), char_of (0x80 + n mod 64)]
      else if n < 0x10000 then [char_of (0xE0 + n div 4096), char_of (0x80 + n div 64 mod 64), char_of (0x80 + n mod 64)]
      else [char_of (0xF0 + n div 262144), char_of (0x80 + n div 4096 mod 64), char_of (0x80 + n div 64 mod 64), char_of (0x80 + n mod 64)])"

text \<open>The character an escape stands for and the text after it; a high surrogate takes the low
  surrogate that follows.\<close>

definition read_unicode :: "string \<Rightarrow> (string \<times> string) option" where
  "read_unicode s =
     (case read_hex4 s of
        None \<Rightarrow> None
      | Some (h, r) \<Rightarrow>
          (case (if 0xD800 \<le> h \<and> h < 0xDC00 then Option.bind (strip_prefix [CHR 0x5C, CHR ''u''] r) read_hex4 else None) of
             Some (l, r') \<Rightarrow>
               if 0xDC00 \<le> l \<and> l < 0xE000 then Some (encode_point (0x10000 + (h - 0xD800) * 1024 + (l - 0xDC00)), r')
               else Some (encode_point h, r)
           | None \<Rightarrow> Some (encode_point h, r)))"

definition read_escape :: "string \<Rightarrow> (string \<times> string) option" where
  "read_escape s =
     (case s of
        [] \<Rightarrow> None
      | c # r \<Rightarrow>
          if c = CHR ''u'' then read_unicode r
          else if c = CHR 0x22 \<or> c = CHR 0x5C \<or> c = CHR ''/'' then Some ([c], r)
          else if c = CHR ''b'' then Some ([CHR 0x08], r)
          else if c = CHR ''f'' then Some ([CHR 0x0C], r)
          else if c = CHR ''n'' then Some ([CHR 0x0A], r)
          else if c = CHR ''r'' then Some ([CHR 0x0D], r)
          else if c = CHR ''t'' then Some ([CHR 0x09], r)
          else None)"

lemma read_hex4_less: "read_hex4 s = Some (n, r) \<Longrightarrow> length r < length s"
  by (auto simp: read_hex4_def split: list.splits option.splits)

lemma read_unicode_less: "read_unicode s = Some (t, r) \<Longrightarrow> length r < length s"
proof -
  assume a: "read_unicode s = Some (t, r)"
  then obtain h q where h: "read_hex4 s = Some (h, q)" by (auto simp: read_unicode_def split: option.splits)
  have low: "length r' < length q" if "Option.bind (strip_prefix [CHR 0x5C, CHR ''u''] q) read_hex4 = Some (l, r')" for l r'
    using that read_hex4_less by (fastforce simp: bind_eq_Some_conv strip_prefix_Some)
  have "r = q \<or> (\<exists>l. Option.bind (strip_prefix [CHR 0x5C, CHR ''u''] q) read_hex4 = Some (l, r))"
    using a by (auto simp: read_unicode_def h split: option.splits if_splits)
  then show ?thesis using read_hex4_less[OF h] low by fastforce
qed

lemma read_escape_less: "read_escape s = Some (t, r) \<Longrightarrow> length r < length s"
  by (auto simp: read_escape_def split: list.splits if_splits dest: read_unicode_less)

text \<open>The rest of a string literal after its opening quote.\<close>

function parse_str :: "string \<Rightarrow> (string \<times> string) option" where
  "parse_str s =
     (case s of
        [] \<Rightarrow> None
      | c # r \<Rightarrow>
          if c = CHR 0x22 then Some ([], r)
          else if c = CHR 0x5C then
            (case read_escape r of
               None \<Rightarrow> None
             | Some (t, r') \<Rightarrow> map_option (map_prod (append t) id) (parse_str r'))
          else if (of_char c :: nat) < 32 then None
          else map_option (map_prod (Cons c) id) (parse_str r))"
  by pat_completeness auto
termination
  by (relation "measure length") (auto dest: read_escape_less)

declare parse_str.simps [simp del]

definition num_char :: "char \<Rightarrow> bool" where
  "num_char c \<longleftrightarrow> is_digit c \<or> c \<in> set ''+-.eE''"

text \<open>The grammar of a number.\<close>

definition valid_exp :: "string \<Rightarrow> bool" where
  "valid_exp s =
     (case s of
        [] \<Rightarrow> True
      | c # r \<Rightarrow> (c = CHR ''e'' \<or> c = CHR ''E'') \<and>
          (let ds = (case r of x # r' \<Rightarrow> if x = CHR ''+'' \<or> x = CHR ''-'' then r' else r | [] \<Rightarrow> r) in ds \<noteq> [] \<and> list_all is_digit ds))"

definition valid_frac :: "string \<Rightarrow> bool" where
  "valid_frac s =
     (case s of
        c # r \<Rightarrow> if c = CHR ''.'' then takeWhile is_digit r \<noteq> [] \<and> valid_exp (dropWhile is_digit r) else valid_exp s
      | [] \<Rightarrow> True)"

definition valid_num :: "string \<Rightarrow> bool" where
  "valid_num s =
     (let t = nullish (strip_prefix ''-'' s) s; ds = takeWhile is_digit t
      in ds \<noteq> [] \<and> (hd ds = CHR ''0'' \<longrightarrow> length ds = 1) \<and> valid_frac (dropWhile is_digit t))"

definition parse_num :: "string \<Rightarrow> (json \<times> string) option" where
  "parse_num s =
     (let t = takeWhile num_char s in if valid_num t then Some (JNum (Number_of t), dropWhile num_char s) else None)"

section \<open>Values\<close>

function parse_value :: "nat \<Rightarrow> string \<Rightarrow> (json \<times> string) option"
  and parse_elems :: "nat \<Rightarrow> string \<Rightarrow> (json list \<times> string) option"
  and parse_members :: "nat \<Rightarrow> string \<Rightarrow> ((string \<times> json) list \<times> string) option" where
  "parse_value 0 s = None"
| "parse_value (Suc f) s =
     (case skip_ws s of
        [] \<Rightarrow> None
      | c # r \<Rightarrow>
          if c = CHR 0x22 then map_option (map_prod JStr id) (parse_str r)
          else if c = CHR ''['' then
            (case skip_ws r of
               [] \<Rightarrow> None
             | d # r' \<Rightarrow> if d = CHR '']'' then Some (JArr [], r') else map_option (map_prod JArr id) (parse_elems f r))
          else if c = CHR ''{'' then
            (case skip_ws r of
               [] \<Rightarrow> None
             | d # r' \<Rightarrow> if d = CHR ''}'' then Some (JObj [], r') else map_option (map_prod (JObj \<circ> from_entries) id) (parse_members f r))
          else
            (case strip_prefix ''null'' (c # r) of Some q \<Rightarrow> Some (JNull, q)
             | None \<Rightarrow> case strip_prefix ''true'' (c # r) of Some q \<Rightarrow> Some (JBool True, q)
             | None \<Rightarrow> case strip_prefix ''false'' (c # r) of Some q \<Rightarrow> Some (JBool False, q)
             | None \<Rightarrow> parse_num (c # r)))"
| "parse_elems 0 s = None"
| "parse_elems (Suc f) s =
     (case parse_value (Suc f) s of
        None \<Rightarrow> None
      | Some (v, r) \<Rightarrow>
          (case skip_ws r of
             [] \<Rightarrow> None
           | d # r' \<Rightarrow>
               if d = CHR '','' then map_option (map_prod (Cons v) id) (parse_elems f r')
               else if d = CHR '']'' then Some ([v], r') else None))"
| "parse_members 0 s = None"
| "parse_members (Suc f) s =
     (case skip_ws s of
        [] \<Rightarrow> None
      | q # r \<Rightarrow>
          if q \<noteq> CHR 0x22 then None
          else case parse_str r of
            None \<Rightarrow> None
          | Some (k, r1) \<Rightarrow>
              (case skip_ws r1 of
                 [] \<Rightarrow> None
               | d # r2 \<Rightarrow>
                   if d \<noteq> CHR '':'' then None
                   else case parse_value (Suc f) r2 of
                     None \<Rightarrow> None
                   | Some (v, r3) \<Rightarrow>
                       (case skip_ws r3 of
                          [] \<Rightarrow> None
                        | e # r4 \<Rightarrow>
                            if e = CHR '','' then map_option (map_prod (Cons (k, v)) id) (parse_members f r4)
                            else if e = CHR ''}'' then Some ([(k, v)], r4) else None)))"
  by pat_completeness auto
termination
  by (relation "measure (case_sum (\<lambda>(f, s). 2 * f) (case_sum (\<lambda>(f, s). 2 * f + 1) (\<lambda>(f, s). 2 * f + 1)))") auto

definition JSON_parse :: "string \<Rightarrow> json option" where
  "JSON_parse s =
     (case parse_value (length s) s of
        Some (v, r) \<Rightarrow> if skip_ws r = [] then Some v else None
      | None \<Rightarrow> None)"

section \<open>Printing and parsing\<close>

lemma hex_low_val: "n < 16 \<Longrightarrow> hex_val (hex_low n) = Some n"
  by (auto simp: hex_val_def hex_low_def radix_digit_def is_digit_def digit_val_def take_bit_nat_eq_self)

lemma parse_str_quote: "parse_str (CHR 0x22 # r) = Some ([], r)"
  by (subst parse_str.simps) simp

lemma parse_str_escaped:
  "read_escape r = Some ([c], s) \<Longrightarrow> parse_str (CHR 0x5C # r) = map_option (map_prod (Cons c) id) (parse_str s)"
  by (subst parse_str.simps) (auto simp: map_prod_def split_def intro!: arg_cong[where f = "\<lambda>g. map_option g (parse_str s)"])

lemma parse_str_plain:
  "c \<noteq> CHR 0x22 \<Longrightarrow> c \<noteq> CHR 0x5C \<Longrightarrow> \<not> (of_char c :: nat) < 32 \<Longrightarrow> parse_str (c # s) = map_option (map_prod (Cons c) id) (parse_str s)"
  by (subst parse_str.simps) simp

lemma read_escape_control:
  assumes "(of_char c :: nat) < 32"
  shows "read_escape (''u00'' @ [hex_low (of_char c div 16), hex_low (of_char c mod 16)] @ s) = Some ([c], s)"
proof -
  let ?n = "of_char c :: nat"
  have v: "hex_val (hex_low (?n div 16)) = Some (?n div 16)" "hex_val (hex_low (?n mod 16)) = Some (?n mod 16)" "hex_val (CHR ''0'') = Some 0"
    using assms by (simp_all add: hex_low_val) (simp add: hex_val_def radix_digit_def is_digit_def digit_val_def)
  have "read_hex4 (CHR ''0'' # CHR ''0'' # hex_low (?n div 16) # hex_low (?n mod 16) # s) = Some (?n, s)"
    unfolding read_hex4_def list.case v by simp
  then show ?thesis using assms by (simp add: read_escape_def read_unicode_def encode_point_def)
qed

lemma parse_str_esc: "parse_str (json_esc c @ s) = map_option (map_prod (Cons c) id) (parse_str s)"
proof (cases "c \<in> {CHR 0x22, CHR 0x5C, CHR 0x08, CHR 0x0C, CHR 0x0A, CHR 0x0D, CHR 0x09}")
  case True
  then have "\<exists>d. json_esc c = [CHR 0x5C, d] \<and> (\<forall>r. read_escape (d # r) = Some ([c], r))"
    by (elim insertE emptyE) (simp_all add: json_esc_def read_escape_def)
  then obtain d where "json_esc c = [CHR 0x5C, d]" "read_escape (d # s) = Some ([c], s)" by blast
  then show ?thesis using parse_str_escaped by simp
next
  case False
  show ?thesis
  proof (cases "(of_char c :: nat) < 32")
    case True
    then have "json_esc c = CHR 0x5C # ''u00'' @ [hex_low (of_char c div 16), hex_low (of_char c mod 16)]"
      using False by (simp add: json_esc_def)
    then show ?thesis using parse_str_escaped[OF read_escape_control[OF True]] by simp
  next
    case f: False
    then have "json_esc c = [c]" using False by (simp add: json_esc_def)
    then show ?thesis using parse_str_plain[OF _ _ f] False by simp
  qed
qed

lemma parse_str_print: "parse_str (concat (map json_esc s) @ CHR 0x22 # r) = Some (s, r)"
  by (induction s) (simp_all add: parse_str_quote parse_str_esc)

text \<open>A number that its text reads back as: every integer below \<open>2 ^ 53\<close> in its canonical form,
  and any other number whose text \<open>dtoa\<close> is one of the grammar and reads back.\<close>

definition num_ok :: "(jsnum \<Rightarrow> string) \<Rightarrow> jsnum \<Rightarrow> bool" where
  "num_ok dtoa x \<longleftrightarrow> (\<exists>m e. x = Fin m e) \<and> list_all num_char (num_text dtoa x) \<and> valid_num (num_text dtoa x) \<and> Number_of (num_text dtoa x) = x"

fun json_ok :: "(jsnum \<Rightarrow> string) \<Rightarrow> json \<Rightarrow> bool" where
  "json_ok dtoa (JNum x) = num_ok dtoa x"
| "json_ok dtoa (JArr xs) = list_all (json_ok dtoa) xs"
| "json_ok dtoa (JObj kvs) = (distinct (map fst kvs) \<and> own_order kvs = kvs \<and> list_all (\<lambda>(_, v). json_ok dtoa v) kvs)"
| "json_ok dtoa v = True"

definition stops :: "string \<Rightarrow> bool" where
  "stops r \<longleftrightarrow> (case r of [] \<Rightarrow> True | c # _ \<Rightarrow> \<not> num_char c)"

lemma parse_num_print:
  assumes "num_ok dtoa x" "stops r"
  shows "parse_num (num_text dtoa x @ r) = Some (JNum x, r)"
proof -
  have "takeWhile num_char (num_text dtoa x @ r) = num_text dtoa x @ takeWhile num_char r" "dropWhile num_char (num_text dtoa x @ r) = dropWhile num_char r"
    using assms(1) by (auto simp: num_ok_def list_all_iff)
  moreover have "takeWhile num_char r = []" "dropWhile num_char r = r" using assms(2) by (cases r; simp add: stops_def)+
  ultimately show ?thesis using assms(1) by (simp add: parse_num_def num_ok_def Let_def)
qed

lemma valid_num_hd: "valid_num s \<Longrightarrow> \<exists>c r. s = c # r \<and> (is_digit c \<or> c = CHR ''-'')"
  by (cases s) (auto simp: valid_num_def Let_def nullish_def split: if_splits option.splits)

lemma skip_ws_Cons: "c \<noteq> CHR '' '' \<Longrightarrow> c \<noteq> CHR 0x09 \<Longrightarrow> c \<noteq> CHR 0x0A \<Longrightarrow> c \<noteq> CHR 0x0D \<Longrightarrow> skip_ws (c # s) = c # s"
  by (simp add: skip_ws_def)

lemma text_hd:
  assumes "json_ok dtoa v"
  shows "\<exists>c s. stringify dtoa v = c # s \<and> c \<notin> {CHR '' '', CHR 0x09, CHR 0x0A, CHR 0x0D, CHR '']'', CHR ''}''}"
proof (cases v)
  case (JNum x)
  then have x: "valid_num (num_text dtoa x)" "\<exists>m e. x = Fin m e" using assms by (simp_all add: num_ok_def)
  then obtain c s where c: "num_text dtoa x = c # s" "is_digit c \<or> c = CHR ''-''" using valid_num_hd by blast
  have "c \<notin> {CHR '' '', CHR 0x09, CHR 0x0A, CHR 0x0D, CHR '']'', CHR ''}''}" using c(2) by (auto simp: is_digit_def)
  moreover have "stringify dtoa v = num_text dtoa x" using JNum x(2) by auto
  ultimately show ?thesis using c(1) by (intro exI[of _ c] exI[of _ s]) simp
qed (simp_all add: json_quote_def)

declare parse_value.simps(2) [simp del]

definition reads_back :: "(jsnum \<Rightarrow> string) \<Rightarrow> json \<Rightarrow> bool" where
  "reads_back dtoa v \<longleftrightarrow> (\<forall>f r. length (stringify dtoa v) \<le> f \<longrightarrow> stops r \<longrightarrow> parse_value f (stringify dtoa v @ r) = Some (v, r))"

lemma reads_backD: "reads_back dtoa v \<Longrightarrow> length (stringify dtoa v) \<le> f \<Longrightarrow> stops r \<Longrightarrow> parse_value f (stringify dtoa v @ r) = Some (v, r)"
  by (simp add: reads_back_def)

lemma stops_punct: "stops (CHR '','' # r)" "stops (CHR '']'' # r)" "stops (CHR ''}'' # r)" "stops []"
  by (simp_all add: stops_def num_char_def is_digit_def)

lemma join_Cons2: "ts \<noteq> [] \<Longrightarrow> join '','' (t # ts) = t @ CHR '','' # join '','' ts"
  by (cases ts) simp_all

lemma parse_elems_print:
  assumes "xs \<noteq> []" "\<forall>x \<in> set xs. reads_back dtoa x \<and> stringify dtoa x \<noteq> []" "length (join '','' (map (stringify dtoa) xs)) \<le> f"
  shows "parse_elems f (join '','' (map (stringify dtoa) xs) @ CHR '']'' # r) = Some (xs, r)"
  using assms
proof (induction xs arbitrary: f)
  case (Cons x xs)
  have x: "reads_back dtoa x" "0 < length (stringify dtoa x)" using Cons.prems(2) by auto
  show ?case
  proof (cases "xs = []")
    case True
    then have f: "length (stringify dtoa x) \<le> f" using Cons.prems(3) by simp
    then obtain g where g: "f = Suc g" using x(2) by (cases f) auto
    have "parse_value (Suc g) (stringify dtoa x @ CHR '']'' # r) = Some (x, CHR '']'' # r)" using reads_backD[OF x(1)] f g stops_punct by simp
    then show ?thesis using True g by (simp add: skip_ws_Cons)
  next
    case False
    then have j: "join '','' (map (stringify dtoa) (x # xs)) = stringify dtoa x @ CHR '','' # join '','' (map (stringify dtoa) xs)" by (simp add: join_Cons2)
    obtain g where g: "f = Suc g" using Cons.prems(3) j by (cases f) simp_all
    have "length (stringify dtoa x) \<le> Suc g" using Cons.prems(3) j g by simp
    then have v: "parse_value (Suc g) (stringify dtoa x @ CHR '','' # join '','' (map (stringify dtoa) xs) @ CHR '']'' # r) =
        Some (x, CHR '','' # join '','' (map (stringify dtoa) xs) @ CHR '']'' # r)" using reads_backD[OF x(1)] stops_punct by simp
    have "parse_elems g (join '','' (map (stringify dtoa) xs) @ CHR '']'' # r) = Some (xs, r)"
      using Cons.prems j g False by (intro Cons.IH) simp_all
    then show ?thesis using j g v by (simp add: skip_ws_Cons)
  qed
qed simp

abbreviation member_text :: "(jsnum \<Rightarrow> string) \<Rightarrow> string \<times> json \<Rightarrow> string" where
  "member_text dtoa kv \<equiv> (case kv of (k, v) \<Rightarrow> json_quote k @ '':'' @ stringify dtoa v)"

lemma parse_member:
  assumes "reads_back dtoa v" "length (stringify dtoa v) \<le> Suc g" "stops q"
  shows "parse_members (Suc g) (json_quote k @ '':'' @ stringify dtoa v @ q) =
    (case skip_ws q of
       [] \<Rightarrow> None
     | e # r4 \<Rightarrow> if e = CHR '','' then map_option (map_prod (Cons (k, v)) id) (parse_members g r4) else if e = CHR ''}'' then Some ([(k, v)], r4) else None)"
  using reads_backD[OF assms] parse_str_print[of k "CHR '':'' # stringify dtoa v @ q"] by (simp add: json_quote_def skip_ws_Cons)

lemma parse_members_print:
  assumes "kvs \<noteq> []" "\<forall>kv \<in> set kvs. reads_back dtoa (snd kv)" "length (join '','' (map (member_text dtoa) kvs)) \<le> f"
  shows "parse_members f (join '','' (map (member_text dtoa) kvs) @ CHR ''}'' # r) = Some (kvs, r)"
  using assms
proof (induction kvs arbitrary: f)
  case (Cons kv kvs)
  obtain k v where kv: "kv = (k, v)" by (rule prod.exhaust)
  have v: "reads_back dtoa v" using Cons.prems(2) kv by simp
  show ?case
  proof (cases "kvs = []")
    case True
    then have len: "length (json_quote k @ '':'' @ stringify dtoa v) \<le> f" using Cons.prems(3) kv by simp
    then obtain g where g: "f = Suc g" by (cases f) (simp_all add: json_quote_def)
    have "length (stringify dtoa v) \<le> Suc g" using len g by simp
    from parse_member[OF v this stops_punct(3)] show ?thesis using True kv g by (simp add: skip_ws_Cons)
  next
    case False
    then have j: "join '','' (map (member_text dtoa) (kv # kvs)) = member_text dtoa kv @ CHR '','' # join '','' (map (member_text dtoa) kvs)" by (simp add: join_Cons2)
    obtain g where g: "f = Suc g" using Cons.prems(3) j by (cases f) simp_all
    have "length (stringify dtoa v) \<le> Suc g" using Cons.prems(3) j g kv by simp
    note m = parse_member[OF v this stops_punct(1)[of "join '','' (map (member_text dtoa) kvs) @ CHR ''}'' # r"], of k]
    have "parse_members g (join '','' (map (member_text dtoa) kvs) @ CHR ''}'' # r) = Some (kvs, r)"
      using Cons.prems j g False by (intro Cons.IH) simp_all
    then show ?thesis using j g m kv by (simp add: skip_ws_Cons)
  qed
qed simp

lemma reads_back_array:
  assumes "\<forall>x \<in> set xs. reads_back dtoa x \<and> json_ok dtoa x"
  shows "reads_back dtoa (JArr xs)"
  unfolding reads_back_def
proof (intro allI impI)
  fix f r assume f: "length (stringify dtoa (JArr xs)) \<le> f" and r: "stops r"
  obtain g where g: "f = Suc g" using f by (cases f) simp_all
  show "parse_value f (stringify dtoa (JArr xs) @ r) = Some (JArr xs, r)"
  proof (cases xs)
    case Nil
    then show ?thesis using g by (simp add: parse_value.simps(2) skip_ws_Cons)
  next
    case (Cons x ys)
    have ne: "\<forall>x \<in> set xs. reads_back dtoa x \<and> stringify dtoa x \<noteq> []" using assms text_hd by fastforce
    obtain c s where c: "stringify dtoa x = c # s" "c \<notin> {CHR '' '', CHR 0x09, CHR 0x0A, CHR 0x0D, CHR '']'', CHR ''}''}"
      using text_hd assms Cons by (metis list.set_intros(1))
    have "\<exists>t. join '','' (map (stringify dtoa) xs) @ CHR '']'' # r = c # t" using Cons c(1) by (cases ys) simp_all
    then obtain t where t: "join '','' (map (stringify dtoa) xs) @ CHR '']'' # r = c # t" by blast
    have p: "parse_elems g (c # t) = Some (xs, r)" unfolding t[symmetric] using f g Cons ne by (intro parse_elems_print) simp_all
    have "stringify dtoa (JArr xs) @ r = CHR ''['' # c # t" using t by simp
    then show ?thesis using p c(2) g by (simp add: parse_value.simps(2) skip_ws_Cons)
  qed
qed

lemma reads_back_object:
  assumes "\<forall>kv \<in> set kvs. reads_back dtoa (snd kv)" "distinct (map fst kvs)" "own_order kvs = kvs"
  shows "reads_back dtoa (JObj kvs)"
  unfolding reads_back_def
proof (intro allI impI)
  fix f r assume f: "length (stringify dtoa (JObj kvs)) \<le> f" and r: "stops r"
  obtain g where g: "f = Suc g" using f by (cases f) simp_all
  show "parse_value f (stringify dtoa (JObj kvs) @ r) = Some (JObj kvs, r)"
  proof (cases kvs)
    case Nil
    then show ?thesis using g by (simp add: parse_value.simps(2) skip_ws_Cons)
  next
    case (Cons kv ks)
    have "\<exists>t. join '','' (map (member_text dtoa) kvs) @ CHR ''}'' # r = CHR 0x22 # t" using Cons by (cases ks; cases kv) (simp_all add: json_quote_def)
    then obtain t where t: "join '','' (map (member_text dtoa) kvs) @ CHR ''}'' # r = CHR 0x22 # t" by blast
    have "length (join '','' (map (member_text dtoa) kvs)) \<le> g" using f g by simp
    then have p: "parse_members g (CHR 0x22 # t) = Some (kvs, r)" unfolding t[symmetric] using Cons assms(1) by (intro parse_members_print) simp_all
    have fe: "from_entries kvs = kvs" using from_entries_distinct[OF assms(2)] assms(3) by simp
    have "stringify dtoa (JObj kvs) @ r = CHR ''{'' # CHR 0x22 # t" using t by simp
    then show ?thesis using p g fe by (simp add: parse_value.simps(2) skip_ws_Cons)
  qed
qed

lemma reads_back_const: "reads_back dtoa JNull" "reads_back dtoa (JBool b)" "reads_back dtoa (JStr s)"
proof -
  show "reads_back dtoa JNull" unfolding reads_back_def
  proof (intro allI impI)
    fix f r assume "length (stringify dtoa JNull) \<le> f"
    then show "parse_value f (stringify dtoa JNull @ r) = Some (JNull, r)" by (cases f) (simp_all add: parse_value.simps(2) skip_ws_Cons)
  qed
  show "reads_back dtoa (JBool b)" unfolding reads_back_def
  proof (intro allI impI)
    fix f r assume "length (stringify dtoa (JBool b)) \<le> f"
    then show "parse_value f (stringify dtoa (JBool b) @ r) = Some (JBool b, r)"
      by (cases f; cases b) (simp_all add: parse_value.simps(2) skip_ws_Cons)
  qed
  show "reads_back dtoa (JStr s)" unfolding reads_back_def
  proof (intro allI impI)
    fix f r assume "length (stringify dtoa (JStr s)) \<le> f"
    then show "parse_value f (stringify dtoa (JStr s) @ r) = Some (JStr s, r)"
      by (cases f) (simp_all add: parse_value.simps(2) skip_ws_Cons json_quote_def parse_str_print)
  qed
qed

lemma reads_back_num: "num_ok dtoa x \<Longrightarrow> reads_back dtoa (JNum x)"
  unfolding reads_back_def
proof (intro allI impI)
  fix f r assume ok: "num_ok dtoa x" and f: "length (stringify dtoa (JNum x)) \<le> f" and r: "stops r"
  have x: "stringify dtoa (JNum x) = num_text dtoa x" "valid_num (num_text dtoa x)" using ok by (auto simp: num_ok_def)
  obtain c s where c: "num_text dtoa x = c # s" "is_digit c \<or> c = CHR ''-''" using valid_num_hd[OF x(2)] by blast
  obtain g where g: "f = Suc g" using f x(1) c(1) by (cases f) simp_all
  have n: "c \<notin> {CHR '' '', CHR 0x09, CHR 0x0A, CHR 0x0D, CHR 0x22, CHR ''['', CHR ''{'', CHR ''n'', CHR ''t'', CHR ''f''}"
    using c(2) by (auto simp: is_digit_def)
  then have n': "CHR ''n'' \<noteq> c" "CHR ''t'' \<noteq> c" "CHR ''f'' \<noteq> c" by auto
  have "parse_num (c # s @ r) = Some (JNum x, r)" using parse_num_print[OF ok r] c(1) by simp
  then show "parse_value f (stringify dtoa (JNum x) @ r) = Some (JNum x, r)"
    using n n' g x(1) c(1) by (simp add: parse_value.simps(2) skip_ws_Cons)
qed

lemma json_reads_back: "json_ok dtoa v \<Longrightarrow> reads_back dtoa v"
proof (induction v)
  case (JArr xs)
  then show ?case by (intro reads_back_array) (simp add: list_all_iff)
next
  case (JObj kvs)
  have "reads_back dtoa (snd kv)" if "kv \<in> set kvs" for kv
    using JObj.IH[OF that, of "snd kv"] JObj.prems that by (cases kv) (auto simp: list_all_iff)
  then show ?case using JObj.prems by (intro reads_back_object) simp_all
qed (simp_all add: reads_back_const reads_back_num)

lemma JSON_parse_stringify: "json_ok dtoa v \<Longrightarrow> JSON_parse (stringify dtoa v) = Some v"
  using reads_backD[OF json_reads_back le_refl stops_punct(4)] by (simp add: JSON_parse_def skip_ws_def)

section \<open>Fuel\<close>

lemma skip_ws_length: "skip_ws s = c # r \<Longrightarrow> length r < length s"
  using length_dropWhile_le[of _ s] unfolding skip_ws_def by (metis length_Cons less_eq_Suc_le)

lemma parse_str_less: "parse_str s = Some (t, r) \<Longrightarrow> length r < length s"
proof (induction s arbitrary: t r rule: parse_str.induct)
  case (1 s)
  then show ?case
    by (subst (asm) (3) parse_str.simps) (fastforce split: list.splits if_splits option.splits dest: read_escape_less)
qed

lemma parse_num_less: "parse_num s = Some (v, r) \<Longrightarrow> length r < length s"
proof -
  assume a: "parse_num s = Some (v, r)"
  then have "valid_num (takeWhile num_char s)" "r = dropWhile num_char s" by (auto simp: parse_num_def Let_def split: if_splits)
  moreover from this(1) have "0 < length (takeWhile num_char s)" by (auto dest: valid_num_hd)
  moreover have "length (takeWhile num_char s) + length (dropWhile num_char s) = length s" by (metis length_append takeWhile_dropWhile_id)
  ultimately have "length (dropWhile num_char s) < length s" "r = dropWhile num_char s" by linarith+
  then show ?thesis by simp
qed

lemma strip_prefix_less: "strip_prefix (a # p) (c # t) = Some r \<Longrightarrow> length r \<le> length t"
  by (simp add: strip_prefix_Some del: strip_prefix.simps)

lemma parse_less:
  "parse_value f s = Some (v, r) \<Longrightarrow> length r < length s"
  "parse_elems f s = Some (vs, r) \<Longrightarrow> length r < length s"
  "parse_members f s = Some (kvs, r) \<Longrightarrow> length r < length s"
proof (induction f s and f s and f s arbitrary: v r and vs r and kvs r rule: parse_value_parse_elems_parse_members.induct)
  case (2 f s)
  obtain c t where c: "skip_ws s = c # t" using "2.prems" by (simp add: parse_value.simps(2) split: list.splits)
  have t: "length t < length s" by (rule skip_ws_length[OF c])
  note v = "2.prems"[unfolded parse_value.simps(2) c list.case]
  consider (str) "c = CHR 0x22" | (arr) "c = CHR ''[''" | (obj) "c = CHR ''{''" | (lit) "c \<noteq> CHR 0x22" "c \<noteq> CHR ''[''" "c \<noteq> CHR ''{''" by blast
  then have "length r \<le> length t"
  proof cases
    case str
    then show ?thesis using v by (auto dest: parse_str_less)
  next
    case arr
    then have n: "c \<noteq> CHR 0x22" by simp
    obtain d q where d: "skip_ws t = d # q" using v arr by (auto split: list.splits)
    show ?thesis using v arr d "2.IH"(1)[OF c n arr d] skip_ws_length[OF d] by (fastforce split: if_splits)
  next
    case obj
    then have n: "c \<noteq> CHR 0x22" "c \<noteq> CHR ''[''" by simp_all
    obtain d q where d: "skip_ws t = d # q" using v obj by (auto split: list.splits)
    show ?thesis using v obj d "2.IH"(2)[OF c n obj d] skip_ws_length[OF d] by (fastforce split: if_splits)
  next
    case lit
    then show ?thesis using v by (auto simp del: strip_prefix.simps split: option.splits dest: strip_prefix_less parse_num_less)
  qed
  then show ?case using t by simp
next
  case (4 f s)
  obtain x q where x: "parse_value (Suc f) s = Some (x, q)" using "4.prems" by (auto split: option.splits)
  then obtain d t where d: "skip_ws q = d # t" using "4.prems" by (auto split: list.splits)
  have len: "length t < length s" using "4.IH"(1)[OF x] skip_ws_length[OF d] by simp
  show ?case
  proof (cases "d = CHR '',''")
    case True
    then obtain ys where "parse_elems f t = Some (ys, r)" using "4.prems" x d by auto
    from "4.IH"(2)[OF x refl d True this] show ?thesis using len by simp
  next
    case False
    then show ?thesis using "4.prems" x d len by (auto split: if_splits)
  qed
next
  case (6 f s)
  obtain q1 t1 where q1: "skip_ws s = q1 # t1" "q1 = CHR 0x22" using "6.prems" by (auto split: list.splits if_splits)
  obtain k t2 where k: "parse_str t1 = Some (k, t2)" using "6.prems" q1 by (auto split: option.splits)
  obtain q3 t3 where q3: "skip_ws t2 = q3 # t3" "q3 = CHR '':''" using "6.prems" q1 k by (auto split: list.splits if_splits)
  obtain x t4 where x: "parse_value (Suc f) t3 = Some (x, t4)" using "6.prems" q1 k q3 by (auto split: option.splits)
  obtain d t where d: "skip_ws t4 = d # t" using "6.prems" q1 k q3 x by (auto split: list.splits)
  have nn: "\<not> q1 \<noteq> CHR 0x22" "\<not> q3 \<noteq> CHR '':''" using q1 q3 by simp_all
  note IH = "6.IH"(1)[OF q1(1) nn(1) k refl q3(1) nn(2) x] "6.IH"(2)[OF q1(1) nn(1) k refl q3(1) nn(2) x refl d]
  have len: "length t < length s" using IH(1) skip_ws_length[OF d] skip_ws_length[OF q1(1)] parse_str_less[OF k] skip_ws_length[OF q3(1)] by simp
  show ?case
  proof (cases "d = CHR '',''")
    case True
    then obtain ys where "parse_members f t = Some (ys, r)" using "6.prems" q1 k q3 x d by auto
    from IH(2)[OF True this] show ?thesis using len by simp
  next
    case False
    then show ?thesis using "6.prems" q1 k q3 x d len by (auto split: if_splits)
  qed
qed simp_all

lemma parse_step:
  "length s \<le> f \<Longrightarrow> parse_value (Suc f) s = parse_value f s"
  "length s \<le> f \<Longrightarrow> parse_elems (Suc f) s = parse_elems f s"
  "length s \<le> f \<Longrightarrow> parse_members (Suc f) s = parse_members f s"
proof (induction f s and f s and f s rule: parse_value_parse_elems_parse_members.induct)
  case (2 f s)
  show ?case
  proof (cases "skip_ws s")
    case (Cons c t)
    have "length t \<le> f" using skip_ws_length[OF Cons] "2.prems" by simp
    then have "c = CHR ''['' \<Longrightarrow> skip_ws t = d # q \<Longrightarrow> d \<noteq> CHR '']'' \<Longrightarrow> parse_elems (Suc f) t = parse_elems f t"
      "c = CHR ''{'' \<Longrightarrow> skip_ws t = d # q \<Longrightarrow> d \<noteq> CHR ''}'' \<Longrightarrow> parse_members (Suc f) t = parse_members f t" for d q
      using "2.IH"[OF Cons] by simp_all
    then show ?thesis unfolding parse_value.simps(2) Cons list.case by (cases "skip_ws t") simp_all
  qed (simp add: parse_value.simps(2))
next
  case (4 f s)
  note v = "4.IH"(1)[OF "4.prems"]
  show ?case
  proof (cases "parse_value (Suc f) s")
    case (Some xq)
    obtain x q where xq: "xq = (x, q)" by (rule prod.exhaust)
    have "parse_elems (Suc f) t = parse_elems f t" if d: "skip_ws q = d # t" "d = CHR '',''" for d t
    proof (rule "4.IH"(2)[OF Some xq[symmetric] d])
      show "length t \<le> f" using parse_less(1)[OF Some[unfolded xq]] skip_ws_length[OF d(1)] "4.prems" by simp
    qed
    then show ?thesis unfolding parse_elems.simps(2) v Some xq option.case prod.case by (simp split: list.split)
  qed (simp add: v)
next
  case (6 f s)
  have v: "parse_value (Suc (Suc f)) t3 = parse_value (Suc f) t3" "length t3 \<le> f"
    if h: "skip_ws s = q1 # t1" "\<not> q1 \<noteq> CHR 0x22" "parse_str t1 = Some (k, t2)" "skip_ws t2 = q3 # t3" "\<not> q3 \<noteq> CHR '':''" for q1 t1 k t2 q3 t3
  proof -
    show l: "length t3 \<le> f" using skip_ws_length[OF h(1)] parse_str_less[OF h(3)] skip_ws_length[OF h(4)] "6.prems" by simp
    then show "parse_value (Suc (Suc f)) t3 = parse_value (Suc f) t3" by (intro "6.IH"(1)[OF h(1-3) refl h(4,5)]) simp
  qed
  have m: "parse_members (Suc f) t = parse_members f t"
    if h: "skip_ws s = q1 # t1" "\<not> q1 \<noteq> CHR 0x22" "parse_str t1 = Some (k, t2)" "skip_ws t2 = q3 # t3" "\<not> q3 \<noteq> CHR '':''"
      "parse_value (Suc f) t3 = Some (x, t4)" "skip_ws t4 = e # t" "e = CHR '',''" for q1 t1 k t2 q3 t3 x t4 e t
  proof (rule "6.IH"(2)[OF h(1-3) refl h(4-6) refl h(7,8)])
    show "length t \<le> f" using v(2)[OF h(1-5)] parse_less(1)[OF h(6)] skip_ws_length[OF h(7)] by simp
  qed
  show ?case unfolding parse_members.simps(2)
    using v(1) m by (simp split: list.split option.split)
qed (simp_all add: parse_value.simps(2) skip_ws_def)

lemma parse_fuel:
  assumes "length s \<le> f"
  shows "parse_value f s = parse_value (length s) s"
  using assms
proof (induction f rule: dec_induct)
  case (step f)
  then show ?case using parse_step(1)[of s f] by simp
qed simp

end
