(* ===== verification/Storage.thy ===== *)
theory Storage
  imports JsonParse
begin

text \<open>
  The browser's session storage, and what the modules that keep something in it share: objects
  and integers as JSON text, read back as they were written.

  The storage is a dictionary; \<open>fits\<close> says which contents are within its quota, beyond which
  \<open>setItem\<close> throws.  Where touching the storage throws there is none (\<open>None\<close>).
\<close>

section \<open>The storage\<close>

type_synonym storage = "string dict"

definition set_item :: "(storage \<Rightarrow> bool) \<Rightarrow> string \<Rightarrow> string \<Rightarrow> storage \<Rightarrow> storage option" where
  "set_item fits k v s = (let s' = AList.update k v s in if fits s' then Some s' else None)"

text \<open>\<open>Object.entries\<close> of an object or array.\<close>

fun entries_of :: "json \<Rightarrow> (string \<times> json) list" where
  "entries_of (JObj kvs) = kvs"
| "entries_of (JArr xs) = zip (map show_nat [0..<length xs]) xs"
| "entries_of v = []"

text \<open>An integer as a number.\<close>

definition num_of_int :: "int \<Rightarrow> jsnum" where
  "num_of_int n = (if n < 0 then num_neg (round_ratio (nat (- n)) 1) else round_ratio (nat n) 1)"

section \<open>Objects\<close>

lemma insert_by_map: "(\<And>a b. c' (f a) (f b) = c a b) \<Longrightarrow> insert_by c' (f x) (map f ys) = map f (insert_by c x ys)"
  by (induction ys) simp_all

lemma sort_by_map: "(\<And>a b. c' (f a) (f b) = c a b) \<Longrightarrow> sort_by c' (map f xs) = map f (sort_by c xs)"
  unfolding sort_by_def by (induction xs) (simp_all add: insert_by_map)

lemma sort_by_id: "sorted_wrt (\<lambda>x y. cmp x y \<le> 0) xs \<Longrightarrow> sort_by cmp xs = xs"
proof (induction xs)
  case (Cons x xs)
  then have "sort_by cmp (x # xs) = insert_by cmp x xs" by (simp add: sort_by_def)
  then show ?case using Cons.prems by (cases xs) simp_all
qed simp

lemma own_order_map: "own_order (map (map_prod id f) kvs) = map (map_prod id f) (own_order kvs)"
proof -
  have "sort_by (\<lambda>a b. int (read_digits (fst a)) - int (read_digits (fst b))) (map (map_prod id f) xs) =
      map (map_prod id f) (sort_by (\<lambda>a b. int (read_digits (fst a)) - int (read_digits (fst b))) xs)" for xs
    by (rule sort_by_map) simp
  then show ?thesis by (simp add: own_order_def filter_map comp_def)
qed

interpretation index_order: comparator "\<lambda>a b. int (read_digits (fst a)) - int (read_digits (fst b))"
  by unfold_locales auto

lemma own_order_idem: "own_order (own_order kvs) = own_order kvs"
proof -
  let ?c = "\<lambda>a b. int (read_digits (fst a)) - int (read_digits (fst b))"
  let ?s = "sort_by ?c (filter (\<lambda>kv. is_index (fst kv)) kvs)"
  have "filter (\<lambda>kv. is_index (fst kv)) ?s = ?s" "filter (\<lambda>kv. \<not> is_index (fst kv)) ?s = []" by (simp_all add: filter_id_conv filter_empty_conv)
  moreover have "sort_by ?c ?s = ?s" by (rule sort_by_id[OF index_order.sort_by_sorted])
  ultimately show ?thesis by (simp add: own_order_def)
qed

lemma not_index: "\<exists>c \<in> set k. \<not> is_digit c \<Longrightarrow> \<not> is_index k"
  by (auto simp: is_index_def list_all_iff)

lemma own_order_plain: "\<forall>kv \<in> set kvs. \<not> is_index (fst kv) \<Longrightarrow> own_order kvs = kvs"
  by (simp add: own_order_def filter_empty_conv filter_id_conv)

section \<open>Integers as text\<close>

lemma show_nat_lead: "0 < n \<Longrightarrow> hd (show_nat n) \<noteq> CHR ''0''"
proof (induction n rule: show_nat.induct)
  case (1 n)
  show ?case
  proof (cases "n < 10")
    case True
    then have "(of_char (digit_char n) :: nat) \<noteq> of_char (CHR ''0'')" using "1.prems" by (simp add: digit_char_def)
    then have "digit_char n \<noteq> CHR ''0''" by metis
    then show ?thesis using True by (simp add: show_nat.simps[of n])
  next
    case False
    then show ?thesis using "1.IH" by (simp add: show_nat.simps[of n])
  qed
qed

lemma valid_num_show_int: "valid_num (show_int n)"
proof -
  have d: "hd (show_nat m) = CHR ''0'' \<longrightarrow> length (show_nat m) = 1" for m
    using show_nat_lead[of m] by (cases "m = 0") (auto simp: show_nat.simps[of 0])
  have s: "nullish (strip_prefix ''-'' (show_nat m)) (show_nat m) = show_nat m" for m
    using show_nat_hd[of m] by (auto simp: nullish_def is_digit_def)
  have "nullish (strip_prefix ''-'' (show_int n)) (show_int n) = show_nat (nat \<bar>n\<bar>)"
    by (cases "n < 0") (simp add: show_int_def nullish_def, simp add: show_int_def s)
  then show ?thesis using d by (simp add: valid_num_def Let_def valid_frac_def)
qed

lemma show_int_num_char: "list_all num_char (show_int n)"
  using show_nat_digits by (auto simp: list_all_iff show_int_def num_char_def)

lemma Number_of_show_int: "Number_of (show_int n) = num_of_int n"
proof (cases "n < 0")
  case True
  obtain c s where c: "show_nat (nat (- n)) = c # s" "is_digit c" using show_nat_hd by blast
  have "\<forall>d \<in> set (show_int n). \<not> is_space d"
    using show_nat_digits[of "nat (- n)"] digit_not_space True by (auto simp: show_int_def is_space_def)
  then have "trim (show_int n) = show_int n" by (rule trim_digits)
  moreover have n: "show_int n = CHR ''-'' # c # s" using True c(1) by (simp add: show_int_def)
  ultimately have "Number_of (show_int n) = num_neg (read_decimal (c # s))" by (simp add: Number_of_def read_signed_def)
  also have "\<dots> = num_neg (round_ratio (nat (- n)) 1)" using read_decimal_show_nat[of "nat (- n)"] c(1) by simp
  finally show ?thesis using True by (simp add: num_of_int_def)
qed (simp add: show_int_def num_of_int_def Number_of_show_nat)

lemma num_ok_int:
  assumes "\<bar>n\<bar> < 2 ^ 53"
  shows "num_ok dtoa (num_of_int n)"
proof -
  have "nat \<bar>n\<bar> < 2 ^ 53" using assms by (simp add: nat_less_iff)
  then obtain e where e: "e \<le> 0" "round_ratio (nat \<bar>n\<bar>) 1 = Fin (int (nat \<bar>n\<bar>) * 2 ^ nat (- e)) e" using round_ratio_exact by blast
  have x: "num_of_int n = Fin (n * 2 ^ nat (- e)) e"
    using e(2) by (cases "n < 0") (simp_all add: num_of_int_def)
  have t: "num_text dtoa (num_of_int n) = show_int n"
  proof -
    have "\<bar>n * 2 ^ nat (- e)\<bar> < 2 ^ 53 * 2 ^ nat (- e)" using assms by (simp add: abs_mult)
    moreover have "fin_trunc (n * 2 ^ nat (- e)) e = n" using e(1) by (cases "n = 0") (auto simp: fin_trunc_def sgn_mult abs_mult sgn_mult_abs)
    ultimately show ?thesis unfolding x num_text_def using e(1) by simp
  qed
  show ?thesis unfolding num_ok_def t using x valid_num_show_int show_int_num_char Number_of_show_int by metis
qed

section \<open>Splitting at a separator\<close>

lemma split_first: "c \<notin> set a \<Longrightarrow> c \<notin> set b \<Longrightarrow> a @ c # x = b @ c # y \<longleftrightarrow> a = b \<and> x = y"
proof (induction a arbitrary: b)
  case Nil
  then show ?case by (cases b) auto
next
  case (Cons d a)
  then show ?case by (cases b) auto
qed

end
