(* ===== verification/Spatial.thy ===== *)
theory Spatial
  imports GraphState Storage
begin

text \<open>
  The arrangement of a graph kept in the browser (\<open>lib/graphSpatial.ts\<close>): the identity of a graph
  query, the record stored under it, and the index that bounds how many are kept.

  Assigning the property \<open>__proto__\<close> of an object sets its prototype and adds no property of its
  own.
\<close>

section \<open>Data\<close>

record point =
  pt_x :: jsnum
  pt_y :: jsnum

record spatial_record =
  sp_v :: jsnum
  sp_positions :: "point dict"
  sp_pan :: point
  sp_zoom :: jsnum

text \<open>What a caller saves: the properties of an object of unknown values.\<close>

record arrangement =
  ar_positions :: "json dict"
  ar_pan :: "json option"
  ar_zoom :: "json option"

definition SPATIAL_VERSION :: jsnum where "SPATIAL_VERSION = Fin (2 ^ 52) (- 52)"
definition PREFIX :: string where "PREFIX = ''pacto.graph.spatial.v1:''"
definition INDEX_KEY :: string where "INDEX_KEY = ''pacto.graph.spatial.v1.index''"
definition MAX_SPATIAL_NODES :: nat where "MAX_SPATIAL_NODES = 400"
definition MAX_SPATIAL_ENTRIES :: nat where "MAX_SPATIAL_ENTRIES = 8"

section \<open>The identity of a query\<close>

definition graphQueryKey :: "graph_state \<Rightarrow> string" where
  "graphQueryKey q =
     join ''|''
       [gs_kind q, gs_key q, perspective_str (gs_perspective q), join ''+'' (sort_by str_cmp (gs_views q)), gs_direction q,
        show_int (gs_depth q), show_int (gs_maxNodes q)]"

section \<open>Reading\<close>

definition finite_number :: "json option \<Rightarrow> jsnum option" where
  "finite_number v = (case v of Some (JNum (Fin m e)) \<Rightarrow> Some (Fin m e) | _ \<Rightarrow> None)"

definition finitePoint :: "json option \<Rightarrow> point option" where
  "finitePoint p =
     (if \<not> is_object p then None
      else case (finite_number (field p ''x''), finite_number (field p ''y'')) of
        (Some x, Some y) \<Rightarrow> Some \<lparr> pt_x = x, pt_y = y \<rparr>
      | _ \<Rightarrow> None)"

text \<open>The points the loop takes, \<open>n\<close> taken before.\<close>

fun read_positions :: "(string \<times> json) list \<Rightarrow> nat \<Rightarrow> (string \<times> point) list" where
  "read_positions [] n = []"
| "read_positions ((i, p) # r) n =
     (case finitePoint (Some p) of
        None \<Rightarrow> read_positions r n
      | Some pt \<Rightarrow> (i, pt) # (if MAX_SPATIAL_NODES \<le> Suc n then [] else read_positions r (Suc n)))"

definition assigned :: "(string \<times> 'a) list \<Rightarrow> 'a dict" where
  "assigned kvs = from_entries (filter (\<lambda>kv. fst kv \<noteq> ''__proto__'') kvs)"

definition parseRecord :: "string option \<Rightarrow> spatial_record option" where
  "parseRecord raw =
     (if \<not> truthy raw then None
      else case JSON_parse (the raw) of
        None \<Rightarrow> None
      | Some parsed \<Rightarrow>
          if \<not> is_object (Some parsed) then None
          else if \<not> (case json_get parsed ''v'' of Some (JNum v) \<Rightarrow> num_eq v SPATIAL_VERSION | _ \<Rightarrow> False) then None
          else case (finitePoint (json_get parsed ''pan''), finite_number (json_get parsed ''zoom'')) of
            (Some pan, Some zoom) \<Rightarrow>
              if num_le zoom (Fin 0 0) \<or> \<not> is_object (json_get parsed ''positions'') then None
              else
                let taken = read_positions (entries_of (the (json_get parsed ''positions''))) 0 in
                if taken = [] then None
                else Some \<lparr> sp_v = SPATIAL_VERSION, sp_positions = assigned taken, sp_pan = pan, sp_zoom = zoom \<rparr>
          | _ \<Rightarrow> None)"

definition readIndex :: "storage \<Rightarrow> string list" where
  "readIndex s =
     (case JSON_parse (or_else (map_of s INDEX_KEY) ''[]'') of
        Some (JArr vs) \<Rightarrow> concat (map (\<lambda>v. case v of JStr k \<Rightarrow> [k] | _ \<Rightarrow> []) vs)
      | _ \<Rightarrow> [])"

definition loadSpatial :: "string \<Rightarrow> storage option \<Rightarrow> spatial_record option" where
  "loadSpatial queryKey st = (case st of None \<Rightarrow> None | Some s \<Rightarrow> parseRecord (map_of s (PREFIX @ queryKey)))"

section \<open>Writing\<close>

definition writeIndex :: "(jsnum \<Rightarrow> string) \<Rightarrow> (storage \<Rightarrow> bool) \<Rightarrow> string list \<Rightarrow> storage \<Rightarrow> storage" where
  "writeIndex dtoa fits keys s = nullish (set_item fits INDEX_KEY (stringify dtoa (JArr (map JStr keys))) s) s"

definition round_point :: "point \<Rightarrow> point" where
  "round_point p = \<lparr> pt_x = num_of_int (js_round (pt_x p)), pt_y = num_of_int (js_round (pt_y p)) \<rparr>"

definition saved_positions :: "json dict \<Rightarrow> point dict" where
  "saved_positions ps =
     assigned (concat (map (\<lambda>i. case finitePoint (map_of ps i) of Some pt \<Rightarrow> [(i, round_point pt)] | None \<Rightarrow> [])
       (take MAX_SPATIAL_NODES (sort_by str_cmp (keys_of ps)))))"

definition point_json :: "point \<Rightarrow> json" where
  "point_json p = JObj [(''x'', JNum (pt_x p)), (''y'', JNum (pt_y p))]"

definition record_json :: "spatial_record \<Rightarrow> json" where
  "record_json r =
     JObj [(''v'', JNum (sp_v r)), (''positions'', JObj (map (map_prod id point_json) (sp_positions r))),
           (''pan'', point_json (sp_pan r)), (''zoom'', JNum (sp_zoom r))]"

text \<open>The loop that drops the oldest entries.\<close>

fun evict :: "string list \<Rightarrow> storage \<Rightarrow> string list \<times> storage" where
  "evict [] s = ([], s)"
| "evict (old # keys) s =
     (if MAX_SPATIAL_ENTRIES < length (old # keys) then evict keys (if old \<noteq> [] then AList.delete (PREFIX @ old) s else s)
      else (old # keys, s))"

definition save_record :: "(jsnum \<Rightarrow> string) \<Rightarrow> (storage \<Rightarrow> bool) \<Rightarrow> string \<Rightarrow> spatial_record \<Rightarrow> storage \<Rightarrow> storage" where
  "save_record dtoa fits queryKey r s =
     (case evict (filter (\<lambda>k. k \<noteq> queryKey) (readIndex s) @ [queryKey]) s of (keys, s1) \<Rightarrow>
        case set_item fits (PREFIX @ queryKey) (stringify dtoa (record_json r)) s1 of
          None \<Rightarrow> s1
        | Some s2 \<Rightarrow> writeIndex dtoa fits keys s2)"

definition saveSpatial :: "(jsnum \<Rightarrow> string) \<Rightarrow> (storage \<Rightarrow> bool) \<Rightarrow> string \<Rightarrow> arrangement \<Rightarrow> storage option \<Rightarrow> storage option" where
  "saveSpatial dtoa fits queryKey state st =
     (case (st, finitePoint (ar_pan state), finite_number (ar_zoom state)) of
        (Some s, Some pan, Some zoom) \<Rightarrow>
          if num_le zoom (Fin 0 0) then st
          else
            let positions = saved_positions (ar_positions state) in
            if positions = [] then st
            else Some (save_record dtoa fits queryKey
              \<lparr> sp_v = SPATIAL_VERSION, sp_positions = positions, sp_pan = round_point pan, sp_zoom = zoom \<rparr> s)
      | _ \<Rightarrow> st)"

definition clearSpatial :: "(jsnum \<Rightarrow> string) \<Rightarrow> (storage \<Rightarrow> bool) \<Rightarrow> string \<Rightarrow> storage option \<Rightarrow> storage option" where
  "clearSpatial dtoa fits queryKey st =
     map_option (\<lambda>s. let s1 = AList.delete (PREFIX @ queryKey) s
       in writeIndex dtoa fits (filter (\<lambda>k. k \<noteq> queryKey) (readIndex s1)) s1) st"

section \<open>A saved arrangement\<close>

lemma assigned_distinct:
  assumes "distinct (map fst kvs)"
  shows "distinct (map fst (assigned kvs))" "own_order (assigned kvs) = assigned kvs"
    "set (assigned kvs) = {kv \<in> set kvs. fst kv \<noteq> ''__proto__''}" "length (assigned kvs) \<le> length kvs"
proof -
  have d: "distinct (map fst (filter (\<lambda>kv. fst kv \<noteq> ''__proto__'') kvs))" using assms by (simp add: distinct_map_filter)
  note e = from_entries_distinct[OF d]
  show "distinct (map fst (assigned kvs))" unfolding assigned_def using e by blast
  have o: "assigned kvs = own_order (filter (\<lambda>kv. fst kv \<noteq> ''__proto__'') kvs)" unfolding assigned_def using e by blast
  show "own_order (assigned kvs) = assigned kvs" unfolding o by (rule own_order_idem)
  show "set (assigned kvs) = {kv \<in> set kvs. fst kv \<noteq> ''__proto__''}" unfolding assigned_def using e unfolding set_filter by blast
  have "length (own_order xs) = length xs" for xs :: "(string \<times> 'a) list"
    unfolding own_order_def by (simp add: sum_length_filter_compl)
  then show "length (assigned kvs) \<le> length kvs" unfolding o by simp
qed

definition num_finite :: "jsnum \<Rightarrow> bool" where
  "num_finite x = (case x of Fin _ _ \<Rightarrow> True | _ \<Rightarrow> False)"

definition point_ok :: "(jsnum \<Rightarrow> string) \<Rightarrow> point \<Rightarrow> bool" where
  "point_ok dtoa p \<longleftrightarrow> num_ok dtoa (pt_x p) \<and> num_ok dtoa (pt_y p)"

definition record_ok :: "(jsnum \<Rightarrow> string) \<Rightarrow> spatial_record \<Rightarrow> bool" where
  "record_ok dtoa r \<longleftrightarrow>
     sp_v r = SPATIAL_VERSION \<and> sp_positions r \<noteq> [] \<and> length (sp_positions r) \<le> MAX_SPATIAL_NODES \<and> distinct (map fst (sp_positions r)) \<and>
     own_order (sp_positions r) = sp_positions r \<and> ''__proto__'' \<notin> fst ` set (sp_positions r) \<and>
     list_all (\<lambda>kv. point_ok dtoa (snd kv)) (sp_positions r) \<and> point_ok dtoa (sp_pan r) \<and>
     num_ok dtoa (sp_zoom r) \<and> \<not> num_le (sp_zoom r) (Fin 0 0)"

lemma finite_number_ok: "num_ok dtoa x \<Longrightarrow> finite_number (Some (JNum x)) = Some x"
  by (auto simp: num_ok_def finite_number_def)

lemma finitePoint_json: "point_ok dtoa p \<Longrightarrow> finitePoint (Some (point_json p)) = Some p"
  using finite_number_ok[of dtoa "pt_x p"] finite_number_ok[of dtoa "pt_y p"] by (simp add: finitePoint_def point_json_def point_ok_def)

lemma read_positions_json:
  "list_all (\<lambda>kv. point_ok dtoa (snd kv)) ps \<Longrightarrow> n + length ps \<le> MAX_SPATIAL_NODES \<Longrightarrow> read_positions (map (map_prod id point_json) ps) n = ps"
proof (induction ps arbitrary: n)
  case (Cons kv ps)
  then show ?case by (cases kv; cases ps) (auto simp: finitePoint_json)
qed simp

lemma assigned_id:
  assumes "distinct (map fst ps)" "own_order ps = ps" "''__proto__'' \<notin> fst ` set ps"
  shows "assigned ps = ps"
proof -
  have "filter (\<lambda>kv. fst kv \<noteq> ''__proto__'') ps = ps" using assms(3) by (intro filter_True) (metis imageI)
  then show ?thesis using from_entries_distinct[OF assms(1)] assms(2) by (simp add: assigned_def)
qed

lemma point_json_ok: "point_ok dtoa p \<Longrightarrow> json_ok dtoa (point_json p)"
proof -
  assume "point_ok dtoa p"
  moreover have "own_order [(''x'', JNum (pt_x p)), (''y'', JNum (pt_y p))] = [(''x'', JNum (pt_x p)), (''y'', JNum (pt_y p))]"
    by (rule own_order_plain) (simp add: not_index is_digit_def)
  ultimately show ?thesis by (simp add: point_json_def point_ok_def)
qed

lemma record_json_ok:
  assumes "record_ok dtoa r"
  shows "json_ok dtoa (record_json r)"
proof -
  have "own_order [(''v'', a), (''positions'', b), (''pan'', c), (''zoom'', d)] = [(''v'', a), (''positions'', b), (''pan'', c), (''zoom'', d)]" for a b c d :: json
    by (rule own_order_plain) (simp add: not_index is_digit_def)
  moreover have "num_ok dtoa SPATIAL_VERSION"
    using num_ok_int[of 1 dtoa] by (simp add: SPATIAL_VERSION_def num_of_int_def round_ratio_def ratio_exp_def ge_pow_def)
  moreover have "json_ok dtoa (JObj (map (map_prod id point_json) (sp_positions r)))"
    using assms by (simp add: record_ok_def own_order_map list_all_iff point_json_ok split_def)
  moreover have "point_ok dtoa (sp_pan r)" "num_ok dtoa (sp_zoom r)" "sp_v r = SPATIAL_VERSION" using assms by (simp_all add: record_ok_def)
  ultimately show ?thesis unfolding record_json_def json_ok.simps(3)[of _ "[(''v'', _), _, _, _]"]
    by (simp add: point_json_ok del: json_ok.simps(3))
qed

lemma stringify_nonempty: "json_ok dtoa v \<Longrightarrow> truthy (Some (stringify dtoa v))"
  using text_hd by (fastforce simp: truthy_def)

lemma num_eq_version: "num_eq SPATIAL_VERSION SPATIAL_VERSION"
  by (simp add: num_eq_def num_less_def SPATIAL_VERSION_def)

lemma parseRecord_print:
  assumes "record_ok dtoa r"
  shows "parseRecord (Some (stringify dtoa (record_json r))) = Some r"
proof -
  note j = record_json_ok[OF assms]
  have r: "sp_v r = SPATIAL_VERSION" "sp_positions r \<noteq> []" "point_ok dtoa (sp_pan r)" "num_ok dtoa (sp_zoom r)" "\<not> num_le (sp_zoom r) (Fin 0 0)"
    "list_all (\<lambda>kv. point_ok dtoa (snd kv)) (sp_positions r)" "0 + length (sp_positions r) \<le> MAX_SPATIAL_NODES"
    using assms by (simp_all add: record_ok_def)
  have a: "assigned (sp_positions r) = sp_positions r" using assms by (intro assigned_id) (simp_all add: record_ok_def)
  have g: "json_get (record_json r) ''v'' = Some (JNum SPATIAL_VERSION)" "json_get (record_json r) ''pan'' = Some (point_json (sp_pan r))"
    "json_get (record_json r) ''zoom'' = Some (JNum (sp_zoom r))"
    "json_get (record_json r) ''positions'' = Some (JObj (map (map_prod id point_json) (sp_positions r)))" "is_object (Some (record_json r))"
    using r(1) by (simp_all add: record_json_def)
  have p: "finitePoint (Some (point_json (sp_pan r))) = Some (sp_pan r)" "finite_number (Some (JNum (sp_zoom r))) = Some (sp_zoom r)"
    using r by (simp_all add: finitePoint_json finite_number_ok)
  have q: "read_positions (map (map_prod id point_json) (sp_positions r)) 0 = sp_positions r" by (rule read_positions_json[OF r(6,7)])
  show ?thesis
    unfolding parseRecord_def option.sel JSON_parse_stringify[OF j] option.case g p entries_of.simps q prod.case Let_def a json.case
    using stringify_nonempty[OF j] r(1,2,5) num_eq_version g(5) by simp
qed

lemma picked_keys:
  "map fst (concat (map (\<lambda>i. case f i of Some v \<Rightarrow> [(i, g v)] | None \<Rightarrow> []) is)) = filter (\<lambda>i. f i \<noteq> None) is"
  by (induction "is") (simp_all split: option.split)

lemma picked_values:
  "(i, w) \<in> set (concat (map (\<lambda>i. case f i of Some v \<Rightarrow> [(i, g v)] | None \<Rightarrow> []) is)) \<longleftrightarrow> i \<in> set is \<and> (\<exists>v. f i = Some v \<and> w = g v)"
  by (cases "f i") (auto split: option.splits if_splits intro!: bexI[of _ i])

definition saved_ids :: "json dict \<Rightarrow> string list" where
  "saved_ids ps = take MAX_SPATIAL_NODES (sort_by str_cmp (keys_of ps))"

lemma saved_positions_facts:
  assumes "distinct (keys_of ps)"
  shows "distinct (map fst (saved_positions ps))" "own_order (saved_positions ps) = saved_positions ps"
    "length (saved_positions ps) \<le> MAX_SPATIAL_NODES"
    "(i, w) \<in> set (saved_positions ps) \<longleftrightarrow> i \<in> set (saved_ids ps) \<and> i \<noteq> ''__proto__'' \<and> (\<exists>pt. finitePoint (map_of ps i) = Some pt \<and> w = round_point pt)"
proof -
  let ?l = "concat (map (\<lambda>i. case finitePoint (map_of ps i) of Some pt \<Rightarrow> [(i, round_point pt)] | None \<Rightarrow> []) (saved_ids ps))"
  have a: "saved_positions ps = assigned ?l" by (simp add: saved_positions_def saved_ids_def)
  have "distinct (saved_ids ps)" unfolding saved_ids_def using assms by (intro distinct_take) simp
  then have d: "distinct (map fst ?l)" unfolding picked_keys by (rule distinct_filter)
  have "length (map fst ?l) \<le> length (saved_ids ps)" unfolding picked_keys by (rule length_filter_le)
  then have l: "length ?l \<le> MAX_SPATIAL_NODES" by (simp add: saved_ids_def)
  show "distinct (map fst (saved_positions ps))" unfolding a by (rule assigned_distinct(1)[OF d])
  show "own_order (saved_positions ps) = saved_positions ps" unfolding a by (rule assigned_distinct(2)[OF d])
  show "length (saved_positions ps) \<le> MAX_SPATIAL_NODES" unfolding a using assigned_distinct(4)[OF d] l by simp
  show "(i, w) \<in> set (saved_positions ps) \<longleftrightarrow> i \<in> set (saved_ids ps) \<and> i \<noteq> ''__proto__'' \<and> (\<exists>pt. finitePoint (map_of ps i) = Some pt \<and> w = round_point pt)"
    unfolding a assigned_distinct(3)[OF d] mem_Collect_eq picked_values fst_conv by blast
qed

lemma option_eqI: "(\<And>w. a = Some w \<longleftrightarrow> b = Some w) \<Longrightarrow> a = b"
  by (cases a) (auto simp: option.expand, metis option.exhaust)

lemma saved_positions_map:
  assumes "distinct (keys_of ps)"
  shows "map_of (saved_positions ps) i =
    (if i \<in> set (saved_ids ps) \<and> i \<noteq> ''__proto__'' then map_option round_point (finitePoint (map_of ps i)) else None)"
proof -
  have "map_of (saved_positions ps) i = Some w \<longleftrightarrow> (i, w) \<in> set (saved_positions ps)" for w
    by (rule map_of_eq_Some_iff[OF saved_positions_facts(1)[OF assms]])
  then have "map_of (saved_positions ps) i = Some w \<longleftrightarrow>
      i \<in> set (saved_ids ps) \<and> i \<noteq> ''__proto__'' \<and> map_option round_point (finitePoint (map_of ps i)) = Some w" for w
    unfolding saved_positions_facts(4)[OF assms] by (cases "finitePoint (map_of ps i)") auto
  then show ?thesis
    by (intro option_eqI) simp
qed

section \<open>The store\<close>

lemma evict_keys: "fst (evict keys s) = drop (length keys - MAX_SPATIAL_ENTRIES) keys"
  by (induction keys s rule: evict.induct) (auto simp: Suc_diff_le)

lemma evict_other:
  "\<forall>q \<in> set (take (length keys - MAX_SPATIAL_ENTRIES) keys). k \<noteq> PREFIX @ q \<Longrightarrow> map_of (snd (evict keys s)) k = map_of s k"
  by (induction keys s rule: evict.induct) (auto simp: Suc_diff_le delete_conv')

lemma evict_gone:
  "q \<in> set (take (length keys - MAX_SPATIAL_ENTRIES) keys) \<Longrightarrow> q \<noteq> [] \<Longrightarrow> map_of (snd (evict keys s)) (PREFIX @ q) = None"
proof (induction keys s rule: evict.induct)
  case (2 old keys s)
  have none: "map_of (snd (evict ks t)) k = None" if "map_of t k = None" for ks t k
    using that by (induction ks t rule: evict.induct) (auto simp: delete_conv')
  show ?case
  proof (cases "q = old")
    case True
    then show ?thesis using 2 by (auto simp: delete_conv' none)
  next
    case False
    then show ?thesis using 2 by (auto simp: Suc_diff_le)
  qed
qed simp

lemma readIndex_text: "map_of s INDEX_KEY = Some (stringify dtoa (JArr (map JStr keys))) \<Longrightarrow> readIndex s = keys"
proof -
  have j: "json_ok dtoa (JArr (map JStr keys))" by (simp add: list_all_iff)
  have c: "concat (map (\<lambda>v. case v of JStr k \<Rightarrow> [k] | _ \<Rightarrow> []) (map JStr keys)) = keys" by (induction keys) simp_all
  assume "map_of s INDEX_KEY = Some (stringify dtoa (JArr (map JStr keys)))"
  then have "or_else (map_of s INDEX_KEY) ''[]'' = stringify dtoa (JArr (map JStr keys))" by (simp add: or_else_def)
  then show ?thesis unfolding readIndex_def using JSON_parse_stringify[OF j] c by simp
qed

lemma keys_apart [simp]: "PREFIX @ q \<noteq> INDEX_KEY" "INDEX_KEY \<noteq> PREFIX @ q"
  by (simp_all add: PREFIX_def INDEX_KEY_def)

lemma readIndex_cong: "map_of s INDEX_KEY = map_of t INDEX_KEY \<Longrightarrow> readIndex s = readIndex t"
  by (simp add: readIndex_def)

lemma writeIndex_entry: "map_of (writeIndex dtoa fits keys s) (PREFIX @ q) = map_of s (PREFIX @ q)"
  by (simp add: writeIndex_def set_item_def Let_def nullish_def update_conv')

lemma writeIndex_index: "\<forall>t. fits t \<Longrightarrow> readIndex (writeIndex dtoa fits keys s) = keys"
  by (rule readIndex_text[of _ dtoa]) (simp add: writeIndex_def set_item_def Let_def nullish_def update_conv')

text \<open>The index once a query is saved, before the oldest are dropped.\<close>

definition next_index :: "string \<Rightarrow> storage \<Rightarrow> string list" where
  "next_index q s = filter (\<lambda>k. k \<noteq> q) (readIndex s) @ [q]"

definition evicted :: "string \<Rightarrow> storage \<Rightarrow> string list" where
  "evicted q s = take (length (next_index q s) - MAX_SPATIAL_ENTRIES) (next_index q s)"

lemma not_evicted: "q \<notin> set (evicted q s)"
proof -
  have "q \<notin> set (take (length (filter (\<lambda>k. k \<noteq> q) (readIndex s)) + 1 - MAX_SPATIAL_ENTRIES) (filter (\<lambda>k. k \<noteq> q) (readIndex s) @ [q]))"
    by (auto simp: MAX_SPATIAL_ENTRIES_def dest: in_set_takeD)
  then show ?thesis by (simp add: evicted_def next_index_def)
qed

lemma save_record_entry:
  "map_of (save_record dtoa fits q r s) (PREFIX @ q) = Some (stringify dtoa (record_json r)) \<or>
    \<not> (\<forall>t. fits t) \<and> map_of (save_record dtoa fits q r s) (PREFIX @ q) = map_of s (PREFIX @ q)"
proof -
  have "map_of (snd (evict (next_index q s) s)) (PREFIX @ q) = map_of s (PREFIX @ q)"
    using not_evicted[of q s] by (intro evict_other) (auto simp: evicted_def)
  then show ?thesis unfolding save_record_def next_index_def
    by (auto simp: set_item_def Let_def writeIndex_entry update_conv' split: prod.split)
qed

lemma save_record_other:
  assumes "q' \<noteq> q" "q' \<notin> set (evicted q s)"
  shows "map_of (save_record dtoa fits q r s) (PREFIX @ q') = map_of s (PREFIX @ q')"
proof -
  have "map_of (snd (evict (next_index q s) s)) (PREFIX @ q') = map_of s (PREFIX @ q')"
    using assms(2) by (intro evict_other) (auto simp: evicted_def)
  then show ?thesis using assms(1) unfolding save_record_def next_index_def
    by (auto simp: set_item_def Let_def writeIndex_entry update_conv' split: prod.split)
qed

lemma save_record_gone:
  assumes "q' \<noteq> q" "q' \<in> set (evicted q s)" "q' \<noteq> []"
  shows "map_of (save_record dtoa fits q r s) (PREFIX @ q') = None"
proof -
  have "map_of (snd (evict (next_index q s) s)) (PREFIX @ q') = None"
    using assms(2,3) by (intro evict_gone) (simp_all add: evicted_def)
  then show ?thesis using assms(1) unfolding save_record_def next_index_def
    by (auto simp: set_item_def Let_def writeIndex_entry update_conv' split: prod.split)
qed

lemma save_record_index: "\<forall>t. fits t \<Longrightarrow> readIndex (save_record dtoa fits q r s) = drop (length (next_index q s) - MAX_SPATIAL_ENTRIES) (next_index q s)"
  using evict_keys[of "next_index q s" s] unfolding save_record_def next_index_def
  by (auto simp: set_item_def Let_def writeIndex_index split: prod.split)

definition point_small :: "point \<Rightarrow> bool" where
  "point_small p \<longleftrightarrow> \<bar>js_round (pt_x p)\<bar> < 2 ^ 53 \<and> \<bar>js_round (pt_y p)\<bar> < 2 ^ 53"

lemma round_point_ok: "point_small p \<Longrightarrow> point_ok dtoa (round_point p)"
  by (simp add: point_small_def point_ok_def round_point_def num_ok_int)

section \<open>Saving and loading\<close>

lemma saved_record_ok:
  assumes "distinct (keys_of (ar_positions state))" "saved_positions (ar_positions state) \<noteq> []" "point_small pan"
    "\<forall>i pt. finitePoint (map_of (ar_positions state) i) = Some pt \<longrightarrow> point_small pt" "num_ok dtoa zoom" "\<not> num_le zoom (Fin 0 0)"
  shows "record_ok dtoa \<lparr> sp_v = SPATIAL_VERSION, sp_positions = saved_positions (ar_positions state), sp_pan = round_point pan, sp_zoom = zoom \<rparr>"
proof -
  note f = saved_positions_facts[OF assms(1)]
  have "point_ok dtoa w" if "(i, w) \<in> set (saved_positions (ar_positions state))" for i w
    using that assms(4) unfolding f(4) by (auto intro: round_point_ok)
  then have "list_all (\<lambda>kv. point_ok dtoa (snd kv)) (saved_positions (ar_positions state))" by (auto simp: list_all_iff)
  moreover have "''__proto__'' \<notin> fst ` set (saved_positions (ar_positions state))" using f(4) by (auto simp: image_iff)
  ultimately show ?thesis using assms f(1-3) by (simp add: record_ok_def round_point_ok)
qed

text \<open>C17: A saved arrangement loads as it was: the rounded position of each of the first 400 nodes
  by name that has one, the rounded pan and the zoom.  When the storage refuses the write, what
  was saved before under the query still loads.  The arrangements of other queries are untouched,
  but for the oldest beyond the eight kept.\<close>

theorem saved_arrangement_loads:
  assumes "finitePoint (ar_pan state) = Some pan" "finite_number (ar_zoom state) = Some zoom" "\<not> num_le zoom (Fin 0 0)"
    and "distinct (keys_of (ar_positions state))" "saved_positions (ar_positions state) \<noteq> []"
    and "point_small pan" "\<forall>i pt. finitePoint (map_of (ar_positions state) i) = Some pt \<longrightarrow> point_small pt" "num_ok dtoa zoom"
  shows "let st = saveSpatial dtoa fits q state (Some s);
      new = \<lparr> sp_v = SPATIAL_VERSION, sp_positions = saved_positions (ar_positions state), sp_pan = round_point pan, sp_zoom = zoom \<rparr>
    in (loadSpatial q st = Some new \<or> loadSpatial q st = loadSpatial q (Some s)) \<and>
       ((\<forall>t. fits t) \<longrightarrow> loadSpatial q st = Some new) \<and>
       (\<forall>i. map_of (sp_positions new) i =
          (if i \<in> set (take 400 (sort_by str_cmp (keys_of (ar_positions state)))) \<and> i \<noteq> ''__proto__''
           then map_option round_point (finitePoint (map_of (ar_positions state) i)) else None)) \<and>
       (\<forall>q'. q' \<noteq> q \<and> q' \<notin> set (evicted q s) \<longrightarrow> loadSpatial q' st = loadSpatial q' (Some s))"
proof -
  let ?ps = "saved_positions (ar_positions state)"
  let ?new = "\<lparr> sp_v = SPATIAL_VERSION, sp_positions = ?ps, sp_pan = round_point pan, sp_zoom = zoom \<rparr>"
  have st: "saveSpatial dtoa fits q state (Some s) = Some (save_record dtoa fits q ?new s)"
    unfolding saveSpatial_def using assms(1-3,5) by (simp add: Let_def)
  note p = parseRecord_print[OF saved_record_ok[OF assms(4-8,3)]]
  have l: "loadSpatial q (Some (save_record dtoa fits q ?new s)) = Some ?new \<or>
      \<not> (\<forall>t. fits t) \<and> loadSpatial q (Some (save_record dtoa fits q ?new s)) = loadSpatial q (Some s)"
    using save_record_entry[of dtoa fits q ?new s] p unfolding loadSpatial_def option.case by (elim disjE conjE) simp_all
  have "map_of ?ps i = (if i \<in> set (saved_ids (ar_positions state)) \<and> i \<noteq> ''__proto__''
      then map_option round_point (finitePoint (map_of (ar_positions state) i)) else None)" for i
    by (rule saved_positions_map[OF assms(4)])
  moreover have "loadSpatial q' (Some (save_record dtoa fits q ?new s)) = loadSpatial q' (Some s)" if "q' \<noteq> q \<and> q' \<notin> set (evicted q s)" for q'
    using save_record_other[of q' q s] that by (simp add: loadSpatial_def)
  ultimately show ?thesis unfolding st Let_def spatial_record.simps saved_ids_def[unfolded MAX_SPATIAL_NODES_def, symmetric]
    using l by (intro conjI allI impI) blast+
qed

definition demo_arrangement :: arrangement where
  "demo_arrangement =
     \<lparr> ar_positions = [(''a'', point_json \<lparr> pt_x = Fin 21 (- 1), pt_y = Fin (- 3) 0 \<rparr>)],
       ar_pan = Some (point_json \<lparr> pt_x = Fin 0 0, pt_y = Fin 0 0 \<rparr>), ar_zoom = Some (JNum SPATIAL_VERSION) \<rparr>"

lemma version_num: "SPATIAL_VERSION = num_of_int 1"
  by (simp add: SPATIAL_VERSION_def num_of_int_def round_ratio_def ratio_exp_def ge_pow_def)

theorem saved_arrangement_loads_witness:
  "loadSpatial ''q'' (saveSpatial (\<lambda>_. []) (\<lambda>_. True) ''q'' demo_arrangement (Some [])) =
    Some \<lparr> sp_v = SPATIAL_VERSION, sp_positions = saved_positions (ar_positions demo_arrangement),
      sp_pan = round_point \<lparr> pt_x = Fin 0 0, pt_y = Fin 0 0 \<rparr>, sp_zoom = SPATIAL_VERSION \<rparr>"
proof -
  have p: "finitePoint (Some (point_json \<lparr> pt_x = Fin a b, pt_y = Fin c d \<rparr>)) = Some \<lparr> pt_x = Fin a b, pt_y = Fin c d \<rparr>" for a b c d
    by (simp add: finitePoint_def point_json_def finite_number_def)
  have n: "finitePoint None = None" by (simp add: finitePoint_def)
  have ps: "saved_positions (ar_positions demo_arrangement) = [(''a'', round_point \<lparr> pt_x = Fin 21 (- 1), pt_y = Fin (- 3) 0 \<rparr>)]"
    by (simp add: saved_positions_def demo_arrangement_def p assigned_def from_entries_def own_order_def is_index_def is_digit_def
        MAX_SPATIAL_NODES_def sort_by_def)
  have h1: "finitePoint (ar_pan demo_arrangement) = Some \<lparr> pt_x = Fin 0 0, pt_y = Fin 0 0 \<rparr>" by (simp add: demo_arrangement_def p)
  have h2: "finite_number (ar_zoom demo_arrangement) = Some SPATIAL_VERSION" by (simp add: demo_arrangement_def finite_number_def SPATIAL_VERSION_def)
  have h3: "\<not> num_le SPATIAL_VERSION (Fin 0 0)" by (simp add: SPATIAL_VERSION_def num_le_def num_less_def num_eq_def)
  have h4: "distinct (keys_of (ar_positions demo_arrangement))" by (simp add: demo_arrangement_def)
  have h5: "saved_positions (ar_positions demo_arrangement) \<noteq> []" by (simp add: ps)
  have h6: "point_small \<lparr> pt_x = Fin 0 0, pt_y = Fin 0 0 \<rparr>" by (simp add: point_small_def js_round_def)
  have h7: "\<forall>i pt. finitePoint (map_of (ar_positions demo_arrangement) i) = Some pt \<longrightarrow> point_small pt"
    by (auto simp: demo_arrangement_def p n point_small_def js_round_def split: if_splits)
  have h8: "num_ok (\<lambda>_. []) SPATIAL_VERSION" unfolding version_num by (rule num_ok_int) simp
  show ?thesis
    using saved_arrangement_loads[OF h1 h2 h3 h4 h5 h6 h7 h8, of "\<lambda>_. True" "''q''" "[]", unfolded Let_def, THEN conjunct2, THEN conjunct1] by simp
qed

section \<open>What is kept\<close>

datatype spatial_op = Save graph_state arrangement | Clear graph_state

fun spatial_step :: "(jsnum \<Rightarrow> string) \<Rightarrow> (storage \<Rightarrow> bool) \<Rightarrow> storage option \<Rightarrow> spatial_op \<Rightarrow> storage option" where
  "spatial_step dtoa fits st (Save q a) = saveSpatial dtoa fits (graphQueryKey q) a st"
| "spatial_step dtoa fits st (Clear q) = clearSpatial dtoa fits (graphQueryKey q) st"

definition index_exact :: "storage \<Rightarrow> bool" where
  "index_exact s \<longleftrightarrow> length (readIndex s) \<le> MAX_SPATIAL_ENTRIES \<and> distinct (readIndex s) \<and> [] \<notin> set (readIndex s) \<and>
     (\<forall>q. map_of s (PREFIX @ q) \<noteq> None \<longleftrightarrow> q \<in> set (readIndex s))"

lemma graphQueryKey_nonempty: "graphQueryKey q \<noteq> []"
  by (simp add: graphQueryKey_def)

lemma save_record_exact:
  assumes i: "index_exact s" and f: "\<forall>t. fits t" and q: "q \<noteq> []"
  shows "index_exact (save_record dtoa fits q r s)"
proof -
  let ?i = "next_index q s" and ?s = "save_record dtoa fits q r s"
  have d: "distinct ?i" "[] \<notin> set ?i" "set ?i = insert q (set (readIndex s))" using i q by (auto simp: next_index_def index_exact_def)
  have split: "evicted q s @ drop (length ?i - MAX_SPATIAL_ENTRIES) ?i = ?i" by (simp add: evicted_def)
  note idx = save_record_index[OF f, of dtoa q r s]
  have dj: "set (evicted q s) \<inter> set (readIndex ?s) = {}" "set (evicted q s) \<union> set (readIndex ?s) = set ?i"
    using split d(1) unfolding idx by (metis distinct_append, metis set_append)
  have "map_of ?s (PREFIX @ k) \<noteq> None \<longleftrightarrow> k \<in> set (readIndex ?s)" for k
  proof (cases "k = q")
    case True
    then show ?thesis using save_record_entry[of dtoa fits q r s] f not_evicted[of q s] dj(2) d(3) by auto
  next
    case False
    show ?thesis
    proof (cases "k \<in> set (evicted q s)")
      case True
      then have "k \<noteq> []" using d(2) dj(2) by blast
      then have "map_of ?s (PREFIX @ k) = None" using save_record_gone True False by blast
      then show ?thesis using True dj(1) by auto
    next
      case n: False
      then show ?thesis using save_record_other[OF False n, of dtoa fits r] i dj(2) d(3) False by (auto simp: index_exact_def)
    qed
  qed
  moreover have "length (readIndex ?s) \<le> MAX_SPATIAL_ENTRIES" "distinct (readIndex ?s)" "[] \<notin> set (readIndex ?s)"
    using d(1,2) unfolding idx by (auto dest: in_set_dropD)
  ultimately show ?thesis by (simp add: index_exact_def)
qed

lemma clearSpatial_exact:
  assumes "index_exact s" "\<forall>t. fits t"
  shows "\<exists>t. clearSpatial dtoa fits q (Some s) = Some t \<and> index_exact t"
proof -
  let ?t = "AList.delete (PREFIX @ q) s" and ?k = "filter (\<lambda>k. k \<noteq> q) (readIndex s)"
  have r: "readIndex ?t = readIndex s" by (rule readIndex_cong) (simp add: delete_conv')
  have i: "readIndex (writeIndex dtoa fits ?k ?t) = ?k" by (rule writeIndex_index[OF assms(2)])
  have "length ?k \<le> MAX_SPATIAL_ENTRIES" using assms(1) length_filter_le[of "\<lambda>k. k \<noteq> q" "readIndex s"] unfolding index_exact_def by linarith
  moreover have "map_of (writeIndex dtoa fits ?k ?t) (PREFIX @ k) \<noteq> None \<longleftrightarrow> k \<in> set ?k" for k
    using assms(1) by (simp add: writeIndex_entry delete_conv' index_exact_def)
  ultimately have "index_exact (writeIndex dtoa fits ?k ?t)" using assms(1) unfolding index_exact_def i by simp
  then show ?thesis by (simp add: clearSpatial_def r Let_def)
qed

lemma spatial_step_exact:
  assumes "index_exact s" "\<forall>t. fits t"
  shows "\<exists>t. spatial_step dtoa fits (Some s) op = Some t \<and> index_exact t"
proof (cases op)
  case (Save q a)
  have "index_exact (save_record dtoa fits (graphQueryKey q) r s)" for r by (rule save_record_exact[OF assms graphQueryKey_nonempty])
  then show ?thesis using Save assms(1) by (simp add: saveSpatial_def Let_def split: option.split)
next
  case (Clear q)
  then show ?thesis using clearSpatial_exact[OF assms] by simp
qed

text \<open>Under a quota a write of the index may be refused; the index is then the one before.\<close>

definition index_short :: "storage \<Rightarrow> bool" where
  "index_short s \<longleftrightarrow> length (readIndex s) \<le> MAX_SPATIAL_ENTRIES \<and> distinct (readIndex s)"

lemma readIndex_empty: "map_of s INDEX_KEY = None \<Longrightarrow> readIndex s = []"
  by (simp add: readIndex_def or_else_def truthy_def JSON_parse_def parse_value.simps(2) skip_ws_def)

lemma writeIndex_any: "readIndex (writeIndex dtoa fits keys s) = keys \<or> readIndex (writeIndex dtoa fits keys s) = readIndex s"
  using readIndex_text[of "AList.update INDEX_KEY (stringify dtoa (JArr (map JStr keys))) s" dtoa keys]
  by (simp add: writeIndex_def set_item_def Let_def nullish_def update_conv')

lemma save_record_index_any:
  "readIndex (save_record dtoa fits q r s) = drop (length (next_index q s) - MAX_SPATIAL_ENTRIES) (next_index q s) \<or>
    readIndex (save_record dtoa fits q r s) = readIndex s"
proof -
  obtain keys s1 where e: "evict (next_index q s) s = (keys, s1)" by (rule prod.exhaust)
  have k: "keys = drop (length (next_index q s) - MAX_SPATIAL_ENTRIES) (next_index q s)" using evict_keys[of "next_index q s" s] e by simp
  have "map_of s1 INDEX_KEY = map_of s INDEX_KEY" using evict_other[of "next_index q s" INDEX_KEY s] e by simp
  then have i: "readIndex s1 = readIndex s" by (rule readIndex_cong)
  show ?thesis
  proof (cases "set_item fits (PREFIX @ q) (stringify dtoa (record_json r)) s1")
    case None
    then show ?thesis using e i by (simp add: save_record_def next_index_def)
  next
    case (Some s2)
    then have "readIndex s2 = readIndex s1" by (intro readIndex_cong) (auto simp: set_item_def Let_def update_conv' split: if_splits)
    then show ?thesis using Some e i k writeIndex_any[of dtoa fits keys s2] by (simp add: save_record_def next_index_def)
  qed
qed

lemma spatial_step_short:
  assumes "index_short s"
  shows "\<exists>t. spatial_step dtoa fits (Some s) op = Some t \<and> index_short t"
proof (cases op)
  case (Save q a)
  let ?i = "next_index (graphQueryKey q) s"
  have "distinct ?i" using assms by (simp add: next_index_def index_short_def)
  then have "index_short (save_record dtoa fits (graphQueryKey q) r s)" for r
    using save_record_index_any[of dtoa fits "graphQueryKey q" r s] assms unfolding index_short_def by (elim disjE) simp_all
  then show ?thesis using Save assms by (simp add: saveSpatial_def Let_def split: option.split)
next
  case (Clear q)
  let ?t = "AList.delete (PREFIX @ graphQueryKey q) s" and ?k = "filter (\<lambda>k. k \<noteq> graphQueryKey q) (readIndex s)"
  have r: "readIndex ?t = readIndex s" by (rule readIndex_cong) (simp add: delete_conv')
  have "length ?k \<le> MAX_SPATIAL_ENTRIES" "distinct ?k"
    using assms length_filter_le[of "\<lambda>k. k \<noteq> graphQueryKey q" "readIndex s"] unfolding index_short_def by (linarith, simp)
  then have "index_short (writeIndex dtoa fits ?k ?t)" using writeIndex_any[of dtoa fits ?k ?t] assms r unfolding index_short_def by (elim disjE) simp_all
  then show ?thesis using Clear r by (simp add: clearSpatial_def Let_def)
qed

lemma spatial_steps:
  assumes "\<And>s op. P s \<Longrightarrow> \<exists>t. spatial_step dtoa fits (Some s) op = Some t \<and> P t" "P s"
  shows "\<exists>t. foldl (spatial_step dtoa fits) (Some s) ops = Some t \<and> P t"
  using assms(2)
proof (induction ops arbitrary: s)
  case (Cons op ops)
  obtain t where "spatial_step dtoa fits (Some s) op = Some t" "P t" using assms(1)[OF Cons.prems, of op] by blast
  then show ?case using Cons.IH[of t] by simp
qed simp

text \<open>C19: However arrangements are saved and cleared, and whichever writes the storage refuses, the
  index lists at most eight queries, each once; and when it refuses none, a query has a stored
  arrangement exactly when the index lists it, so at most eight are kept.\<close>

theorem spatial_bounded:
  "\<exists>s. foldl (spatial_step dtoa fits) (Some []) ops = Some s \<and> length (readIndex s) \<le> 8 \<and> distinct (readIndex s) \<and>
    ((\<forall>t. fits t) \<longrightarrow> (\<forall>q. map_of s (PREFIX @ q) \<noteq> None \<longleftrightarrow> q \<in> set (readIndex s)))"
proof -
  have e: "index_short []" "index_exact []" using readIndex_empty[of "[]"] by (simp_all add: index_short_def index_exact_def)
  obtain s where s: "foldl (spatial_step dtoa fits) (Some []) ops = Some s" "index_short s"
    using spatial_steps[of index_short dtoa fits "[]" ops, OF spatial_step_short e(1)] by blast
  moreover have "index_exact s" if "\<forall>t. fits t"
    using spatial_steps[of index_exact dtoa fits "[]" ops, OF spatial_step_exact[OF _ that] e(2)] s(1) by auto
  ultimately show ?thesis by (auto simp: index_short_def index_exact_def MAX_SPATIAL_ENTRIES_def)
qed

theorem spatial_bounded_witness:
  "\<exists>s. foldl (spatial_step (\<lambda>_. []) (\<lambda>_. True)) (Some [])
      [Save \<lparr> gs_kind = ''service'', gs_key = ''a'', gs_perspective = PService, gs_views = DEFAULT_VIEWS, gs_direction = ''both'', gs_depth = 1,
          gs_maxNodes = 40 \<rparr> demo_arrangement] = Some s \<and> length (readIndex s) \<le> 8 \<and> (\<forall>q. map_of s (PREFIX @ q) \<noteq> None \<longleftrightarrow> q \<in> set (readIndex s))"
  using spatial_bounded[of "\<lambda>_. []" "\<lambda>_. True"
      "[Save \<lparr> gs_kind = ''service'', gs_key = ''a'', gs_perspective = PService, gs_views = DEFAULT_VIEWS, gs_direction = ''both'', gs_depth = 1,
          gs_maxNodes = 40 \<rparr> demo_arrangement]"] by blast

text \<open>
  A storage with room for the arrangements but not for the index: nothing is listed, nothing is
  evicted, and every arrangement saved stays, however many.
\<close>

lemma unlisted_save:
  assumes "map_of s INDEX_KEY = None"
  shows "save_record dtoa (\<lambda>t. map_of t INDEX_KEY = None) q r s = AList.update (PREFIX @ q) (stringify dtoa (record_json r)) s"
  using assms readIndex_empty[OF assms]
  by (simp add: save_record_def MAX_SPATIAL_ENTRIES_def set_item_def writeIndex_def nullish_def update_conv' Let_def)

lemma unlisted_arrangements:
  assumes "finitePoint (ar_pan a) = Some pan" "finite_number (ar_zoom a) = Some zoom" "\<not> num_le zoom (Fin 0 0)" "saved_positions (ar_positions a) \<noteq> []"
  shows "\<exists>s. foldl (spatial_step dtoa (\<lambda>t. map_of t INDEX_KEY = None)) (Some []) (map (\<lambda>q. Save q a) qs) = Some s \<and>
    map_of s INDEX_KEY = None \<and> (\<forall>q \<in> set qs. map_of s (PREFIX @ graphQueryKey q) \<noteq> None)"
proof (induction qs rule: rev_induct)
  case (snoc q qs)
  let ?step = "spatial_step dtoa (\<lambda>t. map_of t INDEX_KEY = None)"
  obtain s where s: "foldl ?step (Some []) (map (\<lambda>q. Save q a) qs) = Some s" "map_of s INDEX_KEY = None"
    "\<forall>q \<in> set qs. map_of s (PREFIX @ graphQueryKey q) \<noteq> None" using snoc.IH by blast
  obtain r where "?step (Some s) (Save q a) = Some (save_record dtoa (\<lambda>t. map_of t INDEX_KEY = None) (graphQueryKey q) r s)"
    using assms by (simp add: saveSpatial_def Let_def)
  then show ?case using s unlisted_save[OF s(2), of dtoa "graphQueryKey q" r] by (auto simp: update_conv')
qed simp

section \<open>The identity of a query\<close>

lemma split_last:
  assumes "c \<notin> set x" "c \<notin> set y"
  shows "a @ c # x = b @ c # y \<longleftrightarrow> a = b \<and> x = y"
proof -
  have "a @ c # x = b @ c # y \<longleftrightarrow> rev x @ c # rev a = rev y @ c # rev b" by (metis append.assoc append_Cons append_Nil rev.simps(2) rev_append rev_swap)
  then show ?thesis using split_first[of c "rev x" "rev y" "rev a" "rev b"] assms by auto
qed

lemma show_int_inj: "show_int a = show_int b \<longleftrightarrow> a = b"
proof
  assume e: "show_int a = show_int b"
  have d: "show_nat m \<noteq> CHR ''-'' # s" for m s using show_nat_hd[of m] by (auto simp: is_digit_def)
  show "a = b" using e d d[symmetric] by (cases "a < 0"; cases "b < 0") (auto simp: show_int_def dest!: show_nat_inj)
qed simp

lemma no_bar:
  "CHR ''|'' \<notin> set (show_int n)" "CHR ''|'' \<notin> set (perspective_str p)"
  "d \<in> set KNOWN_DIRECTIONS \<Longrightarrow> CHR ''|'' \<notin> set d"
proof -
  show "CHR ''|'' \<notin> set (show_int n)" using show_int_num_char[of n] by (auto simp: list_all_iff num_char_def is_digit_def)
  show "CHR ''|'' \<notin> set (perspective_str p)" by (cases p) simp_all
  show "d \<in> set KNOWN_DIRECTIONS \<Longrightarrow> CHR ''|'' \<notin> set d" by (auto simp: KNOWN_DIRECTIONS_def)
qed

lemma join_set: "c \<notin> set sep \<Longrightarrow> \<forall>x \<in> set xs. c \<notin> set x \<Longrightarrow> c \<notin> set (join sep xs)"
  by (induction sep xs rule: join.induct) auto

lemma views_text:
  assumes "wf_views v"
  shows "CHR ''|'' \<notin> set (join ''+'' (sort_by str_cmp v))" "split_on (CHR ''+'') (join ''+'' (sort_by str_cmp v)) = sort_by str_cmp v"
proof -
  have "CHR ''|'' \<notin> set x \<and> CHR ''+'' \<notin> set x" if "x \<in> set KNOWN_VIEWS" for x using that by (auto simp: KNOWN_VIEWS_def)
  then have k: "\<forall>x \<in> set (sort_by str_cmp v). CHR ''|'' \<notin> set x \<and> CHR ''+'' \<notin> set x" using assms by (auto simp: wf_views_def)
  show "CHR ''|'' \<notin> set (join ''+'' (sort_by str_cmp v))" using k by (intro join_set) auto
  have "sort_by str_cmp v \<noteq> []" using assms by (metis length_0_conv length_sort_by wf_views_def)
  then show "split_on (CHR ''+'') (join ''+'' (sort_by str_cmp v)) = sort_by str_cmp v" using k by (intro split_on_join) auto
qed

lemma views_identity:
  assumes "wf_views v" "wf_views w"
  shows "join ''+'' (sort_by str_cmp v) = join ''+'' (sort_by str_cmp w) \<longleftrightarrow> set v = set w"
proof
  assume "join ''+'' (sort_by str_cmp v) = join ''+'' (sort_by str_cmp w)"
  then have "sort_by str_cmp v = sort_by str_cmp w" using views_text(2)[OF assms(1)] views_text(2)[OF assms(2)] by metis
  then show "set v = set w" by (metis set_sort_by)
next
  assume "set v = set w"
  then have "sort_by str_cmp v = sort_by str_cmp w"
    using assms by (intro sorted_wrt_unique[OF str_order.sort_by_sorted str_order.sort_by_sorted]) (auto simp: wf_views_def str_cmp_antisym)
  then show "join ''+'' (sort_by str_cmp v) = join ''+'' (sort_by str_cmp w)" by simp
qed

text \<open>C18: Two well-formed graph states have one storage key exactly when they ask one question: the
  same focus, perspective, direction, depth and node budget, and the same views in any order --
  whatever characters the focus key holds.\<close>

theorem graphQueryKey_identity:
  assumes "wf_graph a" "wf_graph b" "CHR ''|'' \<notin> set (gs_kind a)" "CHR ''|'' \<notin> set (gs_kind b)"
  shows "graphQueryKey a = graphQueryKey b \<longleftrightarrow>
    gs_kind a = gs_kind b \<and> gs_key a = gs_key b \<and> gs_perspective a = gs_perspective b \<and> set (gs_views a) = set (gs_views b) \<and>
    gs_direction a = gs_direction b \<and> gs_depth a = gs_depth b \<and> gs_maxNodes a = gs_maxNodes b"
proof -
  define k where "k g = gs_key g @ CHR ''|'' # perspective_str (gs_perspective g)" for g :: graph_state
  define v where "v g = join ''+'' (sort_by str_cmp (gs_views g))" for g :: graph_state
  have key: "graphQueryKey g = gs_kind g @ CHR ''|'' # ((((k g @ CHR ''|'' # v g) @ CHR ''|'' # gs_direction g) @ CHR ''|'' # show_int (gs_depth g)) @
      CHR ''|'' # show_int (gs_maxNodes g))" for g
    by (simp add: graphQueryKey_def k_def v_def)
  have w: "wf_views (gs_views a)" "wf_views (gs_views b)" "gs_direction a \<in> set KNOWN_DIRECTIONS" "gs_direction b \<in> set KNOWN_DIRECTIONS"
    using assms by (simp_all add: wf_graph_def)
  have nv: "CHR ''|'' \<notin> set (v a)" "CHR ''|'' \<notin> set (v b)" unfolding v_def using views_text(1) w by blast+
  have p: "perspective_str x = perspective_str y \<longleftrightarrow> x = y" for x y by (cases x; cases y) simp_all
  have "k a = k b \<longleftrightarrow> gs_key a = gs_key b \<and> gs_perspective a = gs_perspective b" unfolding k_def split_last[OF no_bar(2) no_bar(2)] p ..
  moreover have "v a = v b \<longleftrightarrow> set (gs_views a) = set (gs_views b)" unfolding v_def by (rule views_identity[OF w(1,2)])
  ultimately show ?thesis
    unfolding key split_first[OF assms(3,4)] split_last[OF no_bar(1) no_bar(1)] split_last[OF no_bar(3)[OF w(3)] no_bar(3)[OF w(4)]]
      split_last[OF nv] show_int_inj by blast
qed

theorem graphQueryKey_identity_witness:
  "graphQueryKey \<lparr> gs_kind = ''service'', gs_key = ''a|b'', gs_perspective = PService, gs_views = [''expected'', ''differences''],
      gs_direction = ''both'', gs_depth = 2, gs_maxNodes = 40 \<rparr> =
    graphQueryKey \<lparr> gs_kind = ''service'', gs_key = ''a|b'', gs_perspective = PService, gs_views = [''differences'', ''expected''],
      gs_direction = ''both'', gs_depth = 2, gs_maxNodes = 40 \<rparr>"
  by (subst graphQueryKey_identity) (auto simp: wf_graph_def wf_views_def graph_consts)

section \<open>A stored text that is not a saved arrangement\<close>

lemma update_set: "set (AList.update k v m) \<subseteq> insert (k, v) (set m)" "length (AList.update k v m) \<le> Suc (length m)"
  by (induction m) auto

lemma foldl_update_sub:
  "set (foldl (\<lambda>m kv. AList.update (fst kv) (snd kv) m) m kvs) \<subseteq> set m \<union> set kvs \<and>
    length (foldl (\<lambda>m kv. AList.update (fst kv) (snd kv) m) m kvs) \<le> length m + length kvs"
proof (induction kvs arbitrary: m)
  case (Cons kv kvs)
  let ?m = "AList.update (fst kv) (snd kv) m"
  have "set ?m \<subseteq> insert kv (set m)" "length ?m \<le> Suc (length m)" using update_set[of "fst kv" "snd kv" m] by simp_all
  then show ?case using Cons.IH[of ?m] by (simp only: foldl_Cons list.set list.size) (intro conjI, blast, linarith)
qed simp

lemma from_entries_sub: "set (from_entries kvs) \<subseteq> set kvs" "length (from_entries kvs) \<le> length kvs"
proof -
  have o: "set (own_order xs) = set xs" "length (own_order xs) = length xs" for xs :: "(string \<times> 'a) list"
    by (auto simp: own_order_def sum_length_filter_compl)
  show "set (from_entries kvs) \<subseteq> set kvs" "length (from_entries kvs) \<le> length kvs"
    unfolding from_entries_def o using foldl_update_sub[of "[]" kvs] by simp_all
qed

definition point_finite :: "point \<Rightarrow> bool" where
  "point_finite p \<longleftrightarrow> num_finite (pt_x p) \<and> num_finite (pt_y p)"

lemma finitePoint_finite: "finitePoint v = Some p \<Longrightarrow> point_finite p"
  by (auto simp: finitePoint_def finite_number_def point_finite_def num_finite_def split: if_splits option.splits json.splits jsnum.splits)

lemma read_positions_taken:
  "n < MAX_SPATIAL_NODES \<Longrightarrow> n + length (read_positions kvs n) \<le> MAX_SPATIAL_NODES \<and> list_all (\<lambda>kv. point_finite (snd kv)) (read_positions kvs n)"
  by (induction kvs n rule: read_positions.induct) (auto simp: finitePoint_finite split: option.split)

text \<open>Whatever text is stored, what is loaded is usable: a finite pan, a finite positive zoom, and
  at most 400 finite positions.\<close>

lemma loaded_record_usable:
  assumes "loadSpatial q st = Some r"
  shows "point_finite (sp_pan r) \<and> num_finite (sp_zoom r) \<and> \<not> num_le (sp_zoom r) (Fin 0 0) \<and>
    length (sp_positions r) \<le> MAX_SPATIAL_NODES \<and> list_all (\<lambda>kv. point_finite (snd kv)) (sp_positions r)"
proof -
  obtain parsed pan zoom where r: "finitePoint (json_get parsed ''pan'') = Some pan" "finite_number (json_get parsed ''zoom'') = Some zoom"
      "\<not> num_le zoom (Fin 0 0)" "r = \<lparr> sp_v = SPATIAL_VERSION,
        sp_positions = assigned (read_positions (entries_of (the (json_get parsed ''positions''))) 0), sp_pan = pan, sp_zoom = zoom \<rparr>"
    using assms by (auto simp: loadSpatial_def parseRecord_def Let_def split: option.splits if_splits)
  define kvs where "kvs = entries_of (the (json_get parsed ''positions''))"
  note t = read_positions_taken[of 0 kvs]
  let ?l = "filter (\<lambda>kv. fst kv \<noteq> ''__proto__'') (read_positions kvs 0)"
  have "set (assigned (read_positions kvs 0)) \<subseteq> set (read_positions kvs 0)"
    using from_entries_sub(1)[of ?l] by (auto simp: assigned_def)
  moreover have "length (assigned (read_positions kvs 0)) \<le> length (read_positions kvs 0)"
    using from_entries_sub(2)[of ?l] length_filter_le[of "\<lambda>kv. fst kv \<noteq> ''__proto__''" "read_positions kvs 0"] unfolding assigned_def by linarith
  moreover have "num_finite zoom" using r(2) by (auto simp: finite_number_def num_finite_def split: option.splits json.splits jsnum.splits)
  ultimately show ?thesis using r(3) t finitePoint_finite[OF r(1)] unfolding r(4) kvs_def[symmetric] by (auto simp: MAX_SPATIAL_NODES_def list_all_iff)
qed

end
