(* ===== verification/Scroll.thy ===== *)
theory Scroll
  imports Storage
begin

text \<open>
  Scroll restoration for the hash router (\<open>lib/scrollRestore.ts\<close>): the positions remembered per
  history entry, the restore that is re-applied until it holds, and the handlers of a scroll, a
  hash change and a page hide.

  Of an entry's \<open>history.state\<close> only the module's marker is read; it is the entry's index, \<open>None\<close>
  where the module has not stamped it.  \<open>replaceState\<close> does not throw.  Offsets are doubles and
  their difference is taken exactly; times are milliseconds.
\<close>

section \<open>Data\<close>

definition STORE_KEY :: string where "STORE_KEY = ''pacto:scroll''"
definition MAX_SCROLL_ENTRIES :: nat where "MAX_SCROLL_ENTRIES = 30"
definition SETTLE_MS :: int where "SETTLE_MS = 3000"
definition HOLD_MS :: int where "HOLD_MS = 400"

text \<open>A restore under way: the offset, the deadline, and since when the offset holds (0: it does not).\<close>

record restore =
  rs_y :: jsnum
  rs_deadline :: int
  rs_heldSince :: int

record scroll =
  sc_positions :: "jsnum dict"
  sc_currentHash :: string
  sc_currentIdx :: nat
  sc_highWater :: nat
  sc_cancel :: "restore option"

text \<open>The window: the current entry's hash and marker, the offset, the storage, the time, and the
  offsets \<open>scrollTo\<close> was called with.\<close>

record win =
  wn_hash :: string
  wn_state :: "nat option"
  wn_scrollY :: jsnum
  wn_sessionStorage :: "storage option"
  wn_now :: int
  wn_scrollTo :: "jsnum list"

section \<open>Keys\<close>

definition load_positions :: "storage option \<Rightarrow> jsnum dict" where
  "load_positions st =
     (let raw = Option.bind st (\<lambda>s. map_of s STORE_KEY);
          obj = (if truthy raw then JSON_parse (the raw) else None)
      in if \<not> json_truthy obj \<or> \<not> is_object obj then []
         else concat (map (\<lambda>(k, v). case v of JNum y \<Rightarrow> [(k, y)] | _ \<Rightarrow> []) (entries_of (the obj))))"

definition entryIndex :: "win \<Rightarrow> int" where
  "entryIndex w = (case wn_state w of Some n \<Rightarrow> int n | None \<Rightarrow> - 1)"

definition stamp :: "nat \<Rightarrow> win \<Rightarrow> win" where
  "stamp idx w = w\<lparr> wn_state := Some idx \<rparr>"

definition posKey :: "nat \<Rightarrow> string \<Rightarrow> string" where
  "posKey idx hash = show_nat idx @ ''|'' @ hash"

definition is_integer :: "jsnum \<Rightarrow> bool" where
  "is_integer x = (case x of Fin m e \<Rightarrow> 0 \<le> e \<or> m mod 2 ^ nat (- e) = 0 | _ \<Rightarrow> False)"

text \<open>\<open>slice(0, -1)\<close> where there is no separator.\<close>

definition keyIndex :: "string \<Rightarrow> int" where
  "keyIndex key =
     (let n = Number_of (if CHR ''|'' \<in> set key then takeWhile (\<lambda>c. c \<noteq> CHR ''|'') key else butlast key)
      in case n of Fin m e \<Rightarrow> if is_integer n then fin_trunc m e else - 1 | _ \<Rightarrow> - 1)"

definition currentKey :: "scroll \<Rightarrow> string" where
  "currentKey sc = posKey (sc_currentIdx sc) (sc_currentHash sc)"

section \<open>Positions\<close>

fun drop_oldest :: "jsnum dict \<Rightarrow> jsnum dict" where
  "drop_oldest [] = []"
| "drop_oldest (kv # m) = (if MAX_SCROLL_ENTRIES < length (kv # m) then drop_oldest m else kv # m)"

definition remember :: "win \<Rightarrow> scroll \<Rightarrow> scroll" where
  "remember w sc =
     (let key = currentKey sc; m = AList.delete key (sc_positions sc)
      in sc\<lparr> sc_positions := drop_oldest (m @ [(key, wn_scrollY w)]) \<rparr>)"

definition dropForwardOf :: "nat \<Rightarrow> scroll \<Rightarrow> scroll" where
  "dropForwardOf idx sc = sc\<lparr> sc_positions := filter (\<lambda>kv. \<not> int idx \<le> keyIndex (fst kv)) (sc_positions sc) \<rparr>"

section \<open>Restoring\<close>

definition restoreTo :: "jsnum \<Rightarrow> win \<Rightarrow> scroll \<Rightarrow> scroll \<times> win" where
  "restoreTo y w sc =
     (sc\<lparr> sc_cancel := (if num_le y (Fin 0 0) then None
         else Some \<lparr> rs_y = y, rs_deadline = wn_now w + SETTLE_MS, rs_heldSince = 0 \<rparr>) \<rparr>,
      w\<lparr> wn_scrollTo := wn_scrollTo w @ [y] \<rparr>)"

text \<open>\<open>Math.abs(a - b) > TOLERANCE\<close>.\<close>

definition off_target :: "jsnum \<Rightarrow> jsnum \<Rightarrow> bool" where
  "off_target a b =
     (case (a, b) of
        (Fin m e, Fin n f) \<Rightarrow> let l = min (min e f) 0 in 2 * 2 ^ nat (- l) < \<bar>m * 2 ^ nat (e - l) - n * 2 ^ nat (f - l)\<bar>
      | (NaN, _) \<Rightarrow> False
      | (_, NaN) \<Rightarrow> False
      | (Inf s, Inf t) \<Rightarrow> s \<noteq> t
      | _ \<Rightarrow> True)"

text \<open>One poll of a restore: \<open>w\<close> is the window after the offset was applied again.\<close>

definition attempt :: "win \<Rightarrow> scroll \<Rightarrow> scroll" where
  "attempt w sc =
     (case sc_cancel sc of
        None \<Rightarrow> sc
      | Some r \<Rightarrow>
          let now = wn_now w;
              held = (if off_target (wn_scrollY w) (rs_y r) then 0 else if rs_heldSince r = 0 then now else rs_heldSince r)
          in sc\<lparr> sc_cancel := (if held \<noteq> 0 \<and> HOLD_MS \<le> now - held \<or> rs_deadline r < now then None else Some (r\<lparr> rs_heldSince := held \<rparr>)) \<rparr>)"

text \<open>The user scrolls, touches or types.\<close>

definition user_intent :: "scroll \<Rightarrow> scroll" where
  "user_intent sc = sc\<lparr> sc_cancel := None \<rparr>"

section \<open>Handlers\<close>

definition onScroll :: "win \<Rightarrow> scroll \<Rightarrow> scroll" where
  "onScroll = remember"

text \<open>\<open>navigated\<close>: the event carries an \<open>oldURL\<close>.\<close>

definition onHashChange :: "bool \<Rightarrow> win \<Rightarrow> scroll \<Rightarrow> scroll \<times> win" where
  "onHashChange navigated w sc0 =
     (let prevKey = currentKey sc0;
          changed = (wn_hash w \<noteq> sc_currentHash sc0);
          sc = sc0\<lparr> sc_currentHash := wn_hash w \<rparr>
      in if \<not> navigated then
           (case map_of (sc_positions sc) prevKey of
              Some held \<Rightarrow>
                if changed
                then sc\<lparr> sc_positions := AList.update (currentKey sc) held (AList.delete prevKey (sc_positions sc)) \<rparr> else sc
            | None \<Rightarrow> sc,
            stamp (sc_currentIdx sc) w)
         else if \<not> changed then (sc, w)
         else let idx = entryIndex w in
           if idx < 0 then
             let n = Suc (sc_highWater sc);
                 sc1 = dropForwardOf n (sc\<lparr> sc_currentIdx := n, sc_highWater := n \<rparr>)
             in restoreTo (Fin 0 0) (stamp n w) sc1
           else
             let sc1 = sc\<lparr> sc_currentIdx := nat idx, sc_highWater := max (sc_highWater sc) (nat idx) \<rparr>
             in restoreTo (nullish (map_of (sc_positions sc1) (currentKey sc1)) (Fin 0 0)) w sc1)"

definition onPageHide :: "(jsnum \<Rightarrow> string) \<Rightarrow> (storage \<Rightarrow> bool) \<Rightarrow> win \<Rightarrow> scroll \<Rightarrow> scroll \<times> win" where
  "onPageHide dtoa fits w sc0 =
     (let sc = remember w sc0;
          text = stringify dtoa (JObj (from_entries (map (map_prod id JNum) (sc_positions sc))))
      in (sc, w\<lparr> wn_sessionStorage := map_option (\<lambda>s. nullish (set_item fits STORE_KEY text s) s) (wn_sessionStorage w) \<rparr>))"

definition initScrollRestore :: "win \<Rightarrow> scroll \<times> win" where
  "initScrollRestore w =
     (let idx = nat (max (entryIndex w) 0);
          sc = \<lparr> sc_positions = load_positions (wn_sessionStorage w), sc_currentHash = wn_hash w, sc_currentIdx = idx, sc_highWater = idx,
                 sc_cancel = None \<rparr>
      in restoreTo (nullish (map_of (sc_positions sc) (currentKey sc)) (Fin 0 0)) (stamp idx w) sc)"

section \<open>Keys and entries\<close>

text \<open>The positions with their keys read as an index and a hash.\<close>

type_synonym keyed = "((nat \<times> string) \<times> jsnum) list"

definition keyed_text :: "keyed \<Rightarrow> jsnum dict" where
  "keyed_text qs = map (\<lambda>(k, y). (posKey (fst k) (snd k), y)) qs"

lemma digits_bar: "CHR ''|'' \<notin> set (show_nat n)"
  using show_nat_digits[of n] by (auto simp: is_digit_def)

lemma posKey_inj [simp]: "posKey m h = posKey n g \<longleftrightarrow> m = n \<and> h = g"
  using split_first[OF digits_bar[of m] digits_bar[of n], of h g] show_nat_inj by (auto simp: posKey_def)

lemma keyIndex_posKey:
  assumes "n < 2 ^ 53"
  shows "keyIndex (posKey n h) = int n"
proof -
  obtain e where e: "e \<le> 0" "round_ratio n 1 = Fin (int n * 2 ^ nat (- e)) e" using round_ratio_exact[OF assms] by blast
  have "takeWhile (\<lambda>c. c \<noteq> CHR ''|'') (posKey n h) = show_nat n" "CHR ''|'' \<in> set (posKey n h)"
    using digits_bar[of n] by (auto simp: posKey_def takeWhile_append)
  then show ?thesis using e fin_trunc_exact[OF e(1), of n] by (simp add: keyIndex_def Number_of_show_nat is_integer_def Let_def)
qed

lemma keyed_get [simp]: "map_of (keyed_text qs) (posKey m h) = map_of qs (m, h)"
  by (induction qs) (auto simp: keyed_text_def)

lemma keyed_delete [simp]: "AList.delete (posKey m h) (keyed_text qs) = keyed_text (AList.delete (m, h) qs)"
  by (induction qs) (auto simp: keyed_text_def)

lemma keyed_update [simp]: "AList.update (posKey m h) y (keyed_text qs) = keyed_text (AList.update (m, h) y qs)"
  by (induction qs) (auto simp: keyed_text_def)

lemma keyed_append: "keyed_text qs @ [(posKey m h, y)] = keyed_text (qs @ [((m, h), y)])"
  by (simp add: keyed_text_def)

lemma drop_oldest_drop: "drop_oldest m = drop (length m - MAX_SCROLL_ENTRIES) m"
  by (induction m) (auto simp: Suc_diff_le)

lemma keyed_oldest: "drop_oldest (keyed_text qs) = keyed_text (drop (length qs - MAX_SCROLL_ENTRIES) qs)"
  by (simp add: drop_oldest_drop keyed_text_def drop_map)

lemma keyed_forward:
  "\<forall>q \<in> set qs. fst (fst q) < 2 ^ 53 \<Longrightarrow>
    filter (\<lambda>kv. \<not> int idx \<le> keyIndex (fst kv)) (keyed_text qs) = keyed_text (filter (\<lambda>q. fst (fst q) < idx) qs)"
  by (induction qs) (auto simp: keyed_text_def keyIndex_posKey)

section \<open>A visitor's history\<close>

text \<open>A history entry, with the offset last reported while it was the current one.\<close>

record entry =
  en_hash :: string
  en_mark :: "nat option"
  en_last :: "jsnum option"

record world =
  wd_entries :: "entry list"
  wd_cur :: nat
  wd_scroll :: scroll
  wd_store :: "storage option"
  wd_now :: int
  wd_asked :: "jsnum list"

definition here :: "world \<Rightarrow> entry" where
  "here w = wd_entries w ! wd_cur w"

definition set_here :: "(entry \<Rightarrow> entry) \<Rightarrow> world \<Rightarrow> world" where
  "set_here f w = w\<lparr> wd_entries := (wd_entries w)[wd_cur w := f (here w)] \<rparr>"

definition window :: "world \<Rightarrow> jsnum \<Rightarrow> win" where
  "window w y =
     \<lparr> wn_hash = en_hash (here w), wn_state = en_mark (here w), wn_scrollY = y, wn_sessionStorage = wd_store w, wn_now = wd_now w,
       wn_scrollTo = [] \<rparr>"

definition handled :: "world \<Rightarrow> scroll \<times> win \<Rightarrow> world" where
  "handled w r =
     (set_here (\<lambda>e. e\<lparr> en_mark := wn_state (snd r) \<rparr>) w)
       \<lparr> wd_scroll := fst r, wd_store := wn_sessionStorage (snd r), wd_asked := wn_scrollTo (snd r) \<rparr>"

text \<open>What a visitor does: scrolls, follows a link, goes back or forward, is sent to the canonical
  form of the address (\<open>replaceHash\<close>), or reloads the page.\<close>

datatype visit = Scrolled jsnum | Followed string | Traversed nat | Canonicalised string | Reloaded jsnum

fun visit_step :: "(jsnum \<Rightarrow> string) \<Rightarrow> (storage \<Rightarrow> bool) \<Rightarrow> world \<Rightarrow> visit \<Rightarrow> world" where
  "visit_step dtoa fits w (Scrolled y) =
     (set_here (\<lambda>e. e\<lparr> en_last := Some y \<rparr>) w)\<lparr> wd_scroll := onScroll (window w y) (wd_scroll w), wd_asked := [] \<rparr>"
| "visit_step dtoa fits w (Followed h) =
     (let w1 = w\<lparr> wd_entries := take (Suc (wd_cur w)) (wd_entries w) @ [\<lparr> en_hash = h, en_mark = None, en_last = None \<rparr>],
                  wd_cur := Suc (wd_cur w) \<rparr>
      in handled w1 (onHashChange True (window w1 (Fin 0 0)) (wd_scroll w)))"
| "visit_step dtoa fits w (Traversed j) =
     (let w1 = w\<lparr> wd_cur := j \<rparr> in handled w1 (onHashChange True (window w1 (Fin 0 0)) (wd_scroll w)))"
| "visit_step dtoa fits w (Canonicalised h) =
     (let w1 = set_here (\<lambda>e. e\<lparr> en_hash := h, en_mark := None \<rparr>) w
      in handled w1 (onHashChange False (window w1 (Fin 0 0)) (wd_scroll w)))"
| "visit_step dtoa fits w (Reloaded y) =
     (let w1 = (set_here (\<lambda>e. e\<lparr> en_last := Some y \<rparr>) w)
            \<lparr> wd_store := wn_sessionStorage (snd (onPageHide dtoa fits (window w y) (wd_scroll w))) \<rparr>
      in handled w1 (initScrollRestore (window w1 (Fin 0 0))))"

text \<open>The events the visits are made of.  The browser announces a hash change only between different
  hashes, so a traversal between two entries with one hash is not among them; nor is a redirect
  announced before the navigation it answers, since each step hands its one event to the handler.
  Both are taken up at the end.\<close>

fun visit_ok :: "(jsnum \<Rightarrow> string) \<Rightarrow> world \<Rightarrow> visit \<Rightarrow> bool" where
  "visit_ok dtoa w (Scrolled y) = num_ok dtoa y"
| "visit_ok dtoa w (Reloaded y) = num_ok dtoa y"
| "visit_ok dtoa w (Followed h) = (h \<noteq> en_hash (here w))"
| "visit_ok dtoa w (Canonicalised h) = (h \<noteq> en_hash (here w))"
| "visit_ok dtoa w (Traversed j) = (j < length (wd_entries w) \<and> en_hash (wd_entries w ! j) \<noteq> en_hash (here w))"

definition opened :: "string \<Rightarrow> int \<Rightarrow> world" where
  "opened h now =
     (let w = \<lparr> wd_entries = [\<lparr> en_hash = h, en_mark = None, en_last = None \<rparr>], wd_cur = 0,
                wd_scroll = \<lparr> sc_positions = [], sc_currentHash = h, sc_currentIdx = 0, sc_highWater = 0, sc_cancel = None \<rparr>,
                wd_store = Some [], wd_now = now, wd_asked = [] \<rparr>
      in handled w (initScrollRestore (window w (Fin 0 0))))"

text \<open>The states a visit reaches after following \<open>n\<close> links.\<close>

inductive visited :: "(jsnum \<Rightarrow> string) \<Rightarrow> (storage \<Rightarrow> bool) \<Rightarrow> nat \<Rightarrow> world \<Rightarrow> bool" for dtoa fits where
  visit_open: "visited dtoa fits 0 (opened h now)"
| visit_more: "visited dtoa fits n w \<Longrightarrow> visit_ok dtoa w v \<Longrightarrow>
    visited dtoa fits (case v of Followed _ \<Rightarrow> Suc n | _ \<Rightarrow> n) (visit_step dtoa fits w v)"

section \<open>Positions belong to entries\<close>

definition mark_of :: "entry \<Rightarrow> nat" where
  "mark_of e = the (en_mark e)"

definition marked :: "nat \<Rightarrow> entry list \<Rightarrow> bool" where
  "marked n E \<longleftrightarrow> (\<forall>i < length E. en_mark (E ! i) \<noteq> None \<and> mark_of (E ! i) \<le> n) \<and> sorted_wrt (<) (map mark_of E)"

text \<open>A remembered position is the last one reported on the entry of its index, if that entry is
  still there, and no index has two.\<close>

definition sound :: "(jsnum \<Rightarrow> string) \<Rightarrow> nat \<Rightarrow> entry list \<Rightarrow> keyed \<Rightarrow> bool" where
  "sound dtoa n E qs \<longleftrightarrow> distinct (map (fst \<circ> fst) qs) \<and>
     (\<forall>q \<in> set qs. fst (fst q) \<le> n \<and> num_ok dtoa (snd q) \<and>
        (\<forall>i < length E. mark_of (E ! i) = fst (fst q) \<longrightarrow> en_hash (E ! i) = snd (fst q) \<and> en_last (E ! i) = Some (snd q)))"

definition complete :: "entry list \<Rightarrow> keyed \<Rightarrow> bool" where
  "complete E qs \<longleftrightarrow> (\<forall>i < length E. \<forall>y. en_last (E ! i) = Some y \<longrightarrow> ((mark_of (E ! i), en_hash (E ! i)), y) \<in> set qs)"

lemma marked_inj: "marked n E \<Longrightarrow> i < length E \<Longrightarrow> j < length E \<Longrightarrow> mark_of (E ! i) = mark_of (E ! j) \<longleftrightarrow> i = j"
proof -
  assume m: "marked n E" and l: "i < length E" "j < length E"
  have "distinct (map mark_of E)" using m by (simp add: marked_def strict_sorted_iff)
  from nth_eq_iff_index_eq[OF this, of i j] l show ?thesis by simp
qed

lemma sound_length: "sound dtoa n E qs \<Longrightarrow> length qs \<le> Suc n"
proof -
  assume s: "sound dtoa n E qs"
  then have "set (map (fst \<circ> fst) qs) \<subseteq> {..n}" by (auto simp: sound_def)
  then have "card (set (map (fst \<circ> fst) qs)) \<le> Suc n" using card_mono[of "{..n}"] by fastforce
  then show ?thesis using s distinct_card[of "map (fst \<circ> fst) qs"] by (simp add: sound_def)
qed

lemma sound_subseq: "sound dtoa n E qs \<Longrightarrow> sound dtoa n E (drop k qs)" "sound dtoa n E qs \<Longrightarrow> sound dtoa n E (filter P qs)"
proof -
  assume s: "sound dtoa n E qs"
  have "distinct (map (fst \<circ> fst) (drop k qs))" using s by (simp add: sound_def drop_map[symmetric])
  moreover have "set (drop k qs) \<subseteq> set qs" by (rule set_drop_subset)
  ultimately show "sound dtoa n E (drop k qs)" using s by (auto simp: sound_def)
  show "sound dtoa n E (filter P qs)" using s by (simp add: sound_def distinct_map_filter)
qed

lemma sound_get: "sound dtoa n E qs \<Longrightarrow> map_of qs k = Some y \<longleftrightarrow> (k, y) \<in> set qs"
proof -
  assume "sound dtoa n E qs"
  then have "distinct (map fst (map fst qs))" by (simp add: sound_def comp_def)
  then have "distinct (map fst qs)" by (auto simp: distinct_map intro: inj_on_imageI2)
  then show ?thesis by simp
qed

text \<open>What is left without the current entry's position.\<close>

lemma sound_delete:
  assumes "sound dtoa n E qs" "i < length E"
  shows "sound dtoa n E (AList.delete (mark_of (E ! i), en_hash (E ! i)) qs)"
    "mark_of (E ! i) \<notin> (fst \<circ> fst) ` set (AList.delete (mark_of (E ! i), en_hash (E ! i)) qs)"
proof -
  have d: "AList.delete k qs = filter (\<lambda>q. fst q \<noteq> k) qs" for k by (auto simp: AList.delete_eq split_def intro: filter_cong)
  show "sound dtoa n E (AList.delete (mark_of (E ! i), en_hash (E ! i)) qs)" unfolding d by (rule sound_subseq(2)[OF assms(1)])
  show "mark_of (E ! i) \<notin> (fst \<circ> fst) ` set (AList.delete (mark_of (E ! i), en_hash (E ! i)) qs)"
    using assms unfolding d sound_def by fastforce
qed

lemma sound_add:
  assumes "sound dtoa n E qs" "m \<notin> (fst \<circ> fst) ` set qs" "m \<le> n" "num_ok dtoa y"
    "\<forall>i < length E. mark_of (E ! i) = m \<longrightarrow> en_hash (E ! i) = h \<and> en_last (E ! i) = Some y"
  shows "sound dtoa n E (qs @ [((m, h), y)])"
  using assms by (auto simp: sound_def comp_def)

text \<open>Another entry in place of the current one, whose position is not among those kept.\<close>

lemma sound_update:
  assumes "sound dtoa n E qs" "i < length E" "mark_of (E ! i) \<notin> (fst \<circ> fst) ` set qs" "mark_of e = mark_of (E ! i)"
  shows "sound dtoa n (E[i := e]) qs"
proof -
  have "en_hash (E[i := e] ! j) = h \<and> en_last (E[i := e] ! j) = Some y"
    if q: "((m, h), y) \<in> set qs" and j: "j < length E" and m: "mark_of (E[i := e] ! j) = m" for m h y j
  proof (cases "j = i")
    case True
    then have "m = mark_of (E ! i)" using m assms(2,4) by simp
    then show ?thesis using q assms(3) by force
  next
    case False
    then show ?thesis using q j m assms(1) by (auto simp: sound_def)
  qed
  then show ?thesis using assms(1) by (auto simp: sound_def)
qed

definition kept :: "(jsnum \<Rightarrow> string) \<Rightarrow> nat \<Rightarrow> entry list \<Rightarrow> keyed \<Rightarrow> bool" where
  "kept dtoa n E qs \<longleftrightarrow> sound dtoa n E qs \<and> (n < MAX_SCROLL_ENTRIES \<longrightarrow> complete E qs)"

lemma kept_report:
  assumes m: "marked n E" and k: "kept dtoa n E qs" and i: "i < length E" and y: "num_ok dtoa y"
    and qs': "qs' = AList.delete (mark_of (E ! i), en_hash (E ! i)) qs @ [((mark_of (E ! i), en_hash (E ! i)), y)]"
  shows "kept dtoa n (E[i := (E ! i)\<lparr> en_last := Some y \<rparr>]) (drop (length qs' - MAX_SCROLL_ENTRIES) qs')"
proof -
  let ?e = "(E ! i)\<lparr> en_last := Some y \<rparr>"
  have e: "mark_of ?e = mark_of (E ! i)" by (simp add: mark_of_def)
  have s0: "sound dtoa n E qs" using k by (simp add: kept_def)
  note d = sound_delete[OF s0 i]
  have same: "mark_of (E[i := ?e] ! j) = mark_of (E ! i) \<longleftrightarrow> j = i" if "j < length E" for j
    using that i e marked_inj[OF m, of j i] by (cases "j = i") simp_all
  have s: "sound dtoa n (E[i := ?e]) qs'" unfolding qs'
  proof (rule sound_add[OF sound_update[OF d(1) i d(2) e] d(2)])
    show "mark_of (E ! i) \<le> n" using m i by (simp add: marked_def)
    show "\<forall>j < length (E[i := ?e]). mark_of (E[i := ?e] ! j) = mark_of (E ! i) \<longrightarrow>
        en_hash (E[i := ?e] ! j) = en_hash (E ! i) \<and> en_last (E[i := ?e] ! j) = Some y" using same i by simp
  qed (rule y)
  have "complete (E[i := ?e]) qs'" if c: "complete E qs"
    unfolding complete_def
  proof (intro allI impI)
    fix j z assume j: "j < length (E[i := ?e])" and z: "en_last (E[i := ?e] ! j) = Some z"
    show "((mark_of (E[i := ?e] ! j), en_hash (E[i := ?e] ! j)), z) \<in> set qs'"
    proof (cases "j = i")
      case False
      then have "((mark_of (E ! j), en_hash (E ! j)), z) \<in> set qs" "mark_of (E ! j) \<noteq> mark_of (E ! i)"
        using c j z same[of j] by (simp_all add: complete_def)
      then show ?thesis using False unfolding qs' by (simp add: AList.delete_eq)
    qed (use i z e in \<open>simp add: qs'\<close>)
  qed
  moreover have "length qs' - MAX_SCROLL_ENTRIES = 0" if "n < MAX_SCROLL_ENTRIES" using sound_length[OF s] that by simp
  ultimately show ?thesis using k sound_subseq(1)[OF s] by (simp add: kept_def)
qed

lemma kept_follow:
  assumes m: "marked n E" and k: "kept dtoa n E qs" and i: "i < length E" and c: "mark_of (E ! i) \<le> c" "c \<le> n"
    and E': "E' = take (Suc i) E @ [\<lparr> en_hash = h, en_mark = Some (Suc c), en_last = None \<rparr>]"
  shows "marked (Suc n) E' \<and> kept dtoa (Suc n) E' (filter (\<lambda>q. fst (fst q) < Suc c) qs)"
proof -
  have len: "length E' = Suc (Suc i)" using i E' by simp
  have nth: "E' ! j = E ! j" if "j \<le> i" for j using that i E' by (simp add: nth_append)
  have new: "E' ! Suc i = \<lparr> en_hash = h, en_mark = Some (Suc c), en_last = None \<rparr>" using i E' by (simp add: nth_append)
  have sm: "sorted_wrt (<) (map mark_of (take (Suc i) E))" using m unfolding marked_def take_map[symmetric] by (simp add: sorted_wrt_take)
  have le: "mark_of (E ! j) \<le> c" if "j \<le> i" for j
  proof (cases "j = i")
    case False
    then have "mark_of (E ! j) < mark_of (E ! i)" using m that i sorted_wrt_nth_less[of "(<)" "map mark_of E" j i] by (simp add: marked_def)
    then show ?thesis using c by simp
  qed (use c in simp)
  have "sorted_wrt (<) (map mark_of E')" unfolding E' using sm le i by (auto simp: sorted_wrt_append mark_of_def in_set_conv_nth less_Suc_eq_le)
  moreover have "en_mark (E' ! j) \<noteq> None \<and> mark_of (E' ! j) \<le> Suc n" if "j < length E'" for j
    using that m c new nth[of j] len i by (cases "j = Suc i") (auto simp: marked_def mark_of_def le_SucI less_Suc_eq_le)
  ultimately have M: "marked (Suc n) E'" by (simp add: marked_def)
  have "sound dtoa (Suc n) E' (filter (\<lambda>q. fst (fst q) < Suc c) qs)"
    unfolding sound_def
  proof (intro conjI ballI allI impI)
    show "distinct (map (fst \<circ> fst) (filter (\<lambda>q. fst (fst q) < Suc c) qs))" using k by (simp add: kept_def sound_def distinct_map_filter)
  next
    fix q assume q: "q \<in> set (filter (\<lambda>q. fst (fst q) < Suc c) qs)"
    then show "fst (fst q) \<le> Suc n" "num_ok dtoa (snd q)" using k c by (auto simp: kept_def sound_def)
    fix j assume j: "j < length E'" "mark_of (E' ! j) = fst (fst q)"
    then have "j \<noteq> Suc i" using q new by (auto simp: mark_of_def)
    then show "en_hash (E' ! j) = snd (fst q)" "en_last (E' ! j) = Some (snd q)" using j q k nth[of j] len i by (auto simp: kept_def sound_def)
  qed
  moreover have "complete E' (filter (\<lambda>q. fst (fst q) < Suc c) qs)" if "complete E qs"
    unfolding complete_def
  proof (intro allI impI)
    fix j y assume j: "j < length E'" "en_last (E' ! j) = Some y"
    then have "j \<le> i" using new len by (cases "j = Suc i") auto
    then show "((mark_of (E' ! j), en_hash (E' ! j)), y) \<in> set (filter (\<lambda>q. fst (fst q) < Suc c) qs)"
      using that j nth[of j] le[of j] i by (simp add: complete_def)
  qed
  ultimately show ?thesis using M k by (simp add: kept_def)
qed

lemma update_fresh: "k \<notin> fst ` set m \<Longrightarrow> AList.update k y m = m @ [(k, y)]"
  by (induction m) auto

lemma kept_rename:
  assumes m: "marked n E" and k: "kept dtoa n E qs" and i: "i < length E"
    and qs': "qs' = (case map_of qs (mark_of (E ! i), en_hash (E ! i)) of
      Some y \<Rightarrow> AList.update (mark_of (E ! i), h) y (AList.delete (mark_of (E ! i), en_hash (E ! i)) qs) | None \<Rightarrow> qs)"
  shows "kept dtoa n (E[i := (E ! i)\<lparr> en_hash := h \<rparr>]) qs'"
proof -
  let ?e = "(E ! i)\<lparr> en_hash := h \<rparr>"
  have e: "mark_of ?e = mark_of (E ! i)" by (simp add: mark_of_def)
  have s0: "sound dtoa n E qs" using k by (simp add: kept_def)
  note d = sound_delete[OF s0 i]
  have same: "mark_of (E ! j) = mark_of (E ! i) \<longleftrightarrow> j = i" if "j < length E" for j
    using that i marked_inj[OF m, of j i] by simp
  show ?thesis
  proof (cases "map_of qs (mark_of (E ! i), en_hash (E ! i))")
    case None
    have fresh: "mark_of (E ! i) \<notin> (fst \<circ> fst) ` set qs"
    proof
      assume "mark_of (E ! i) \<in> (fst \<circ> fst) ` set qs"
      then obtain q where q: "q \<in> set qs" "fst (fst q) = mark_of (E ! i)" by auto
      then have "snd (fst q) = en_hash (E ! i)" using s0 i by (auto simp: sound_def)
      then have "q = ((mark_of (E ! i), en_hash (E ! i)), snd q)" using q(2) by (simp add: prod_eq_iff)
      then show False using None sound_get[OF s0] q(1) by (metis option.distinct(1))
    qed
    have "complete (E[i := ?e]) qs" if c: "complete E qs"
      unfolding complete_def
    proof (intro allI impI)
      fix j y assume j: "j < length (E[i := ?e])" "en_last (E[i := ?e] ! j) = Some y"
      then have "((mark_of (E ! j), en_hash (E ! j)), y) \<in> set qs" using c i by (cases "j = i") (auto simp: complete_def)
      moreover from this have "j \<noteq> i" using fresh by force
      ultimately show "((mark_of (E[i := ?e] ! j), en_hash (E[i := ?e] ! j)), y) \<in> set qs" using i j by simp
    qed
    then show ?thesis using None sound_update[OF s0 i fresh e] k by (simp add: kept_def qs')
  next
    case (Some y)
    then have y: "((mark_of (E ! i), en_hash (E ! i)), y) \<in> set qs" using sound_get[OF s0] by simp
    note b = bspec[OF conjunct2[OF s0[unfolded sound_def]] y, unfolded fst_conv snd_conv]
    have last: "en_last (E ! i) = Some y" "num_ok dtoa y" "mark_of (E ! i) \<le> n" using b i by blast+
    have q: "qs' = AList.delete (mark_of (E ! i), en_hash (E ! i)) qs @ [((mark_of (E ! i), h), y)]"
      unfolding qs' Some option.case
    proof (rule update_fresh)
      show "(mark_of (E ! i), h) \<notin> fst ` set (AList.delete (mark_of (E ! i), en_hash (E ! i)) qs)"
        using d(2)[unfolded image_comp[symmetric]] imageI[of "(mark_of (E ! i), h)" _ fst, unfolded fst_conv] by blast
    qed
    have "sound dtoa n (E[i := ?e]) qs'" unfolding q
    proof (rule sound_add[OF sound_update[OF d(1) i d(2) e] d(2) last(3,2)])
      show "\<forall>j < length (E[i := ?e]). mark_of (E[i := ?e] ! j) = mark_of (E ! i) \<longrightarrow> en_hash (E[i := ?e] ! j) = h \<and> en_last (E[i := ?e] ! j) = Some y"
        using same i last(1) by (auto simp: nth_list_update)
    qed
    moreover have "complete (E[i := ?e]) qs'" if c: "complete E qs"
      unfolding complete_def
    proof (intro allI impI)
      fix j z assume j: "j < length (E[i := ?e])" "en_last (E[i := ?e] ! j) = Some z"
      then have "((mark_of (E ! j), en_hash (E ! j)), z) \<in> set qs" using c i by (cases "j = i") (auto simp: complete_def)
      then show "((mark_of (E[i := ?e] ! j), en_hash (E[i := ?e] ! j)), z) \<in> set qs'"
        using i j same[of j] last(1) e unfolding q by (cases "j = i") (auto simp: AList.delete_eq)
    qed
    ultimately show ?thesis using k by (simp add: kept_def)
  qed
qed

section \<open>A reload\<close>

lemma keyed_distinct: "sound dtoa n E qs \<Longrightarrow> distinct (map fst (keyed_text qs))"
proof -
  assume s: "sound dtoa n E qs"
  then have d: "distinct (map fst qs)" by (auto simp: sound_def distinct_map intro: inj_on_imageI2)
  have "map fst (keyed_text qs) = map (\<lambda>k. posKey (fst k) (snd k)) (map fst qs)" by (simp add: keyed_text_def split_def)
  moreover have "inj_on (\<lambda>k. posKey (fst k) (snd k)) (set (map fst qs))" by (auto simp: inj_on_def prod_eq_iff)
  ultimately show ?thesis using d by (simp only: distinct_map)
qed

lemma load_saved:
  assumes "sound dtoa n E qs"
  shows "load_positions (Some (AList.update STORE_KEY (stringify dtoa (JObj (from_entries (map (map_prod id JNum) (keyed_text qs))))) s)) = keyed_text qs"
proof -
  let ?j = "map (map_prod id JNum) (keyed_text qs)"
  have d: "distinct (map fst ?j)" using keyed_distinct[OF assms] by (simp add: comp_def)
  have "\<not> is_index (fst kv)" if "kv \<in> set ?j" for kv
    using that by (intro not_index) (auto simp: keyed_text_def posKey_def is_digit_def)
  then have o: "own_order ?j = ?j" by (intro own_order_plain) blast
  then have f: "from_entries ?j = ?j" using from_entries_distinct[OF d] by simp
  have "list_all (\<lambda>(_, v). json_ok dtoa v) ?j" using assms by (auto simp: list_all_iff keyed_text_def sound_def)
  then have ok: "json_ok dtoa (JObj ?j)" using d o by simp
  have "concat (map (\<lambda>(k, v). case v of JNum y \<Rightarrow> [(k, y)] | _ \<Rightarrow> []) (map (map_prod id JNum) ps)) = ps" for ps :: "jsnum dict"
    by (induction ps) auto
  moreover have "stringify dtoa (JObj ?j) \<noteq> []" by simp
  ultimately show ?thesis unfolding load_positions_def f using JSON_parse_stringify[OF ok] by (simp add: Let_def update_conv' truthy_def)
qed

section \<open>Every visit\<close>

definition scroll_inv :: "(jsnum \<Rightarrow> string) \<Rightarrow> nat \<Rightarrow> world \<Rightarrow> bool" where
  "scroll_inv dtoa n w \<longleftrightarrow>
     marked n (wd_entries w) \<and> wd_cur w < length (wd_entries w) \<and> wd_store w \<noteq> None \<and>
     mark_of (here w) = sc_currentIdx (wd_scroll w) \<and> en_hash (here w) = sc_currentHash (wd_scroll w) \<and>
     sc_currentIdx (wd_scroll w) \<le> sc_highWater (wd_scroll w) \<and> sc_highWater (wd_scroll w) \<le> n \<and>
     (\<exists>qs. sc_positions (wd_scroll w) = keyed_text qs \<and> kept dtoa n (wd_entries w) qs)"

lemma marked_same: "marked n E \<Longrightarrow> i < length E \<Longrightarrow> en_mark e = en_mark (E ! i) \<Longrightarrow> marked n (E[i := e])"
proof -
  assume a: "marked n E" "i < length E" "en_mark e = en_mark (E ! i)"
  then have "map mark_of (E[i := e]) = map mark_of E" by (simp add: map_update mark_of_def list_update_same_conv)
  moreover have "\<forall>j < length (E[i := e]). en_mark (E[i := e] ! j) = en_mark (E ! j)" using a by (simp add: nth_list_update)
  ultimately show ?thesis using a(1) by (simp add: marked_def mark_of_def)
qed

lemma inv_mark: "scroll_inv dtoa n w \<Longrightarrow> en_mark (here w) = Some (sc_currentIdx (wd_scroll w))"
proof -
  assume i: "scroll_inv dtoa n w"
  then have "en_mark (here w) \<noteq> None" by (simp add: scroll_inv_def marked_def here_def)
  then show ?thesis using i by (auto simp: scroll_inv_def mark_of_def)
qed

lemma inv_remember:
  assumes i: "scroll_inv dtoa n w" and y: "num_ok dtoa y"
  shows "scroll_inv dtoa n ((set_here (\<lambda>e. e\<lparr> en_last := Some y \<rparr>) w)\<lparr> wd_scroll := remember (window w y) (wd_scroll w), wd_asked := a \<rparr>)"
proof -
  let ?E = "wd_entries w" and ?i = "wd_cur w" and ?sc = "wd_scroll w"
  obtain qs where q: "sc_positions ?sc = keyed_text qs" "kept dtoa n ?E qs" using i by (auto simp: scroll_inv_def)
  have m: "marked n ?E" "?i < length ?E" using i by (simp_all add: scroll_inv_def)
  have k: "sc_currentIdx ?sc = mark_of (?E ! ?i)" "sc_currentHash ?sc = en_hash (?E ! ?i)" using i by (simp_all add: scroll_inv_def here_def)
  note r = kept_report[OF m(1) q(2) m(2) y refl]
  have "sc_positions (remember (window w y) ?sc) =
      keyed_text (let qs' = AList.delete (mark_of (?E ! ?i), en_hash (?E ! ?i)) qs @ [((mark_of (?E ! ?i), en_hash (?E ! ?i)), y)]
        in drop (length qs' - MAX_SCROLL_ENTRIES) qs')"
    by (simp add: remember_def currentKey_def k q(1) window_def keyed_append keyed_oldest Let_def)
  moreover have "marked n (?E[?i := (?E ! ?i)\<lparr> en_last := Some y \<rparr>])" by (rule marked_same[OF m]) simp
  ultimately show ?thesis using i r m(2)
    by (auto simp: scroll_inv_def set_here_def here_def remember_def mark_of_def Let_def)
qed

lemma inv_followed:
  assumes i: "scroll_inv dtoa n w" and ok: "h \<noteq> en_hash (here w)" and n: "n < 2 ^ 53"
  shows "scroll_inv dtoa (Suc n) (visit_step dtoa fits w (Followed h)) \<and> wd_asked (visit_step dtoa fits w (Followed h)) = [Fin 0 0]"
proof -
  let ?E = "wd_entries w" and ?i = "wd_cur w" and ?sc = "wd_scroll w"
  obtain qs where q: "sc_positions ?sc = keyed_text qs" "kept dtoa n ?E qs" using i by (auto simp: scroll_inv_def)
  have m: "marked n ?E" "?i < length ?E" using i by (simp_all add: scroll_inv_def)
  have hw: "mark_of (?E ! ?i) \<le> sc_highWater ?sc" "sc_highWater ?sc \<le> n" using i by (simp_all add: scroll_inv_def here_def)
  note f = kept_follow[OF m(1) q(2) m(2) hw refl, of h]
  have idx: "\<forall>q \<in> set qs. fst (fst q) < 2 ^ 53" using q(2) n by (auto simp: kept_def sound_def)
  have c: "h \<noteq> sc_currentHash ?sc" using i ok by (simp add: scroll_inv_def)
  let ?n = "Suc (sc_highWater ?sc)"
  let ?E' = "take (Suc ?i) ?E @ [\<lparr> en_hash = h, en_mark = Some ?n, en_last = None \<rparr>]"
  have "visit_step dtoa fits w (Followed h) =
      w\<lparr> wd_entries := ?E', wd_cur := Suc ?i,
         wd_scroll := ?sc\<lparr> sc_positions := keyed_text (filter (\<lambda>q. fst (fst q) < ?n) qs), sc_currentHash := h, sc_currentIdx := ?n,
           sc_highWater := ?n, sc_cancel := None \<rparr>,
         wd_asked := [Fin 0 0] \<rparr>"
    using c m(2) q(1) keyed_forward[OF idx, of ?n]
    by (simp add: Let_def handled_def set_here_def here_def window_def onHashChange_def entryIndex_def dropForwardOf_def restoreTo_def stamp_def
        nth_append num_le_def num_less_def num_eq_def list_update_append)
  then show ?thesis using f m(2) i by (auto simp: scroll_inv_def here_def nth_append mark_of_def)
qed

text \<open>The offset remembered for an entry.\<close>

definition remembered :: "world \<Rightarrow> nat \<Rightarrow> jsnum option" where
  "remembered w j = map_of (sc_positions (wd_scroll w)) (posKey (mark_of (wd_entries w ! j)) (en_hash (wd_entries w ! j)))"

lemma inv_traversed:
  assumes i: "scroll_inv dtoa n w" and ok: "j < length (wd_entries w)" "en_hash (wd_entries w ! j) \<noteq> en_hash (here w)"
  shows "scroll_inv dtoa n (visit_step dtoa fits w (Traversed j)) \<and>
    wd_asked (visit_step dtoa fits w (Traversed j)) = [nullish (remembered w j) (Fin 0 0)]"
proof -
  let ?E = "wd_entries w" and ?sc = "wd_scroll w"
  have m: "marked n ?E" using i by (simp add: scroll_inv_def)
  then have k: "en_mark (?E ! j) = Some (mark_of (?E ! j))" "mark_of (?E ! j) \<le> n" using ok(1) by (auto simp: marked_def mark_of_def)
  have c: "en_hash (?E ! j) \<noteq> sc_currentHash ?sc" using i ok(2) by (simp add: scroll_inv_def)
  let ?sc' = "?sc\<lparr> sc_currentHash := en_hash (?E ! j), sc_currentIdx := mark_of (?E ! j), sc_highWater := max (sc_highWater ?sc) (mark_of (?E ! j)) \<rparr>"
  have "onHashChange True (window (w\<lparr> wd_cur := j \<rparr>) (Fin 0 0)) ?sc =
      restoreTo (nullish (remembered w j) (Fin 0 0)) (window (w\<lparr> wd_cur := j \<rparr>) (Fin 0 0)) ?sc'"
    using c k(1) by (simp add: onHashChange_def window_def here_def entryIndex_def currentKey_def remembered_def Let_def)
  then have s: "visit_step dtoa fits w (Traversed j) =
      handled (w\<lparr> wd_cur := j \<rparr>) (restoreTo (nullish (remembered w j) (Fin 0 0)) (window (w\<lparr> wd_cur := j \<rparr>) (Fin 0 0)) ?sc')" by (simp add: Let_def)
  have e: "?E[j := (?E ! j)\<lparr> en_mark := Some (mark_of (?E ! j)) \<rparr>] = ?E" using k(1) by (simp add: list_update_same_conv ok(1))
  show ?thesis unfolding s using i ok(1) k e
    by (auto simp: scroll_inv_def handled_def set_here_def here_def restoreTo_def window_def)
qed

lemma inv_canonicalised:
  assumes i: "scroll_inv dtoa n w" and ok: "h \<noteq> en_hash (here w)"
  shows "scroll_inv dtoa n (visit_step dtoa fits w (Canonicalised h)) \<and> wd_asked (visit_step dtoa fits w (Canonicalised h)) = []"
proof -
  let ?E = "wd_entries w" and ?i = "wd_cur w" and ?sc = "wd_scroll w"
  obtain qs where q: "sc_positions ?sc = keyed_text qs" "kept dtoa n ?E qs" using i by (auto simp: scroll_inv_def)
  have m: "marked n ?E" "?i < length ?E" using i by (simp_all add: scroll_inv_def)
  have k: "sc_currentIdx ?sc = mark_of (?E ! ?i)" "sc_currentHash ?sc = en_hash (?E ! ?i)" using i by (simp_all add: scroll_inv_def here_def)
  have mk: "en_mark (?E ! ?i) = Some (mark_of (?E ! ?i))" using inv_mark[OF i] k(1) by (simp add: here_def)
  define qs' where "qs' = (case map_of qs (mark_of (?E ! ?i), en_hash (?E ! ?i)) of
      Some y \<Rightarrow> AList.update (mark_of (?E ! ?i), h) y (AList.delete (mark_of (?E ! ?i), en_hash (?E ! ?i)) qs) | None \<Rightarrow> qs)"
  note r = kept_rename[OF m(1) q(2) m(2) qs'_def]
  have e: "(?E ! ?i)\<lparr> en_hash := h, en_mark := Some (mark_of (?E ! ?i)) \<rparr> = (?E ! ?i)\<lparr> en_hash := h \<rparr>"
    using mk by (cases "?E ! ?i") (simp add: mark_of_def)
  have sp: "?sc\<lparr> sc_positions := keyed_text qs, sc_currentHash := h \<rparr> = ?sc\<lparr> sc_currentHash := h \<rparr>" unfolding q(1)[symmetric] by simp
  have "visit_step dtoa fits w (Canonicalised h) =
      w\<lparr> wd_entries := ?E[?i := (?E ! ?i)\<lparr> en_hash := h \<rparr>], wd_scroll := ?sc\<lparr> sc_positions := keyed_text qs', sc_currentHash := h \<rparr>, wd_asked := [] \<rparr>"
    using ok m(2) q(1) k mk
    by (auto simp: Let_def handled_def set_here_def here_def window_def onHashChange_def stamp_def currentKey_def qs'_def e sp split: option.split)
  moreover have "marked n (?E[?i := (?E ! ?i)\<lparr> en_hash := h \<rparr>])" by (rule marked_same[OF m]) simp
  ultimately show ?thesis using i r m(2) by (auto simp: scroll_inv_def here_def mark_of_def)
qed

lemma inv_init:
  assumes i: "scroll_inv dtoa n w1" and l: "load_positions (Some t) = sc_positions (wd_scroll w1)"
    and w: "wd_entries w = wd_entries w1" "wd_cur w = wd_cur w1" "wd_store w = Some t"
  shows "scroll_inv dtoa n (handled w (initScrollRestore (window w (Fin 0 0)))) \<and>
    wd_asked (handled w (initScrollRestore (window w (Fin 0 0)))) = [nullish (remembered w1 (wd_cur w1)) (Fin 0 0)]"
proof -
  let ?c = "sc_currentIdx (wd_scroll w1)" and ?E = "wd_entries w1" and ?i = "wd_cur w1"
  have h: "here w = ?E ! ?i" using w by (simp add: here_def)
  have mk: "en_mark (?E ! ?i) = Some ?c" using inv_mark[OF i] by (simp add: here_def)
  have hs: "en_hash (?E ! ?i) = sc_currentHash (wd_scroll w1)" "mark_of (?E ! ?i) = ?c" "?i < length ?E" using i by (simp_all add: scroll_inv_def here_def)
  define r where "r = initScrollRestore (window w (Fin 0 0))"
  have r: "sc_positions (fst r) = sc_positions (wd_scroll w1)" "sc_currentHash (fst r) = en_hash (?E ! ?i)" "sc_currentIdx (fst r) = ?c"
      "sc_highWater (fst r) = ?c" "wn_state (snd r) = Some ?c" "wn_sessionStorage (snd r) = Some t"
      "wn_scrollTo (snd r) = [nullish (remembered w1 ?i) (Fin 0 0)]"
    by (simp_all add: r_def initScrollRestore_def window_def h mk w entryIndex_def l restoreTo_def stamp_def currentKey_def remembered_def hs(2) Let_def)
  have "?E[?i := (?E ! ?i)\<lparr> en_mark := Some ?c \<rparr>] = ?E" using mk hs(3) by (cases "?E ! ?i") (simp add: list_update_same_conv)
  then have E: "wd_entries (handled w r) = ?E" by (simp add: handled_def set_here_def h w r)
  show ?thesis unfolding r_def[symmetric] using i E hs
    by (auto simp: scroll_inv_def here_def handled_def set_here_def r w)
qed

lemma remember_get: "map_of (sc_positions (remember w sc)) (currentKey sc) = Some (wn_scrollY w)"
proof -
  let ?k = "currentKey sc" and ?m = "AList.delete (currentKey sc) (sc_positions sc)"
  have "?k \<notin> fst ` set ?m" by (auto simp: AList.delete_eq)
  then have "?k \<notin> fst ` set (drop n ?m)" for n by (meson image_mono set_drop_subset subsetD)
  then have "map_of (drop n ?m) ?k = None" for n unfolding map_of_eq_None_iff .
  then have "map_of (drop n ?m @ [(?k, wn_scrollY w)]) ?k = Some (wn_scrollY w)" for n by (simp add: map_add_def)
  moreover have "length (?m @ [(?k, wn_scrollY w)]) - MAX_SCROLL_ENTRIES \<le> length ?m" by (simp add: MAX_SCROLL_ENTRIES_def)
  ultimately show ?thesis by (simp add: remember_def drop_oldest_drop Let_def)
qed

lemma inv_reloaded:
  assumes i: "scroll_inv dtoa n w" and y: "num_ok dtoa y" and fits: "\<forall>t. fits t"
  shows "scroll_inv dtoa n (visit_step dtoa fits w (Reloaded y)) \<and> wd_asked (visit_step dtoa fits w (Reloaded y)) = [y]"
proof -
  define w1 where "w1 = (set_here (\<lambda>e. e\<lparr> en_last := Some y \<rparr>) w)\<lparr> wd_scroll := remember (window w y) (wd_scroll w), wd_asked := [] \<rparr>"
  have i1: "scroll_inv dtoa n w1" unfolding w1_def by (rule inv_remember[OF i y])
  then obtain qs where q: "sc_positions (wd_scroll w1) = keyed_text qs" "kept dtoa n (wd_entries w1) qs" by (auto simp: scroll_inv_def)
  obtain s where s: "wd_store w = Some s" using i by (auto simp: scroll_inv_def)
  define t where "t = AList.update STORE_KEY (stringify dtoa (JObj (from_entries (map (map_prod id JNum) (keyed_text qs))))) s"
  have p: "wn_sessionStorage (snd (onPageHide dtoa fits (window w y) (wd_scroll w))) = Some t"
    using q(1) s fits by (simp add: onPageHide_def w1_def window_def set_item_def nullish_def t_def Let_def)
  have l: "load_positions (Some t) = sc_positions (wd_scroll w1)" unfolding q(1) t_def by (rule load_saved[OF q(2)[unfolded kept_def, THEN conjunct1]])
  let ?w2 = "(set_here (\<lambda>e. e\<lparr> en_last := Some y \<rparr>) w)\<lparr> wd_store := Some t \<rparr>"
  have r: "remembered w1 (wd_cur w1) = Some y" using remember_get[of "window w y" "wd_scroll w"] i
    by (simp add: remembered_def w1_def set_here_def here_def scroll_inv_def currentKey_def mark_of_def window_def)
  have "scroll_inv dtoa n (handled ?w2 (initScrollRestore (window ?w2 (Fin 0 0)))) \<and>
      wd_asked (handled ?w2 (initScrollRestore (window ?w2 (Fin 0 0)))) = [nullish (remembered w1 (wd_cur w1)) (Fin 0 0)]"
    by (rule inv_init[OF i1 l]) (simp_all add: w1_def set_here_def)
  then show ?thesis unfolding visit_step.simps Let_def p r by simp
qed

lemma inv_opened: "scroll_inv dtoa 0 (opened h now)"
proof -
  have "load_positions (Some []) = []" by (simp add: load_positions_def truthy_def)
  then have "wd_entries (opened h now) = [\<lparr> en_hash = h, en_mark = Some 0, en_last = None \<rparr>]" "wd_cur (opened h now) = 0"
    "wd_store (opened h now) = Some []" "sc_positions (wd_scroll (opened h now)) = []" "sc_currentHash (wd_scroll (opened h now)) = h"
    "sc_currentIdx (wd_scroll (opened h now)) = 0" "sc_highWater (wd_scroll (opened h now)) = 0"
    by (simp_all add: opened_def handled_def set_here_def here_def window_def initScrollRestore_def entryIndex_def restoreTo_def stamp_def Let_def)
  moreover have "kept dtoa 0 [\<lparr> en_hash = h, en_mark = Some 0, en_last = None \<rparr>] []" by (simp add: kept_def sound_def complete_def)
  ultimately show ?thesis by (auto simp: scroll_inv_def here_def marked_def mark_of_def keyed_text_def intro!: exI[of _ "[]"])
qed

lemma inv_step:
  assumes "scroll_inv dtoa n w" "visit_ok dtoa w v" "n < 2 ^ 53" "\<forall>t. fits t"
  shows "scroll_inv dtoa (case v of Followed _ \<Rightarrow> Suc n | _ \<Rightarrow> n) (visit_step dtoa fits w v)"
proof (cases v)
  case (Scrolled y)
  then show ?thesis using inv_remember[OF assms(1), of y] assms(2) by (simp add: onScroll_def)
next
  case (Followed h)
  then show ?thesis using inv_followed[OF assms(1)] assms(2,3) by simp
next
  case (Traversed j)
  then show ?thesis using inv_traversed[OF assms(1)] assms(2) by simp
next
  case (Canonicalised h)
  then show ?thesis using inv_canonicalised[OF assms(1)] assms(2) by simp
next
  case (Reloaded y)
  then show ?thesis using inv_reloaded[OF assms(1) _ assms(4)] assms(2) by simp
qed

lemma visited_inv: "visited dtoa fits n w \<Longrightarrow> n < 2 ^ 53 \<Longrightarrow> \<forall>t. fits t \<Longrightarrow> scroll_inv dtoa n w"
proof (induction rule: visited.induct)
  case (visit_more n w v)
  then have "n < 2 ^ 53" by (cases v) auto
  then show ?case using visit_more inv_step by blast
qed (rule inv_opened)

lemma inv_remembered:
  assumes "scroll_inv dtoa n w" "j < length (wd_entries w)"
  shows "remembered w j = None \<or> remembered w j = en_last (wd_entries w ! j)" "n < MAX_SCROLL_ENTRIES \<longrightarrow> remembered w j = en_last (wd_entries w ! j)"
proof -
  obtain qs where q: "sc_positions (wd_scroll w) = keyed_text qs" "sound dtoa n (wd_entries w) qs"
      "n < MAX_SCROLL_ENTRIES \<longrightarrow> complete (wd_entries w) qs" using assms(1) by (auto simp: scroll_inv_def kept_def)
  let ?e = "wd_entries w ! j"
  have r: "remembered w j = Some y \<longleftrightarrow> ((mark_of ?e, en_hash ?e), y) \<in> set qs" for y
    unfolding remembered_def q(1) keyed_get by (rule sound_get[OF q(2)])
  have s: "en_last ?e = Some y" if "remembered w j = Some y" for y
    using bspec[OF conjunct2[OF q(2)[unfolded sound_def]] that[unfolded r]] assms(2) by simp
  show "remembered w j = None \<or> remembered w j = en_last ?e" using s by (cases "remembered w j") auto
  show "n < MAX_SCROLL_ENTRIES \<longrightarrow> remembered w j = en_last ?e"
  proof
    assume "n < MAX_SCROLL_ENTRIES"
    then have "remembered w j = Some y" if "en_last ?e = Some y" for y using q(3) that assms(2) unfolding r complete_def by blast
    then show "remembered w j = en_last ?e" using s by (cases "remembered w j"; cases "en_last ?e") auto
  qed
qed

text \<open>C11: In a visit whose traversals go between entries that show different hashes, whose navigations
  reach the handler before any redirect of theirs, and whose storage has room, restoration follows
  what the visitor did, whatever they did before: following a link starts at the top; a
  canonicalisation and a scroll move nothing; a reload comes back to where the page was; and going
  back or forward comes back to the offset last reported on that very entry, or to the top when it
  is no longer remembered -- which cannot be before thirty links were followed.  Without the first
  two conditions it does not (\<open>same_hash_traversal\<close>, \<open>redirect_takes_the_mark\<close>).\<close>

theorem visit_restores:
  assumes "visited dtoa fits n w" "\<forall>t. fits t" "n < 2 ^ 53" "visit_ok dtoa w v"
  shows "wd_asked (visit_step dtoa fits w v) =
      (case v of
         Scrolled _ \<Rightarrow> []
       | Canonicalised _ \<Rightarrow> []
       | Followed _ \<Rightarrow> [Fin 0 0]
       | Reloaded y \<Rightarrow> [y]
       | Traversed j \<Rightarrow> [nullish (remembered w j) (Fin 0 0)]) \<and>
    (\<forall>j < length (wd_entries w).
       (remembered w j = None \<or> remembered w j = en_last (wd_entries w ! j)) \<and>
       (n < 30 \<longrightarrow> remembered w j = en_last (wd_entries w ! j)))"
proof -
  have i: "scroll_inv dtoa n w" by (rule visited_inv[OF assms(1,3,2)])
  have "wd_asked (visit_step dtoa fits w v) = (case v of Scrolled _ \<Rightarrow> [] | Canonicalised _ \<Rightarrow> [] | Followed _ \<Rightarrow> [Fin 0 0] | Reloaded y \<Rightarrow> [y]
       | Traversed j \<Rightarrow> [nullish (remembered w j) (Fin 0 0)])"
    using assms(3,4) inv_followed[OF i] inv_canonicalised[OF i] inv_traversed[OF i] inv_reloaded[OF i _ assms(2)]
    by (cases v) (simp_all del: visit_step.simps(2-5))
  then show ?thesis using inv_remembered[OF i] by (simp add: MAX_SCROLL_ENTRIES_def)
qed

definition demo_visit :: "visit list \<Rightarrow> world" where
  "demo_visit vs = foldl (visit_step (\<lambda>_. []) (\<lambda>_. True)) (opened ''#/a'' 0) vs"

lemmas visit_simps = opened_def handled_def set_here_def here_def window_def initScrollRestore_def onHashChange_def onScroll_def
  remember_def restoreTo_def stamp_def entryIndex_def dropForwardOf_def currentKey_def load_positions_def truthy_def Let_def

lemma demo_visited:
  "visited (\<lambda>_. []) (\<lambda>_. True) 1 (demo_visit [Scrolled (num_of_int 120), Followed ''#/b''])"
proof -
  let ?w = "visit_step (\<lambda>_. []) (\<lambda>_. True) (opened ''#/a'' 0) (Scrolled (num_of_int 120))"
  have "num_ok (\<lambda>_. []) (num_of_int 120)" by (rule num_ok_int) simp
  then have s: "visited (\<lambda>_. []) (\<lambda>_. True) 0 ?w" using visit_more[OF visit_open, of _ "''#/a''" 0 "Scrolled (num_of_int 120)"] by simp
  have "visit_ok (\<lambda>_. []) ?w (Followed ''#/b'')"
    by (simp add: visit_simps)
  from visit_more[OF s this] show ?thesis by (simp add: demo_visit_def del: visit_step.simps)
qed

theorem visit_restores_witness:
  "wd_asked (visit_step (\<lambda>_. []) (\<lambda>_. True) (demo_visit [Scrolled (num_of_int 120), Followed ''#/b'']) (Traversed 0)) = [num_of_int 120]"
proof -
  let ?w = "demo_visit [Scrolled (num_of_int 120), Followed ''#/b'']"
  have e: "wd_entries ?w = [\<lparr> en_hash = ''#/a'', en_mark = Some 0, en_last = Some (num_of_int 120) \<rparr>, \<lparr> en_hash = ''#/b'', en_mark = Some 1, en_last = None \<rparr>]"
      "wd_cur ?w = 1"
    unfolding demo_visit_def by (simp_all add: visit_simps)
  have "visit_ok (\<lambda>_. []) ?w (Traversed 0)" using e by (simp add: here_def)
  from visit_restores[OF demo_visited _ _ this] show ?thesis using e by (simp del: visit_step.simps)
qed

section \<open>Where the entry is mistaken\<close>

text \<open>Two entries that show one hash: going from one to the other announces no hash change, so the
  offsets reported on the earlier entry are remembered for the later one.\<close>

lemma same_hash_traversal:
  "let w = demo_visit [Scrolled (num_of_int 120), Followed ''#/old'', Canonicalised ''#/a'']; b = w\<lparr> wd_cur := 0 \<rparr>
   in en_hash (here b) = en_hash (here w) \<and> mark_of (here b) = 0 \<and> sc_currentIdx (wd_scroll b) = 1 \<and>
      remembered (visit_step (\<lambda>_. []) (\<lambda>_. True) b (Scrolled (num_of_int 7))) 0 = Some (num_of_int 120)"
  by (simp add: demo_visit_def visit_simps mark_of_def remembered_def keyIndex_posKey MAX_SCROLL_ENTRIES_def)

text \<open>A link to an old address whose canonicalisation is announced before the navigation itself,
  as when an earlier listener of the same event redirects: the new entry is stamped as the old
  one, whose position is renamed away.\<close>

definition redirected_early :: "string \<Rightarrow> world \<Rightarrow> world" where
  "redirected_early new w =
     (let w1 = w\<lparr> wd_entries := take (Suc (wd_cur w)) (wd_entries w) @ [\<lparr> en_hash = new, en_mark = None, en_last = None \<rparr>],
                  wd_cur := Suc (wd_cur w) \<rparr>;
          w2 = handled w1 (onHashChange False (window w1 (Fin 0 0)) (wd_scroll w1))
      in handled w2 (onHashChange True (window w2 (Fin 0 0)) (wd_scroll w2)))"

lemma redirect_takes_the_mark:
  "let w = redirected_early ''#/new'' (demo_visit [Scrolled (num_of_int 120)])
   in map en_mark (wd_entries w) = [Some 0, Some 0] \<and> en_last (wd_entries w ! 0) = Some (num_of_int 120) \<and>
      wd_asked (visit_step (\<lambda>_. []) (\<lambda>_. True) w (Traversed 0)) = [Fin 0 0]"
  by (simp add: redirected_early_def demo_visit_def visit_simps MAX_SCROLL_ENTRIES_def)

end
