(* ===== verification/Spec2Isabelle.thy ===== *)
theory Spec2Isabelle
  imports Filters Loader Suggest Delivery Distributions RouterFacts NeighborhoodFacts LaneFacts
    Metrics Visible Layout ReleaseCycle Api Spatial Scroll
begin

text \<open>
  The JavaScript of pacto: the dashboard's front-end modules
  (\<open>src/pkg/dashboard/frontend/src/lib\<close>) and the release scripts (\<open>src/release\<close>).

  \<^bold>\<open>The program.\<close>  The dashboard is a single page.  The location's hash is its only address:
  the router reads a route from it, a view asks the server for what the route names, and what it
  draws is computed from the answer by plain modules: paging, filters, owners, readiness, metrics,
  distributions, knowledge state, graphs and their layouts.  Every link on a page is built by the
  same modules, so that following it gives back the state it was built for.  The release scripts
  turn a commit into a plan, a plan into a transaction and edited files, and decide on a later
  commit whether that transaction is to be released.

  \<^bold>\<open>How values are modelled.\<close>  A JavaScript string is a \<open>string\<close> of its UTF-8 bytes; a missing
  value is \<open>None\<close>; \<open>||\<close> and \<open>??\<close> are \<open>or_else\<close> and \<open>nullish\<close>; a Map or an object used as one is
  an association list in insertion order, a Set a list without repetition; an object of known
  fields is a \<open>record\<close>, a tagged union a \<open>datatype\<close>; an exception is a value of a sum or option
  type.  Counts and offsets are \<open>nat\<close> or \<open>int\<close>; where the code computes with fractions or reads a
  number from text, the value is the exact IEEE double of \<open>Numbers\<close>.  Parameters stand for what
  is not in the sources: \<open>lc\<close> for \<open>localeCompare\<close>, \<open>lower\<close> for \<open>toLowerCase\<close>, \<open>dtoa\<close> for the text
  of a number that is not a small integer, \<open>sha\<close> for SHA-256.  A helper of one line that stands
  for part of an expression is read with the operation that uses it.

  \<^bold>\<open>The theories.\<close>
  \<^item> \<open>Prelude\<close>, \<open>Uri\<close>, \<open>Numbers\<close>, \<open>Json\<close>, \<open>JsonParse\<close>: the language.  Strings, dictionaries and stable
    sorting; \<open>encodeURIComponent\<close>, \<open>decodeURIComponent\<close> and \<open>URLSearchParams\<close> with their round
    trips; doubles with \<open>Number\<close>, \<open>parseInt\<close> and division; \<open>JSON.stringify\<close>, \<open>JSON.parse\<close> (the
    parser's fuel is the length of the text, which \<open>parse_fuel\<close> shows to be enough) and the
    canonical form of \<open>canonical.mjs\<close>, which is one text for each content.
  \<^item> \<open>Paging\<close> (\<open>paging.ts\<close>, \<open>hashQuery.svelte.ts\<close>): page arithmetic and the list state in the URL; the
    offsets a page's controls carry are rows that exist, and the pages partition the list.
  \<^item> \<open>GraphState\<close> (\<open>graphState.ts\<close>): the graph's shareable state, in bounds whatever a URL says.
  \<^item> \<open>Router\<close>, \<open>RouterFacts\<close> (\<open>router.ts\<close>): \<open>parseHash\<close>, the URL builders, the legacy redirects.  What a
    builder writes the parser reads back, and a redirect's target is never redirected.
  \<^item> \<open>Owners\<close>, \<open>Readiness\<close>, \<open>Format\<close>, \<open>Metrics\<close> (\<open>owners.ts\<close>, \<open>readiness.ts\<close>, \<open>format.ts\<close>): owner
    identity, readiness buckets, the words and classes of a status, and \<open>summarize\<close>, which counts
    each service in exactly one bucket of each kind.
  \<^item> \<open>GraphModel\<close> (\<open>graph.ts\<close>, \<open>graph-aggregate.ts\<close>): focused, versioned and per-owner graphs.
    Its searches are recursive functions that end because each step discovers a node.
  \<^item> \<open>Neighborhood\<close>, \<open>NeighborhoodFacts\<close>, \<open>LaneFacts\<close> (\<open>neighborhoodGraph.ts\<close>): the backend's answer as a
    graph, the sides of the focus and the lane graph.  Nothing is invented, no entity is lost or
    shown twice, and the counts shown are the counts of what is hidden.
  \<^item> \<open>Visible\<close>, \<open>Layout\<close> (\<open>layout.ts\<close>, \<open>laneLayout\<close> of \<open>graph.ts\<close>): what the dependency tree shows, and
    places that keep a row and a column step between any two nodes.
  \<^item> \<open>Knowledge\<close> (\<open>knowledgeState.ts\<close>): what a view may claim; an all-clear needs complete knowledge.
  \<^item> \<open>Async\<close>: requests in flight.  An operation issues a request, and its three promise callbacks are
    steps of their own, interleaved in any order with those of other requests.  The locale
    \<open>token_guard\<close> states what a component promises whose callbacks check a token, and gives the
    simulation by a component that cancels each superseded request.
  \<^item> \<open>Loader\<close>, \<open>Suggest\<close> (\<open>productLoader.svelte.ts\<close>, \<open>entitySuggest.svelte.ts\<close>): two such components,
    interpretations of the locale.  What they show was delivered for the question asked.
  \<^item> \<open>Api\<close> (\<open>api.ts\<close>, the accounts of \<open>session.svelte.ts\<close>): a response becomes data or a typed error,
    an entity detail is narrowed to its kind, a mutating request is retried once with a new token.
  \<^item> \<open>Storage\<close>, \<open>Spatial\<close>, \<open>Scroll\<close> (\<open>graphSpatial.ts\<close>, \<open>scrollRestore.ts\<close>): what the session storage
    keeps.  A saved arrangement loads as it was, and at most eight are kept while the storage
    refuses no write (\<open>unlisted_arrangements\<close> shows why the condition); positions belong to history
    entries, and a visit (the relation \<open>visited\<close>, over the events \<open>visit_ok\<close> admits) comes back to
    the offset of the very entry it returns to.  \<open>same_hash_traversal\<close> and \<open>redirect_takes_the_mark\<close> show the two orders of
    events in which the module mistakes one entry for another.
  \<^item> \<open>Delivery\<close>, \<open>Distributions\<close>, \<open>Filters\<close> (\<open>delivery.ts\<close>, \<open>distributions.ts\<close>, \<open>filters.ts\<close>,
    \<open>filters.svelte.ts\<close>): the texts of the delivery views, tallies as chart segments with their
    links, and the filter store, which agrees with the URL after any sequence of operations.
  \<^item> \<open>Release\<close>, \<open>Detect\<close>, \<open>Apply\<close>, \<open>ReleaseCycle\<close> (\<open>build-release-plan.mjs\<close>, \<open>detect.mjs\<close>,
    \<open>apply-release-plan.mjs\<close>, \<open>canonical.mjs\<close>): the plan with its refusals, the transaction, the
    decision to release or recover, the version edits; and the cycle they make together.  Lemmas
    beside them show the limits: \<open>core_tag_behind_path\<close>, \<open>prerelease_edit_unstable\<close> and
    \<open>recovery_unchecked\<close>.

  \<^bold>\<open>Interfaces.\<close>  A contract that more than one part relies on is a locale (\<open>ordered_map\<close>, \<open>comparator\<close>,
  \<open>url_text\<close>, \<open>token_guard\<close>),
  interpreted on the model's own definitions in the theory that provides them; the properties use
  the facts of the interpretations.

  \<^bold>\<open>Not modelled.\<close>  Svelte templates and the DOM; drawing through Cytoscape and the chart library,
  with \<open>seedPositions\<close> (trigonometry) and \<open>wrapWideRanks\<close>; dates, which are the platform's; fetch,
  sign-in and page loads; the decision kept across a sign-in and the links of Mira citations; files, git and registries, whose contents are inputs of the release
  definitions; modules that only hold tables of words; the demo and documentation pages; generated
  and bundled code; the Go server, whose answers are inputs.
\<close>

end
